(* ===== verification/Prelude.thy ===== *)
theory Prelude
  imports Complex_Main "HOL-Library.Multiset" "HOL-Library.Word"
begin

text \<open>
  Shared ground of the development: the collections of rewrite rules the component
  theories fill, the result type of fallible code, and generic facts on lists
  (the most recent entries of a list, association maps, sorting by a strict order).
\<close>

named_theorems store_simps \<open>equations that unfold the account store\<close>
named_theorems go_eval \<open>equations used to evaluate the model on concrete inputs\<close>

type_synonym u64 = "64 word"

section \<open>The most recent entries of a list\<close>

definition lastn :: "nat \<Rightarrow> 'a list \<Rightarrow> 'a list" where
  "lastn n xs = drop (length xs - n) xs"

lemma length_lastn [simp]: "length (lastn n xs) = min n (length xs)"
  by (simp add: lastn_def)

lemma lastn_id [simp]: "length xs \<le> n \<Longrightarrow> lastn n xs = xs"
  by (simp add: lastn_def)

lemma lastn_Nil [simp]: "lastn n [] = []"
  by (simp add: lastn_def)

lemma set_lastn: "set (lastn n xs) \<subseteq> set xs"
  by (simp add: lastn_def set_drop_subset)

lemma lastn_snoc_full:
  assumes "n > 0"
  shows "lastn n (lastn n xs @ [x]) = lastn n (xs @ [x])"
proof (cases "length xs < n")
  case True
  then show ?thesis by simp
next
  case False
  then have "length (xs @ [x]) - n = Suc (length xs - n)" by simp
  with False assms show ?thesis
    by (simp add: lastn_def Suc_diff_le drop_Suc tl_drop flip: drop_drop)
qed

lemma lastn_lastn_append:
  "lastn n (lastn n xs @ ys) = lastn n (xs @ ys)"
proof (cases "length xs \<le> n")
  case True
  then show ?thesis by simp
next
  case False
  then have "length (drop (length xs - n) xs @ ys) - n = length ys"
    by simp
  with False show ?thesis
    by (simp add: lastn_def) (metis (no_types, opaque_lifting) add.commute diff_add_inverse2
        diff_diff_cancel drop_drop le_add_diff_inverse length_drop nat_le_linear add_diff_assoc2)
qed

section \<open>Rewriting one row of a table\<close>

definition map_if :: "('a \<Rightarrow> bool) \<Rightarrow> ('a \<Rightarrow> 'a) \<Rightarrow> 'a list \<Rightarrow> 'a list" where
  "map_if p f xs = map (\<lambda>x. if p x then f x else x) xs"

lemma map_if_Nil [simp]: "map_if p f [] = []"
  by (simp add: map_if_def)

lemma map_if_Cons [simp]: "map_if p f (x # xs) = (if p x then f x else x) # map_if p f xs"
  by (simp add: map_if_def)

lemma map_map_if_same:
  "(\<And>x. g (f x) = g x) \<Longrightarrow> map g (map_if p f xs) = map g xs"
  by (induction xs) auto

lemma set_map_if: "set (map_if p f xs) = f ` {x \<in> set xs. p x} \<union> {x \<in> set xs. \<not> p x}"
  by (auto simp: map_if_def)

lemma find_Some_iff_mem: "find P xs = Some x \<Longrightarrow> x \<in> set xs \<and> P x"
  by (induction xs) (auto split: if_splits)

lemma map_filter_mem: "x \<in> set (List.map_filter f xs) \<longleftrightarrow> (\<exists>y \<in> set xs. f y = Some x)"
  by (auto simp: List.map_filter_def) force

lemma find_None_mem: "find P xs = None \<longleftrightarrow> (\<forall>x \<in> set xs. \<not> P x)"
  by (induction xs) auto

lemma find_unique:
  assumes "distinct (map g xs)" and "x \<in> set xs" and "\<And>y. P y \<longleftrightarrow> g y = g x"
  shows "find P xs = Some x"
  using assms(1,2)
proof (induction xs)
  case (Cons y ys)
  show ?case
  proof (cases "P y")
    case True
    then have "g y = g x" using assms(3) by simp
    with Cons.prems have "y = x" by (auto simp: image_iff)
    with True show ?thesis by simp
  next
    case False
    with Cons.prems assms(3)[of x] have "x \<in> set ys" by auto
    with Cons False show ?thesis by simp
  qed
qed simp

section \<open>Sorting with a strict comparison\<close>

text \<open>
  \<open>sort.Slice\<close> takes a strict comparison. Up to twelve elements it is the insertion sort
  written here; above that the order of elements that compare equal is not specified, so
  the properties of sorted results rest on the contract below only.
\<close>

fun ins_by :: "('a \<Rightarrow> 'a \<Rightarrow> bool) \<Rightarrow> 'a \<Rightarrow> 'a list \<Rightarrow> 'a list" where
  "ins_by lt x [] = [x]"
| "ins_by lt x (y # ys) = (if lt y x then y # ins_by lt x ys else x # y # ys)"

fun sort_by :: "('a \<Rightarrow> 'a \<Rightarrow> bool) \<Rightarrow> 'a list \<Rightarrow> 'a list" where
  "sort_by lt [] = []"
| "sort_by lt (x # xs) = ins_by lt x (sort_by lt xs)"

lemma mset_ins_by [simp]: "mset (ins_by lt x xs) = add_mset x (mset xs)"
  by (induction xs) auto

lemma mset_sort_by [simp]: "mset (sort_by lt xs) = mset xs"
  by (induction xs) auto

lemma set_sort_by [simp]: "set (sort_by lt xs) = set xs"
  by (metis mset_sort_by set_mset_mset)

lemma length_sort_by [simp]: "length (sort_by lt xs) = length xs"
  by (metis mset_sort_by size_mset)


section \<open>Operations that keep an invariant\<close>

text \<open>
  The contract between a component and whoever drives it: whatever an operation reads from
  outside, it keeps the component's invariant. Then every sequence of operations does.
\<close>

locale invariant_ops =
  fixes exec :: "'e \<Rightarrow> 'op \<Rightarrow> 's \<Rightarrow> 's"
    and inv :: "'s \<Rightarrow> bool"
  assumes exec_inv: "inv s \<Longrightarrow> inv (exec e op s)"
begin

lemma run_inv: "inv s \<Longrightarrow> inv (foldl (\<lambda>s (e, op). exec e op s) s ops)"
  by (induction ops arbitrary: s) (auto intro: exec_inv)

end

text \<open>
  The contract of \<open>sort.Slice\<close>: the same elements, and no element before a smaller one, provided the
  comparison is a strict weak order on the elements at hand (floats are one only without NaN). Whatever uses
  it is proved from the contract, for every sorting function that keeps it.
\<close>

locale slice_sort =
  fixes ok :: "'a \<Rightarrow> bool"
    and lt :: "'a \<Rightarrow> 'a \<Rightarrow> bool"
    and srt :: "'a list \<Rightarrow> 'a list"
  assumes srt_mset: "mset (srt xs) = mset xs"
    and srt_ordered: "list_all ok xs \<Longrightarrow> sorted_wrt (\<lambda>x y. \<not> lt y x) (srt xs)"
begin

lemma srt_set [simp]: "set (srt xs) = set xs"
  by (metis srt_mset set_mset_mset)

lemma srt_length [simp]: "length (srt xs) = length xs"
  by (metis srt_mset size_mset)

lemma srt_distinct_map: "distinct (map f (srt xs)) = distinct (map f xs)"
proof -
  have "mset (map f (srt xs)) = mset (map f xs)" by (simp add: srt_mset)
  then show ?thesis by (metis mset_eq_imp_distinct_iff)
qed

text \<open>The first elements dominate the others.\<close>

lemma srt_take:
  assumes "list_all ok xs" "x \<in> set (take n (srt xs))" "y \<in> set (drop n (srt xs))"
  shows "\<not> lt y x"
proof -
  have "sorted_wrt (\<lambda>x y. \<not> lt y x) (take n (srt xs) @ drop n (srt xs))" using srt_ordered[OF assms(1)] by simp
  then have "\<forall>x \<in> set (take n (srt xs)). \<forall>y \<in> set (drop n (srt xs)). \<not> lt y x"
    unfolding sorted_wrt_append by blast
  with assms(2,3) show ?thesis by blast
qed

end

definition weak_order_on :: "('a \<Rightarrow> bool) \<Rightarrow> ('a \<Rightarrow> 'a \<Rightarrow> bool) \<Rightarrow> bool" where
  "weak_order_on ok lt \<longleftrightarrow> (\<forall>x y. ok x \<longrightarrow> ok y \<longrightarrow> lt x y \<longrightarrow> \<not> lt y x)
     \<and> (\<forall>x y z. ok x \<longrightarrow> ok y \<longrightarrow> ok z \<longrightarrow> \<not> lt y x \<longrightarrow> \<not> lt z y \<longrightarrow> \<not> lt z x)"

lemma weak_order_trans:
  assumes "weak_order_on ok lt" "ok x" "ok y" "ok z" "\<not> lt y x" "\<not> lt z y"
  shows "\<not> lt z x"
  by (rule assms(1)[unfolded weak_order_on_def, THEN conjunct2, rule_format, OF assms(2-6)])

lemma weak_order_asym:
  assumes "weak_order_on ok lt" "ok x" "ok y" "lt x y"
  shows "\<not> lt y x"
  by (rule assms(1)[unfolded weak_order_on_def, THEN conjunct1, rule_format, OF assms(2-4)])

lemma set_ins_by [simp]: "set (ins_by lt x ys) = insert x (set ys)"
  by (metis mset_ins_by set_mset_add_mset_insert set_mset_mset)

lemma ins_by_ordered:
  assumes "weak_order_on ok lt" "ok x" "list_all ok ys" "sorted_wrt (\<lambda>x y. \<not> lt y x) ys"
  shows "sorted_wrt (\<lambda>x y. \<not> lt y x) (ins_by lt x ys)"
  using assms(3,4)
proof (induction ys)
  case (Cons y ys)
  then have okz: "ok y" "z \<in> set ys \<Longrightarrow> ok z" for z by (auto simp: list_all_iff)
  show ?case
  proof (cases "lt y x")
    case True
    with weak_order_asym[OF assms(1) okz(1) assms(2) True] Cons show ?thesis by simp
  next
    case False
    have "\<not> lt z x" if "z \<in> set ys" for z
    proof -
      have "\<not> lt z y" using that Cons.prems by simp
      with weak_order_trans[OF assms(1,2) okz(1) okz(2)[OF that] False] show ?thesis .
    qed
    with False Cons.prems show ?thesis by simp
  qed
qed simp

lemma sort_by_ordered: "weak_order_on ok lt \<Longrightarrow> list_all ok xs \<Longrightarrow> sorted_wrt (\<lambda>x y. \<not> lt y x) (sort_by lt xs)"
proof (induction xs)
  case (Cons x xs)
  then show ?case by (auto simp: list_all_iff intro!: ins_by_ordered[of ok])
qed simp

lemma sort_by_slice_sort: "weak_order_on ok lt \<Longrightarrow> slice_sort ok lt (sort_by lt)"
  by (unfold_locales) (simp, rule sort_by_ordered)

end
