(* ===== verification/GoFloat.thy ===== *)
theory GoFloat
  imports Prelude
begin

text \<open>
  Go's \<open>float64\<close>: IEEE 754 binary64 over exact rationals. A finite value is a rational,
  every operation computes the exact result and rounds it to 53 significant bits, ties to
  even, with the subnormal range below \<open>2^-1022\<close> and overflow to infinity at \<open>2^1024\<close>.
  The two zeros are one value: no operation of the modelled code tells them apart (every
  division is by a positive number or guarded). The Go compiler fuses no multiply-add on
  amd64, so each operation rounds on its own.
\<close>

section \<open>Rounding\<close>

fun nlog2 :: "nat \<Rightarrow> nat" where
  "nlog2 n = (if n < 2 then 0 else Suc (nlog2 (n div 2)))"

declare nlog2.simps [simp del]

lemma nlog2_bounds: "n > 0 \<Longrightarrow> 2 ^ nlog2 n \<le> n \<and> n < 2 ^ Suc (nlog2 n)"
proof (induction n rule: nlog2.induct)
  case (1 n)
  show ?case
  proof (cases "n < 2")
    case True
    with 1 show ?thesis by (simp add: nlog2.simps[of n])
  next
    case False
    then have "0 < n div 2" by simp
    with 1 False have "2 ^ nlog2 (n div 2) \<le> n div 2 \<and> n div 2 < 2 ^ Suc (nlog2 (n div 2))"
      by blast
    then have "2 * 2 ^ nlog2 (n div 2) \<le> n \<and> n < 2 * 2 ^ Suc (nlog2 (n div 2))" by linarith
    with False show ?thesis by (simp add: nlog2.simps[of n])
  qed
qed

definition expo :: "rat \<Rightarrow> int" where
  "expo x = (let (a, b) = quotient_of x;
                 e = int (nlog2 (nat a)) - int (nlog2 (nat b))
             in if 2 powi e \<le> x then e else e - 1)"

definition rne :: "rat \<Rightarrow> int" where
  "rne x = (let f = \<lfloor>x\<rfloor>; r = x - of_int f
            in if r < 1 / 2 then f else if r > 1 / 2 then f + 1
               else if even f then f else f + 1)"

definition quantum :: "rat \<Rightarrow> int" where
  "quantum x = max (expo \<bar>x\<bar> - 52) (-1074)"

definition rnd :: "rat \<Rightarrow> rat" where
  "rnd x = (if x = 0 then 0 else of_int (rne (x / 2 powi quantum x)) * 2 powi quantum x)"

lemma powi_pos [simp]: "0 < (2 :: rat) powi k"
  by (simp add: zero_less_power_int)

lemma powi_mono: "i \<le> j \<Longrightarrow> (2 :: rat) powi i \<le> 2 powi j"
  by (intro power_int_increasing) auto

lemma powi_less_iff: "(2 :: rat) powi i < 2 powi j \<longleftrightarrow> i < j"
  by (metis linorder_not_le order_less_le power_int_strict_increasing powi_mono one_less_numeral_iff semiring_norm(76))

lemma expo_bounds:
  assumes "0 < x"
  shows "2 powi expo x \<le> x \<and> x < 2 powi (expo x + 1)"
proof -
  obtain a b where q: "quotient_of x = (a, b)" by fastforce
  then have b: "b > 0" by (rule quotient_of_denom_pos)
  have x: "x = of_int a / of_int b" using q by (rule quotient_of_div)
  with assms b have a: "a > 0" by (simp add: zero_less_divide_iff)
  define k l where "k = nlog2 (nat a)" and "l = nlog2 (nat b)"
  have nk: "2 ^ k \<le> nat a" "nat a < 2 ^ Suc k" and nl: "2 ^ l \<le> nat b" "nat b < 2 ^ Suc l"
    using nlog2_bounds[of "nat a"] nlog2_bounds[of "nat b"] a b by (auto simp: k_def l_def)
  from nk a have "2 ^ k \<le> a" "a < 2 ^ Suc k"
    by (simp_all add: nat_less_iff le_nat_iff)
  moreover from nl b have "2 ^ l \<le> b" "b < 2 ^ Suc l"
    by (simp_all add: nat_less_iff le_nat_iff)
  ultimately have ra: "(2 :: rat) ^ k \<le> of_int a" "of_int a < (2 :: rat) ^ Suc k"
    and rb: "(2 :: rat) ^ l \<le> of_int b" "of_int b < (2 :: rat) ^ Suc l"
    by (metis of_int_le_iff of_int_less_iff of_int_numeral of_int_power)+
  have lo: "(2 :: rat) powi (int k - int l - 1) < x"
  proof -
    have "(2 :: rat) ^ k * of_int b < of_int a * 2 ^ Suc l"
      using ra(1) rb(2) a b by (intro mult_le_less_imp_less) auto
    then show ?thesis using b
      by (simp add: x power_int_diff field_simps power_int_add)
  qed
  have hi: "x < 2 powi (int k - int l + 1)"
  proof -
    have "of_int a * (2 :: rat) ^ l < 2 ^ Suc k * of_int b"
      using ra(2) rb(1) a b by (intro mult_less_le_imp_less) auto
    then show ?thesis using b
      by (simp add: x power_int_diff power_int_add field_simps)
  qed
  show ?thesis
    using lo hi q by (auto simp: expo_def k_def l_def Let_def)
qed

lemma expo_unique:
  assumes "0 < x" "2 powi e \<le> x" "x < 2 powi (e + 1)"
  shows "expo x = e"
proof -
  note b = expo_bounds[OF assms(1)]
  from b assms have "(2::rat) powi e < 2 powi (expo x + 1)" "(2::rat) powi expo x < 2 powi (e + 1)"
    by linarith+
  then show ?thesis by (simp add: powi_less_iff)
qed

lemma expo_mono: "0 < x \<Longrightarrow> x \<le> y \<Longrightarrow> expo x \<le> expo y"
proof -
  assume a: "0 < x" "x \<le> y"
  with expo_bounds[of x] expo_bounds[of y] have "(2::rat) powi expo x < 2 powi (expo y + 1)"
    by linarith
  then show ?thesis by (simp add: powi_less_iff)
qed

lemma rne_of_int [simp]: "rne (of_int n) = n"
  by (simp add: rne_def)

lemma rne_bounds: "x - 1 / 2 \<le> of_int (rne x) \<and> of_int (rne x) \<le> x + 1 / 2"
proof -
  have "of_int \<lfloor>x\<rfloor> \<le> x" "x < of_int \<lfloor>x\<rfloor> + 1" by linarith+
  then show ?thesis by (simp add: rne_def Let_def) linarith
qed

lemma rne_mono: "x \<le> y \<Longrightarrow> rne x \<le> rne y"
proof -
  assume xy: "x \<le> y"
  then have "\<lfloor>x\<rfloor> \<le> \<lfloor>y\<rfloor>" by (rule floor_mono)
  moreover have "rne x \<le> \<lfloor>x\<rfloor> + 1" "\<lfloor>y\<rfloor> \<le> rne y" by (auto simp: rne_def Let_def)
  ultimately show ?thesis
    using xy by (cases "\<lfloor>x\<rfloor> = \<lfloor>y\<rfloor>") (auto simp: rne_def Let_def)
qed

lemma rne_minus: "rne (- x) = - rne x"
proof (cases "x = of_int \<lfloor>x\<rfloor>")
  case True
  then show ?thesis by (metis of_int_minus rne_of_int)
next
  case False
  then have "\<lfloor>- x\<rfloor> = - \<lfloor>x\<rfloor> - 1"
    by (metis ceiling_altdef ceiling_def add.commute diff_minus_eq_add minus_diff_eq
        minus_equation_iff uminus_add_conv_diff)
  then show ?thesis by (auto simp: rne_def Let_def)
qed

lemma quantum_minus [simp]: "quantum (- x) = quantum x"
  by (simp add: quantum_def)

lemma rnd_minus: "rnd (- x) = - rnd x"
  by (simp add: rnd_def rne_minus)

lemma rnd_0 [simp]: "rnd 0 = 0"
  by (simp add: rnd_def)

lemma rnd_nonneg: "0 \<le> x \<Longrightarrow> 0 \<le> rnd x"
  using rne_mono[of 0 "x / 2 powi quantum x"] rne_of_int[of 0]
  by (simp add: rnd_def zero_le_divide_iff less_imp_le)

lemma rnd_mono_pos:
  assumes "0 < x" "x \<le> y"
  shows "rnd x \<le> rnd y"
proof (cases "quantum x = quantum y")
  case True
  have "rne (x / 2 powi quantum x) \<le> rne (y / 2 powi quantum x)"
    using assms by (intro rne_mono divide_right_mono) (auto simp: less_imp_le)
  with assms True show ?thesis by (simp add: rnd_def)
next
  case False
  let ?q = "quantum x" and ?p = "quantum y" and ?e = "expo y"
  from assms have "expo x \<le> ?e" by (intro expo_mono)
  with False assms have q: "?q < ?p" "?p = ?e - 52" "expo x < ?e"
    by (auto simp: quantum_def max_def split: if_splits)
  have xe: "x \<le> 2 powi ?e"
    using expo_bounds[OF assms(1)] powi_mono[of "expo x + 1" ?e] q by linarith
  have "x / 2 powi ?q \<le> 2 powi (?e - ?q)"
    using xe by (simp add: power_int_diff divide_right_mono)
  also have "(2::rat) powi (?e - ?q) = of_int (2 ^ nat (?e - ?q))"
    using q by (simp add: power_int_def)
  finally have "rne (x / 2 powi ?q) \<le> 2 ^ nat (?e - ?q)"
    by (metis rne_mono rne_of_int)
  then have "of_int (rne (x / 2 powi ?q)) \<le> (2::rat) powi (?e - ?q)"
    using q by (simp add: power_int_def)
  then have "rnd x \<le> 2 powi (?e - ?q) * 2 powi ?q"
    using assms by (simp add: rnd_def mult_right_mono)
  also have "\<dots> = 2 powi ?e" by (simp flip: power_int_add)
  finally have 1: "rnd x \<le> 2 powi ?e" .
  have "2 powi ?e \<le> y" using expo_bounds[of y] assms by simp
  then have "2 powi (?e - ?p) \<le> y / 2 powi ?p"
    by (simp add: power_int_diff divide_right_mono)
  then have "of_int (2 ^ 52) \<le> y / 2 powi ?p" using q by simp
  then have "2 ^ 52 \<le> rne (y / 2 powi ?p)" by (metis rne_mono rne_of_int)
  then have "(2::rat) ^ 52 \<le> of_int (rne (y / 2 powi ?p))"
    by (metis of_int_le_iff of_int_numeral of_int_power)
  then have "2 ^ 52 * 2 powi ?p \<le> rnd y"
    using assms by (simp add: rnd_def mult_right_mono)
  moreover have "(2::rat) ^ 52 * 2 powi ?p = 2 powi ?e"
    using q(2) by (simp add: power_int_diff)
  ultimately show ?thesis using 1 by simp
qed

theorem rnd_mono: "x \<le> y \<Longrightarrow> rnd x \<le> rnd y"
proof -
  assume xy: "x \<le> y"
  consider "0 < x" | "x \<le> 0" "0 \<le> y" | "y < 0" by linarith
  then show ?thesis
  proof cases
    case 1
    with xy show ?thesis by (intro rnd_mono_pos)
  next
    case 2
    then have "0 \<le> rnd (- x)" "0 \<le> rnd y" by (auto intro: rnd_nonneg)
    then show ?thesis by (simp add: rnd_minus)
  next
    case 3
    with xy have "rnd (- y) \<le> rnd (- x)" by (intro rnd_mono_pos) auto
    then show ?thesis by (simp add: rnd_minus)
  qed
qed

lemma rnd_exact_pos:
  assumes "0 < m" "m < 2 ^ 53" "-1074 \<le> k"
  shows "rnd (of_int m * 2 powi k) = of_int m * 2 powi k"
proof -
  let ?x = "of_int m * 2 powi k :: rat" and ?q = "quantum (of_int m * 2 powi k)"
  have pos: "0 < ?x" using assms by simp
  have "of_int m < (2 :: rat) ^ 53" using assms(2)
    by (metis of_int_less_iff of_int_numeral of_int_power)
  then have "?x < 2 powi (53 + k)"
    by (simp add: power_int_add mult_strict_right_mono)
  with expo_bounds[OF pos] have "(2::rat) powi expo ?x < 2 powi (53 + k)" by linarith
  then have "expo ?x < 53 + k" by (simp add: powi_less_iff)
  with pos assms(3) have q: "?q \<le> k" by (simp add: quantum_def)
  have "?x / 2 powi ?q = of_int m * 2 powi (k - ?q)" by (simp add: power_int_diff)
  also have "\<dots> = of_int (m * 2 ^ nat (k - ?q))"
    using q by (simp add: power_int_def)
  finally have "rne (?x / 2 powi ?q) = m * 2 ^ nat (k - ?q)"
    by (metis rne_of_int)
  then have "rnd ?x = of_int (m * 2 ^ nat (k - ?q)) * 2 powi ?q"
    using pos by (simp add: rnd_def)
  also have "\<dots> = of_int m * 2 powi (k - ?q) * 2 powi ?q"
    using q by (simp add: power_int_def)
  also have "\<dots> = ?x" by (simp add: mult.assoc flip: power_int_add)
  finally show ?thesis .
qed

lemma rnd_exact:
  assumes "\<bar>m\<bar> < 2 ^ 53" "-1074 \<le> k"
  shows "rnd (of_int m * 2 powi k) = of_int m * 2 powi k"
proof (cases m "0 :: int" rule: linorder_cases)
  case less
  with assms rnd_exact_pos[of "- m" k] show ?thesis by (simp add: rnd_minus)
next
  case greater
  with assms rnd_exact_pos[of m k] show ?thesis by simp
qed simp

lemma rnd_int: "\<bar>m\<bar> < 2 ^ 53 \<Longrightarrow> rnd (of_int m) = of_int m"
  using rnd_exact[of m 0] by simp

lemma rnd_numeral: "(numeral w :: int) < 2 ^ 53 \<Longrightarrow> rnd (numeral w) = numeral w"
  using rnd_int[of "numeral w"] by simp

lemma rnd_1 [simp]: "rnd 1 = 1"
  using rnd_int[of 1] by simp

lemma rnd_le_int: "\<bar>m\<bar> < 2 ^ 53 \<Longrightarrow> x \<le> of_int m \<Longrightarrow> rnd x \<le> of_int m"
  using rnd_mono[of x "of_int m"] by (simp add: rnd_int)

lemma rnd_ge_int: "\<bar>m\<bar> < 2 ^ 53 \<Longrightarrow> of_int m \<le> x \<Longrightarrow> of_int m \<le> rnd x"
  using rnd_mono[of "of_int m" x] by (simp add: rnd_int)

lemma expo_2_powi: "expo (2 powi e) = e"
  by (rule expo_unique) (auto simp: powi_less_iff)

lemma rnd_pos: "2 powi (-1074) \<le> x \<Longrightarrow> 0 < rnd x"
proof -
  assume "2 powi (-1074) \<le> x"
  then have "rnd (2 powi (-1074)) \<le> rnd x" by (rule rnd_mono)
  moreover have "rnd (2 powi (-1074)) = 2 powi (-1074)"
    using rnd_exact[of 1 "-1074"] by simp
  ultimately show ?thesis using powi_pos[of "-1074"] by linarith
qed

section \<open>The rounding error\<close>

lemma rnd_error_quantum: "\<bar>rnd x - x\<bar> \<le> 2 powi (quantum x - 1)"
proof (cases "x = 0")
  case False
  define q where "q = (2 :: rat) powi quantum x"
  have q: "0 < q" by (simp add: q_def)
  have e: "rnd x - x = (of_int (rne (x / q)) - x / q) * q" using False q by (simp add: rnd_def q_def field_simps)
  have "\<bar>of_int (rne (x / q)) - x / q\<bar> \<le> 1 / 2" using rne_bounds[of "x / q"] by linarith
  then have "\<bar>rnd x - x\<bar> \<le> 1 / 2 * q" unfolding e abs_mult using q by (intro mult_mono) auto
  also have "1 / 2 * q = 2 powi (quantum x - 1)" by (simp add: q_def power_int_diff)
  finally show ?thesis .
qed simp

lemma rnd_error_abs:
  assumes "\<bar>x\<bar> \<le> 2 powi k" "-1021 \<le> k"
  shows "\<bar>rnd x - x\<bar> \<le> 2 powi (k - 53)"
proof (cases "x = 0")
  case False
  then have "2 powi expo \<bar>x\<bar> \<le> \<bar>x\<bar>" using expo_bounds[of "\<bar>x\<bar>"] by simp
  then have "(2 :: rat) powi expo \<bar>x\<bar> \<le> 2 powi k" using assms(1) by linarith
  then have "expo \<bar>x\<bar> \<le> k" using powi_less_iff[of k "expo \<bar>x\<bar>"] by linarith
  then have "quantum x - 1 \<le> k - 53" using assms(2) by (simp add: quantum_def)
  then show ?thesis using rnd_error_quantum[of x] powi_mono by (meson order.trans)
qed simp

text \<open>Relative to the exact result, outside the subnormal range.\<close>

lemma rnd_error:
  assumes "2 powi (-1022) \<le> \<bar>x\<bar>"
  shows "\<bar>rnd x - x\<bar> \<le> \<bar>x\<bar> * 2 powi (-53)"
proof -
  have x: "0 < \<bar>x\<bar>" using assms powi_pos[of "-1022"] by linarith
  note b = expo_bounds[OF x]
  from b assms have "(2 :: rat) powi (-1022) < 2 powi (expo \<bar>x\<bar> + 1)" by linarith
  then have "-1022 < expo \<bar>x\<bar> + 1" unfolding powi_less_iff .
  then have "quantum x = expo \<bar>x\<bar> - 52" by (simp add: quantum_def)
  then have "\<bar>rnd x - x\<bar> \<le> 2 powi (expo \<bar>x\<bar> - 53)" using rnd_error_quantum[of x] by simp
  also have "(2 :: rat) powi (expo \<bar>x\<bar> - 53) = 2 powi expo \<bar>x\<bar> * 2 powi (-53)"
    by (metis power_int_add[of "2 :: rat" "expo \<bar>x\<bar>" "-53"] zero_neq_numeral diff_conv_add_uminus)
  also have "\<dots> \<le> \<bar>x\<bar> * 2 powi (-53)" using b by (intro mult_right_mono) auto
  finally show ?thesis .
qed

text \<open>A value within a relative error of another, and how errors add up over an expression.\<close>

definition near :: "rat \<Rightarrow> rat \<Rightarrow> rat \<Rightarrow> bool" where
  "near \<epsilon> y x \<longleftrightarrow> x * (1 - \<epsilon>) \<le> y \<and> y \<le> x * (1 + \<epsilon>)"

lemma near_abs: "near \<epsilon> y x \<longleftrightarrow> \<bar>y - x\<bar> \<le> x * \<epsilon>"
  by (auto simp: near_def abs_le_iff algebra_simps)

lemma near_rnd: "x = 0 \<or> 2 powi (-1022) \<le> x \<Longrightarrow> near (2 powi (-53)) (rnd x) x"
proof (elim disjE)
  assume x: "2 powi (-1022) \<le> x"
  then have "0 < x" using powi_pos[of "-1022"] by linarith
  with x rnd_error[of x] show ?thesis unfolding near_abs by (simp only: abs_of_pos)
qed (simp add: near_def)

lemma near_add: "0 \<le> q \<Longrightarrow> 0 \<le> \<epsilon> \<Longrightarrow> near \<epsilon> y x \<Longrightarrow> near \<epsilon> (q + y) (q + x)"
proof -
  assume a: "0 \<le> q" "0 \<le> \<epsilon>" "near \<epsilon> y x"
  then have "0 \<le> q * \<epsilon>" by simp
  with a(3) show ?thesis unfolding near_abs by (simp add: algebra_simps)
qed

lemma near_add2: "near \<epsilon> y x \<Longrightarrow> near \<epsilon> y' x' \<Longrightarrow> near \<epsilon> (y + y') (x + x')"
  by (simp add: near_def algebra_simps)

lemma near_weaken: "near \<epsilon> y x \<Longrightarrow> 0 \<le> x \<Longrightarrow> \<epsilon> \<le> \<epsilon>' \<Longrightarrow> near \<epsilon>' y x"
  unfolding near_abs by (meson mult_left_mono order.trans)

lemma near_trans:
  assumes "near \<epsilon> y x" "near \<epsilon> z y" "0 \<le> x" "0 \<le> \<epsilon>" "\<epsilon> \<le> 1 / 100"
  shows "near (3 * \<epsilon>) z x"
proof -
  have e: "0 \<le> 1 - \<epsilon>" "0 \<le> 1 + \<epsilon>" "\<epsilon> * \<epsilon> \<le> \<epsilon>" using assms(4,5) mult_left_le[of \<epsilon> \<epsilon>] by simp_all
  have "x * (1 - \<epsilon>) * (1 - \<epsilon>) \<le> z"
    using mult_right_mono[of "x * (1 - \<epsilon>)" y "1 - \<epsilon>"] assms(1,2) e by (simp add: near_def)
  moreover have "x * (1 - 3 * \<epsilon>) \<le> x * ((1 - \<epsilon>) * (1 - \<epsilon>))"
    using e assms(4) by (intro mult_left_mono assms(3)) (simp add: algebra_simps)
  ultimately have lo: "x * (1 - 3 * \<epsilon>) \<le> z" by (simp add: mult.assoc)
  have "z \<le> x * (1 + \<epsilon>) * (1 + \<epsilon>)"
    using mult_right_mono[of y "x * (1 + \<epsilon>)" "1 + \<epsilon>"] assms(1,2) e by (simp add: near_def)
  moreover have "x * ((1 + \<epsilon>) * (1 + \<epsilon>)) \<le> x * (1 + 3 * \<epsilon>)"
    using e by (intro mult_left_mono assms(3)) (simp add: algebra_simps)
  ultimately show ?thesis using lo by (simp add: near_def mult.assoc)
qed

lemma near_quotient:
  assumes "near (3 * \<epsilon>) n' n" "near \<epsilon> z d" "near \<epsilon> d' z" "near \<epsilon> v (n' / d')" "0 \<le> n" "0 < d" "0 \<le> \<epsilon>" "\<epsilon> \<le> 1 / 100"
  shows "near (8 * \<epsilon>) v (n / d)"
proof -
  have lt: "0 < 1 - \<epsilon>" "0 < 1 + \<epsilon>" using assms(7,8) by linarith+
  have z: "d * (1 - \<epsilon>) \<le> z" "z \<le> d * (1 + \<epsilon>)" "0 < d * (1 - \<epsilon>)" using assms(2,6) lt by (simp_all add: near_def)
  then have d': "d * (1 - \<epsilon>) * (1 - \<epsilon>) \<le> d'" "d' \<le> d * (1 + \<epsilon>) * (1 + \<epsilon>)" "0 < d'"
  proof -
    have b: "z * (1 - \<epsilon>) \<le> d'" "d' \<le> z * (1 + \<epsilon>)" using assms(3) by (simp_all add: near_def)
    have "d * (1 - \<epsilon>) * (1 - \<epsilon>) \<le> z * (1 - \<epsilon>)" using z(1) lt by (intro mult_right_mono) auto
    with b show 1: "d * (1 - \<epsilon>) * (1 - \<epsilon>) \<le> d'" by linarith
    have "z * (1 + \<epsilon>) \<le> d * (1 + \<epsilon>) * (1 + \<epsilon>)" using z(2) lt by (intro mult_right_mono) auto
    with b show "d' \<le> d * (1 + \<epsilon>) * (1 + \<epsilon>)" by linarith
    have "0 < d * (1 - \<epsilon>) * (1 - \<epsilon>)" using z(3) lt(1) by (rule mult_pos_pos)
    with 1 show "0 < d'" by linarith
  qed
  have n': "n * (1 - 3 * \<epsilon>) \<le> n'" "n' \<le> n * (1 + 3 * \<epsilon>)" using assms(1) by (simp_all add: near_def)
  have v: "n' / d' * (1 - \<epsilon>) \<le> v" "v \<le> n' / d' * (1 + \<epsilon>)" using assms(4) by (simp_all add: near_def)
  have "v * d' \<le> n' * (1 + \<epsilon>)" using mult_right_mono[OF v(2), of d'] d'(3) by simp
  also have "\<dots> \<le> n * (1 + 3 * \<epsilon>) * (1 + \<epsilon>)" using n'(2) lt(2) by (intro mult_right_mono) auto
  also have "\<dots> \<le> n * ((1 + 8 * \<epsilon>) * (1 - \<epsilon>) * (1 - \<epsilon>))"
  proof -
    have "18 * \<epsilon>\<^sup>2 \<le> 2 * \<epsilon>" using assms(7,8) mult_left_mono[of \<epsilon> "1/100" "18 * \<epsilon>"] by (simp add: power2_eq_square)
    moreover have "0 \<le> \<epsilon> ^ 3" using assms(7) by simp
    ultimately have "(1 + 3 * \<epsilon>) * (1 + \<epsilon>) \<le> (1 + 8 * \<epsilon>) * (1 - \<epsilon>) * (1 - \<epsilon>)"
      by (simp add: algebra_simps power2_eq_square power3_eq_cube)
    then show ?thesis using assms(5) by (simp add: mult.assoc mult_left_mono)
  qed
  finally have up: "v * d' \<le> n * ((1 + 8 * \<epsilon>) * (1 - \<epsilon>) * (1 - \<epsilon>))" .
  have hi: "v \<le> n / d * (1 + 8 * \<epsilon>)"
  proof (rule ccontr)
    let ?w = "n / d * (1 + 8 * \<epsilon>)"
    assume "\<not> v \<le> ?w"
    then have "?w < v" by (simp only: not_le)
    then have "?w * d' < v * d'" using d'(3) by (rule mult_strict_right_mono)
    moreover have "?w * (d * (1 - \<epsilon>) * (1 - \<epsilon>)) \<le> ?w * d'" using d'(1) assms(5-7) by (intro mult_left_mono) auto
    moreover have "?w * (d * (1 - \<epsilon>) * (1 - \<epsilon>)) = n * ((1 + 8 * \<epsilon>) * (1 - \<epsilon>) * (1 - \<epsilon>))" using assms(6) by simp
    ultimately show False using up by linarith
  qed
  have "n * ((1 - 8 * \<epsilon>) * (1 + \<epsilon>) * (1 + \<epsilon>)) \<le> n * ((1 - 3 * \<epsilon>) * (1 - \<epsilon>))"
  proof -
    have "0 \<le> \<epsilon> ^ 3" "0 \<le> \<epsilon>\<^sup>2" using assms(7) by simp_all
    then have "(1 - 8 * \<epsilon>) * (1 + \<epsilon>) * (1 + \<epsilon>) \<le> (1 - 3 * \<epsilon>) * (1 - \<epsilon>)"
      using assms(7) by (simp add: algebra_simps power2_eq_square power3_eq_cube)
    then show ?thesis using assms(5) by (rule mult_left_mono)
  qed
  also have "\<dots> \<le> n' * (1 - \<epsilon>)" using n'(1) lt(1) by (simp add: mult.assoc[symmetric] mult_right_mono)
  also have "\<dots> \<le> v * d'" using mult_right_mono[OF v(1), of d'] d'(3) by simp
  finally have low: "n * ((1 - 8 * \<epsilon>) * (1 + \<epsilon>) * (1 + \<epsilon>)) \<le> v * d'" .
  have lo: "n / d * (1 - 8 * \<epsilon>) \<le> v"
  proof (rule ccontr)
    let ?w = "n / d * (1 - 8 * \<epsilon>)"
    assume "\<not> ?w \<le> v"
    then have "v < ?w" by (simp only: not_le)
    then have "v * d' < ?w * d'" using d'(3) by (rule mult_strict_right_mono)
    moreover have "?w * d' \<le> ?w * (d * (1 + \<epsilon>) * (1 + \<epsilon>))" using d'(2) assms(5,6,8) by (intro mult_left_mono) auto
    moreover have "?w * (d * (1 + \<epsilon>) * (1 + \<epsilon>)) = n * ((1 - 8 * \<epsilon>) * (1 + \<epsilon>) * (1 + \<epsilon>))" using assms(6) by simp
    ultimately show False using low by linarith
  qed
  show ?thesis using lo hi by (simp add: near_def)
qed

lemma ulp_small: "0 \<le> (2 :: rat) powi (-53)" "(2 :: rat) powi (-53) \<le> 1 / 100" "8 * (2 :: rat) powi (-53) = 2 powi (-50)"
proof -
  have "(2 :: rat) powi (-53) \<le> 2 powi (-7)" by (rule powi_mono) simp
  also have "(2 :: rat) powi (-7) \<le> 1 / 100" by (simp add: power_int_def power_divide)
  finally show "(2 :: rat) powi (-53) \<le> 1 / 100" .
  show "8 * (2 :: rat) powi (-53) = 2 powi (-50)" by (simp add: power_int_def power_divide)
qed simp

section \<open>The values and their operations\<close>

datatype f64 = Fin rat | PInf | NInf | NaN

definition mkf :: "rat \<Rightarrow> f64" where
  "mkf x = (let r = rnd x in if r \<ge> 2 ^ 1024 then PInf else if r \<le> - (2 ^ 1024) then NInf else Fin r)"

fun is_fin :: "f64 \<Rightarrow> bool" where
  "is_fin (Fin _) = True"
| "is_fin _ = False"

fun fneg :: "f64 \<Rightarrow> f64" where
  "fneg (Fin a) = Fin (- a)"
| "fneg PInf = NInf"
| "fneg NInf = PInf"
| "fneg NaN = NaN"

fun fadd :: "f64 \<Rightarrow> f64 \<Rightarrow> f64" where
  "fadd (Fin a) (Fin b) = mkf (a + b)"
| "fadd NaN _ = NaN"
| "fadd _ NaN = NaN"
| "fadd PInf NInf = NaN"
| "fadd NInf PInf = NaN"
| "fadd PInf _ = PInf"
| "fadd _ PInf = PInf"
| "fadd NInf _ = NInf"
| "fadd _ NInf = NInf"

definition inf_sgn :: "bool \<Rightarrow> f64" where
  "inf_sgn pos = (if pos then PInf else NInf)"

fun fmul :: "f64 \<Rightarrow> f64 \<Rightarrow> f64" where
  "fmul (Fin a) (Fin b) = mkf (a * b)"
| "fmul NaN _ = NaN"
| "fmul _ NaN = NaN"
| "fmul (Fin a) PInf = (if a = 0 then NaN else inf_sgn (a > 0))"
| "fmul (Fin a) NInf = (if a = 0 then NaN else inf_sgn (a < 0))"
| "fmul PInf (Fin b) = (if b = 0 then NaN else inf_sgn (b > 0))"
| "fmul NInf (Fin b) = (if b = 0 then NaN else inf_sgn (b < 0))"
| "fmul PInf PInf = PInf"
| "fmul NInf NInf = PInf"
| "fmul PInf NInf = NInf"
| "fmul NInf PInf = NInf"

fun fdiv :: "f64 \<Rightarrow> f64 \<Rightarrow> f64" where
  "fdiv (Fin a) (Fin b) =
     (if b = 0 then (if a = 0 then NaN else inf_sgn (a > 0)) else mkf (a / b))"
| "fdiv NaN _ = NaN"
| "fdiv _ NaN = NaN"
| "fdiv (Fin a) _ = Fin 0"
| "fdiv PInf (Fin b) = inf_sgn (b \<ge> 0)"
| "fdiv NInf (Fin b) = inf_sgn (b < 0)"
| "fdiv _ _ = NaN"

fun flt :: "f64 \<Rightarrow> f64 \<Rightarrow> bool" where
  "flt (Fin a) (Fin b) = (a < b)"
| "flt NaN _ = False"
| "flt _ NaN = False"
| "flt NInf y = (y \<noteq> NInf)"
| "flt _ NInf = False"
| "flt _ PInf = True"
| "flt PInf _ = False"

fun fle :: "f64 \<Rightarrow> f64 \<Rightarrow> bool" where
  "fle (Fin a) (Fin b) = (a \<le> b)"
| "fle NaN _ = False"
| "fle _ NaN = False"
| "fle NInf _ = True"
| "fle _ PInf = True"
| "fle _ _ = False"

instantiation f64 :: "{plus, minus, uminus, times, inverse, ord, zero, one}"
begin
definition zero_f64 :: f64 where "zero_f64 = Fin 0"
definition one_f64 :: f64 where "one_f64 = Fin 1"
definition plus_f64 :: "f64 \<Rightarrow> f64 \<Rightarrow> f64" where "plus_f64 = fadd"
definition uminus_f64 :: "f64 \<Rightarrow> f64" where "uminus_f64 = fneg"
definition minus_f64 :: "f64 \<Rightarrow> f64 \<Rightarrow> f64" where "minus_f64 x y = fadd x (fneg y)"
definition times_f64 :: "f64 \<Rightarrow> f64 \<Rightarrow> f64" where "times_f64 = fmul"
definition divide_f64 :: "f64 \<Rightarrow> f64 \<Rightarrow> f64" where "divide_f64 = fdiv"
definition inverse_f64 :: "f64 \<Rightarrow> f64" where "inverse_f64 = fdiv (Fin 1)"
definition less_f64 :: "f64 \<Rightarrow> f64 \<Rightarrow> bool" where "less_f64 = flt"
definition less_eq_f64 :: "f64 \<Rightarrow> f64 \<Rightarrow> bool" where "less_eq_f64 = fle"
instance ..
end

lemmas f64_ops [simp] =
  zero_f64_def one_f64_def plus_f64_def uminus_f64_def minus_f64_def times_f64_def
  divide_f64_def less_f64_def less_eq_f64_def

text \<open>Conversions: Go's \<open>float64(x)\<close> of an unsigned or a signed 64-bit integer.\<close>

definition f_of_u64 :: "u64 \<Rightarrow> f64" where
  "f_of_u64 w = mkf (of_nat (unat w))"

definition f_of_int :: "int \<Rightarrow> f64" where
  "f_of_int n = mkf (of_int n)"

text \<open>Go's \<open>int64(f)\<close> for a value in range: truncation towards zero.\<close>

fun f_trunc :: "f64 \<Rightarrow> int" where
  "f_trunc (Fin a) = (if a \<ge> 0 then \<lfloor>a\<rfloor> else \<lceil>a\<rceil>)"
| "f_trunc _ = - (2 ^ 63)"

section \<open>Range lemmas\<close>

lemma mkf_fin: "\<bar>x\<bar> \<le> 2 ^ 1023 \<Longrightarrow> mkf x = Fin (rnd x)"
proof -
  assume a: "\<bar>x\<bar> \<le> 2 ^ 1023"
  define B C :: rat where "B = 2 ^ 1023" and "C = 2 ^ 1024"
  have r: "rnd B = B" using rnd_exact[of 1 1023] by (simp add: B_def power_int_def)
  from a have "rnd x \<le> rnd B" "rnd (- x) \<le> rnd B"
    by (auto intro!: rnd_mono simp del: power_numeral simp: B_def)
  then have "rnd x \<le> B" "- rnd x \<le> B" by (simp_all add: r rnd_minus)
  moreover have "B < C" unfolding B_def C_def by (rule power_strict_increasing) auto
  ultimately show ?thesis unfolding mkf_def Let_def C_def[symmetric] by auto
qed

lemma mkf_small: "\<bar>x\<bar> \<le> 2 ^ 200 \<Longrightarrow> mkf x = Fin (rnd x)"
proof (rule mkf_fin)
  assume "\<bar>x\<bar> \<le> 2 ^ 200"
  moreover have "(2 :: rat) ^ 200 \<le> 2 ^ 1023" by (rule power_increasing) auto
  ultimately show "\<bar>x\<bar> \<le> 2 ^ 1023" by linarith
qed

lemma mkf_int: "\<bar>m\<bar> < 2 ^ 53 \<Longrightarrow> mkf (of_int m) = Fin (of_int m)"
proof -
  assume a: "\<bar>m\<bar> < 2 ^ 53"
  then have "\<bar>of_int m :: rat\<bar> < 2 ^ 53" by (metis of_int_abs of_int_less_iff of_int_numeral of_int_power)
  then have "\<bar>of_int m :: rat\<bar> \<le> 2 ^ 200"
    using power_increasing[of 53 200 "2 :: rat"] by linarith
  with a show ?thesis by (simp add: mkf_small rnd_int)
qed

lemma f_of_int_exact: "\<bar>n\<bar> < 2 ^ 53 \<Longrightarrow> f_of_int n = Fin (of_int n)"
  by (simp add: f_of_int_def mkf_int)

lemma u64_less: "unat (w :: u64) < 2 ^ 64"
  using unsigned_less[of w, where ?'a = nat] by simp

lemma f_of_u64_fin: "f_of_u64 w = Fin (rnd (of_nat (unat w)))"
proof -
  define C :: rat where "C = 2 ^ 200"
  have "(of_nat (unat w) :: rat) < of_nat (2 ^ 64)"
    using u64_less[of w] by (subst of_nat_less_iff)
  also have "of_nat (2 ^ 64) \<le> C" by (simp add: C_def)
  finally have "\<bar>of_nat (unat w) :: rat\<bar> \<le> C" by (simp del: of_nat_unat)
  then show ?thesis unfolding f_of_u64_def C_def by (rule mkf_small)
qed

lemma f_of_u64_exact: "unat w < 2 ^ 53 \<Longrightarrow> f_of_u64 w = Fin (of_nat (unat w))"
  using rnd_int[of "int (unat w)"] by (simp add: f_of_u64_fin del: of_nat_unat)

end
