(* ===== verification/GoTime.thy ===== *)
theory GoTime
  imports GoFloat
begin

text \<open>
  Package \<open>time\<close> as the code uses it: an instant is its nanoseconds since the Unix epoch
  (unbounded, read from the clock by the caller), a duration is a signed 64-bit count of
  nanoseconds, and the difference of two instants saturates at the ends of that range.
\<close>

type_synonym time = int
type_synonym duration = int

definition Second :: duration where "Second = 1000000000"
definition Minute :: duration where "Minute = 60 * Second"
definition Hour :: duration where "Hour = 60 * Minute"

lemmas time_units [simp] = Second_def Minute_def Hour_def

definition max_dur :: int where "max_dur = 2 ^ 63 - 1"
definition min_dur :: int where "min_dur = - (2 ^ 63)"

definition t_sub :: "time \<Rightarrow> time \<Rightarrow> duration" where
  "t_sub t u = max min_dur (min max_dur (t - u))"

definition t_unix :: "time \<Rightarrow> int" where
  "t_unix t = t div Second"

definition t_of_unix :: "int \<Rightarrow> time" where
  "t_of_unix s = s * Second"

text \<open>\<open>Time.Round(time.Second)\<close>: to the nearest second, halves up.\<close>

definition round_sec :: "time \<Rightarrow> time" where
  "round_sec t = (let r = t mod Second in if r + r < Second then t - r else t + (Second - r))"

text \<open>\<open>Duration.Seconds\<close>: Go's integer division truncates towards zero.\<close>

definition quot :: "int \<Rightarrow> int \<Rightarrow> int" where
  "quot a b = sgn a * sgn b * (\<bar>a\<bar> div \<bar>b\<bar>)"

definition rem :: "int \<Rightarrow> int \<Rightarrow> int" where
  "rem a b = a - quot a b * b"

definition seconds :: "duration \<Rightarrow> f64" where
  "seconds d = f_of_int (quot d Second) + f_of_int (rem d Second) / Fin 1000000000"

section \<open>Facts\<close>

lemma t_unix_of_unix [simp]: "t_unix (t_of_unix s) = s"
  by (simp add: t_unix_def t_of_unix_def)

lemma t_sub_small: "min_dur \<le> t - u \<Longrightarrow> t - u \<le> max_dur \<Longrightarrow> t_sub t u = t - u"
  by (simp add: t_sub_def)

lemma t_sub_pos_iff: "t_sub t u > 0 \<longleftrightarrow> t > u"
  by (auto simp: t_sub_def max_dur_def min_dur_def)

lemma t_sub_le: "t_sub t u \<le> max_dur"
  by (simp add: t_sub_def max_dur_def min_dur_def)

lemma t_sub_gt_iff: "0 \<le> d \<Longrightarrow> d < max_dur \<Longrightarrow> t_sub t u > d \<longleftrightarrow> t - u > d"
  by (auto simp: t_sub_def max_dur_def min_dur_def)

lemma t_sub_less_iff: "min_dur < d \<Longrightarrow> d \<le> max_dur \<Longrightarrow> t_sub t u < d \<longleftrightarrow> t - u < d"
  by (auto simp: t_sub_def)

lemma round_sec_multiple: "round_sec t mod Second = 0"
  by (simp add: round_sec_def Let_def mod_simps minus_mod_eq_mult_div)
     (metis add_diff_eq minus_mod_eq_mult_div mod_add_self2 mod_mult_self1_is_0)

lemma round_sec_near: "\<bar>round_sec t - t\<bar> \<le> 500000000"
  by (simp add: round_sec_def Let_def)

lemma round_sec_id: "t mod Second = 0 \<Longrightarrow> round_sec t = t"
  by (simp add: round_sec_def)

lemma round_sec_eqI:
  assumes "s mod Second = 0" "s - 500000000 \<le> t" "t < s + 500000000"
  shows "round_sec t = s"
proof -
  obtain k where s: "s = Second * k" using assms(1) by (auto simp: mod_0_imp_dvd elim!: dvdE)
  show ?thesis
  proof (cases "s \<le> t")
    case True
    have "t mod Second = (t - s) mod Second" by (simp add: s mod_diff_right_eq flip: mod_diff_eq)
    also have "\<dots> = t - s" using True assms by (intro mod_pos_pos_trivial) auto
    finally show ?thesis using assms by (simp add: round_sec_def Let_def)
  next
    case False
    have "t mod Second = (t - s + Second) mod Second"
      by (simp add: s flip: mod_diff_eq)
    also have "\<dots> = t - s + Second" using False assms by (intro mod_pos_pos_trivial) auto
    finally show ?thesis using False assms by (simp add: round_sec_def Let_def)
  qed
qed

lemma nano_frac:
  assumes "0 \<le> r" "r < 1000000000"
  obtains y where "Fin (of_int r) / Fin 1000000000 = Fin y" "0 \<le> y" "y \<le> 1"
    "r > 0 \<Longrightarrow> 2 powi (-30) \<le> y"
proof
  define x :: rat where "x = of_int r / 1000000000"
  have x: "0 \<le> x" "x \<le> 1" using assms by (simp_all add: x_def)
  then have "mkf x = Fin (rnd x)" by (intro mkf_small) simp
  then show "Fin (of_int r) / Fin 1000000000 = Fin (rnd x)" by (simp add: x_def)
  show "0 \<le> rnd x" using x by (intro rnd_nonneg)
  show "rnd x \<le> 1" using rnd_le_int[of 1 x] x by simp
  show "2 powi (-30) \<le> rnd x" if "r > 0"
  proof -
    have "2 powi (-30) \<le> x" using that by (simp add: x_def power_int_def field_simps)
    then have "rnd (2 powi (-30)) \<le> rnd x" by (rule rnd_mono)
    then show ?thesis using rnd_exact[of 1 "-30"] by simp
  qed
qed

lemma seconds_form:
  assumes "0 \<le> d" "d \<le> 2 ^ 63"
  shows "\<exists>x. seconds d = Fin x \<and> seconds (- d) = Fin (- x) \<and> 0 \<le> x \<and> (0 < d \<longrightarrow> 2 powi (-30) \<le> x)"
proof -
  define q r where "q = d div 1000000000" and "r = d mod 1000000000"
  have d: "d = 1000000000 * q + r" by (simp add: q_def r_def)
  have b: "0 \<le> r" "r < 1000000000" by (simp_all add: r_def)
  have "d \<le> 9223372036854775808" using assms(2) by simp
  with assms(1) d b have q: "0 \<le> q" "q < 9223372037" "0 < d \<longrightarrow> q > 0 \<or> r > 0" by linarith+
  have qr: "quot d Second = q" "rem d Second = r"
    using assms(1) by (cases "d = 0"; simp add: quot_def rem_def q_def r_def minus_div_mult_eq_mod)+
  have qr': "quot (- d) Second = - q"
    using assms(1) by (cases "d = 0") (simp_all add: quot_def q_def)
  have rr': "rem (- d) Second = - r"
    unfolding rem_def qr' using d by simp
  obtain y where y: "Fin (of_int r) / Fin 1000000000 = Fin y" "0 \<le> y" "y \<le> 1"
    "r > 0 \<Longrightarrow> 2 powi (-30) \<le> y" using nano_frac[OF b] by metis
  have y': "mkf (of_int r / 1000000000) = Fin y" using y(1) by simp
  have small: "\<bar>of_int r / 1000000000 :: rat\<bar> \<le> 2 ^ 200"
  proof -
    have "(of_int r :: rat) \<le> of_int 1000000000" using b by (subst of_int_le_iff) simp
    then have "\<bar>of_int r / 1000000000 :: rat\<bar> \<le> 1" using b by simp
    moreover have "(1 :: rat) \<le> 2 ^ 200" by simp
    ultimately show ?thesis by linarith
  qed
  then have ym: "mkf (- (of_int r / 1000000000)) = Fin (- y)"
    using y' by (simp only: mkf_small abs_minus_cancel rnd_minus f64.inject)
  define z :: rat where "z = of_int q + y"
  have "(of_int q :: rat) \<le> of_int 9223372037" using q(2) by (subst of_int_le_iff) simp
  then have zs: "\<bar>z\<bar> \<le> 2 ^ 200" "\<bar>- z\<bar> \<le> 2 ^ 200" using q(1) y(2,3) by (simp_all add: z_def)
  have "seconds d = mkf z"
    using q b y(1) by (simp add: seconds_def qr f_of_int_exact z_def del: time_units)
  moreover have "seconds (- d) = mkf (- z)"
  proof -
    have "f_of_int (- q) = Fin (- of_int q)" "f_of_int (- r) = Fin (- of_int r)"
      using q b by (simp_all add: f_of_int_exact)
    then show ?thesis using ym by (simp add: seconds_def qr' rr' z_def del: time_units)
  qed
  ultimately have s: "seconds d = Fin (rnd z)" "seconds (- d) = Fin (- rnd z)"
    using zs by (simp_all add: mkf_small rnd_minus)
  have "0 \<le> z" using q(1) y(2) by (simp add: z_def)
  moreover have "2 powi (-30) \<le> rnd z" if "0 < d"
  proof -
    have "2 powi (-30) \<le> z"
    proof (cases "q > 0")
      case True
      then have "(1 :: rat) \<le> of_int q" by simp
      moreover have "(2 :: rat) powi (-30) \<le> 2 powi 0" by (rule powi_mono) simp
      ultimately show ?thesis using y(2) by (simp add: z_def)
    next
      case False
      with q y that show ?thesis by (simp add: z_def)
    qed
    then have "rnd (2 powi (-30)) \<le> rnd z" by (rule rnd_mono)
    then show ?thesis using rnd_exact[of 1 "-30"] by simp
  qed
  ultimately show ?thesis using s rnd_nonneg by blast
qed

lemma seconds_pos:
  assumes "0 < d" "d \<le> max_dur"
  shows "\<exists>x. seconds d = Fin x \<and> 0 < x"
proof -
  have "d \<le> 2 ^ 63" using assms(2) by (simp add: max_dur_def)
  then obtain x where "seconds d = Fin x" "2 powi (-30) \<le> x" using seconds_form[of d] assms(1) by auto
  moreover have "(0 :: rat) < 2 powi (-30)" by simp
  ultimately show ?thesis using order.strict_trans2 by blast
qed

text \<open>A difference of times in seconds is positive exactly when time has advanced.\<close>

lemma seconds_sub:
  "\<exists>x. seconds (t_sub t u) = Fin x \<and> (if t > u then 2 powi (-30) \<le> x else x \<le> 0)"
proof (cases "t > u")
  case True
  then have "0 < t_sub t u" "t_sub t u \<le> 2 ^ 63" using t_sub_le[of t u] by (simp_all add: t_sub_pos_iff max_dur_def)
  with True show ?thesis using seconds_form[of "t_sub t u"] by auto
next
  case False
  then have "0 \<le> - t_sub t u" "- t_sub t u \<le> 2 ^ 63"
    using t_sub_pos_iff[of t u] by (auto simp: t_sub_def min_dur_def max_dur_def)
  with False show ?thesis using seconds_form[of "- t_sub t u"] by auto
qed

lemma seconds_whole: "0 \<le> k \<Longrightarrow> k < 2 ^ 53 \<Longrightarrow> seconds (k * Second) = Fin (of_int k)"
proof -
  assume k: "0 \<le> k" "k < 2 ^ 53"
  then have qr: "quot (k * Second) Second = k" "rem (k * Second) Second = 0"
    by (auto simp: quot_def rem_def abs_mult sgn_if)
  have "f_of_int 0 = Fin 0" "f_of_int k = Fin (of_int k)" using k by (simp_all add: f_of_int_exact)
  moreover have "mkf 0 = Fin 0" "mkf (of_int k) = Fin (of_int k)" using mkf_int[of 0] mkf_int[of k] k by simp_all
  ultimately show ?thesis unfolding seconds_def qr by simp
qed

lemma seconds_0 [simp]: "seconds 0 = Fin 0"
  by (simp add: seconds_def quot_def rem_def f_of_int_exact mkf_small)

text \<open>Below 2^23 seconds the truncated float of a duration is its whole seconds.\<close>

lemma powi_m30: "(2 :: rat) powi (-30) = 1 / 1073741824"
  by (simp add: power_int_def power_divide)

lemma rnd_below_next:
  assumes "0 \<le> (q :: int)" "q < 2 ^ 23" "0 \<le> y" "y \<le> 1 - 2 powi (-30)"
  shows "\<lfloor>rnd (of_int q + y)\<rfloor> = q"
proof -
  have "of_int q + y \<le> of_int ((q + 1) * 2 ^ 30 - 1) * 2 powi (-30)"
    using assms(4) by (simp add: powi_m30 field_simps)
  then have "rnd (of_int q + y) \<le> rnd (of_int ((q + 1) * 2 ^ 30 - 1) * 2 powi (-30))" by (rule rnd_mono)
  also have "\<dots> = of_int ((q + 1) * 2 ^ 30 - 1) * 2 powi (-30)"
    using assms(1,2) by (intro rnd_exact) auto
  also have "\<dots> < of_int (q + 1)" by (simp add: powi_m30)
  finally have "rnd (of_int q + y) < of_int (q + 1)" .
  moreover have "of_int q \<le> rnd (of_int q + y)"
    using assms by (intro rnd_ge_int) auto
  ultimately show ?thesis by (simp add: floor_eq_iff)
qed

lemma f_trunc_seconds:
  assumes "0 \<le> d" "d < 2 ^ 23 * Second"
  shows "f_trunc (seconds d) = d div Second"
proof -
  define q r where "q = d div 1000000000" and "r = d mod 1000000000"
  have b: "0 \<le> r" "r < 1000000000" by (simp_all add: r_def)
  have q: "0 \<le> q" "q < 2 ^ 23" using assms by (simp_all add: q_def)
  have qr: "quot d Second = q" "rem d Second = r"
    using assms by (auto simp: quot_def rem_def q_def r_def minus_div_mult_eq_mod sgn_if)
  define x :: rat where "x = of_int r / 1000000000"
  have x: "0 \<le> x" "x \<le> 999999999 / 1000000000" using b by (simp_all add: x_def divide_right_mono)
  have "rnd x \<le> rnd (of_int (2 ^ 30 - 1) * 2 powi (-30))"
    using x by (intro rnd_mono) (simp add: powi_m30 field_simps)
  also have "\<dots> = of_int (2 ^ 30 - 1) * 2 powi (-30)" by (rule rnd_exact) auto
  finally have y: "rnd x \<le> 1 - 2 powi (-30)" by (simp add: powi_m30)
  have y0: "0 \<le> rnd x" using x by (intro rnd_nonneg)
  have "\<bar>x\<bar> \<le> 2 ^ 200" using x by simp
  then have fr: "Fin (of_int r) / Fin 1000000000 = Fin (rnd x)" by (simp add: x_def mkf_small)
  have "(of_int q :: rat) \<le> of_int (2 ^ 23)" using q(2) by (subst of_int_le_iff) simp
  then have "\<bar>of_int q + rnd x\<bar> \<le> 2 ^ 200"
    using q(1) y y0 powi_pos[of "-30"] by (simp del: powi_pos)
  then have "seconds d = Fin (rnd (of_int q + rnd x))"
    using q b fr by (simp add: seconds_def qr f_of_int_exact mkf_small del: time_units)
  moreover have "\<lfloor>rnd (of_int q + rnd x)\<rfloor> = q" using q y y0 by (intro rnd_below_next)
  moreover have "0 \<le> rnd (of_int q + rnd x)" using q y0 by (intro rnd_nonneg) simp
  ultimately show ?thesis by (simp add: q_def)
qed

end
