(* ===== verification/GoStrings.thy ===== *)
theory GoStrings
  imports Prelude
begin

text \<open>
  Go strings are byte sequences: \<open>string\<close> is a list of 8-bit characters. This theory holds
  the functions of packages \<open>strings\<close>, \<open>strconv\<close>, \<open>encoding/hex\<close> and \<open>path/filepath\<close> that the code calls.
  White space is Unicode's, recognised by its UTF-8 bytes (no space rune's encoding can
  start inside another rune). Case folding is that of ASCII; the modelled inputs that are
  folded (socket states, sensor labels, modes, user names) are ASCII.
\<close>

section \<open>Prefixes, searching, splitting\<close>

definition has_prefix :: "string \<Rightarrow> string \<Rightarrow> bool" where
  "has_prefix s p = (take (length p) s = p)"

definition trim_prefix :: "string \<Rightarrow> string \<Rightarrow> string" where
  "trim_prefix s p = (if has_prefix s p then drop (length p) s else s)"

fun contains :: "string \<Rightarrow> string \<Rightarrow> bool" where
  "contains [] sub = (sub = [])"
| "contains (c # cs) sub = (has_prefix (c # cs) sub \<or> contains cs sub)"

text \<open>\<open>strings.Split(s, sep)\<close> for a one-byte separator.\<close>

fun split_on :: "char \<Rightarrow> string \<Rightarrow> string list" where
  "split_on sep [] = [[]]"
| "split_on sep (c # cs) =
     (if c = sep then [] # split_on sep cs
      else case split_on sep cs of [] \<Rightarrow> [[c]] | w # ws \<Rightarrow> (c # w) # ws)"

text \<open>\<open>strings.SplitN(s, sep, 2)\<close>: \<open>None\<close> when the separator does not occur (one part).\<close>

fun split2 :: "string \<Rightarrow> string \<Rightarrow> (string \<times> string) option" where
  "split2 sep [] = None"
| "split2 sep (c # cs) =
     (if has_prefix (c # cs) sep then Some ([], drop (length sep) (c # cs))
      else map_option (\<lambda>(a, b). (c # a, b)) (split2 sep cs))"

section \<open>White space\<close>

definition ascii_space :: "char \<Rightarrow> bool" where
  "ascii_space c = (let n = of_char c :: nat in n = 32 \<or> (9 \<le> n \<and> n \<le> 13))"

text \<open>The number of bytes of the space rune a string starts with, 0 if there is none.\<close>

fun space_len :: "nat list \<Rightarrow> nat" where
  "space_len (a # b # c # _) =
     (if a = 32 \<or> (9 \<le> a \<and> a \<le> 13) then 1
      else if a = 194 \<and> (b = 133 \<or> b = 160) then 2
      else if (a = 225 \<and> b = 154 \<and> c = 128)
           \<or> (a = 226 \<and> b = 128 \<and> ((128 \<le> c \<and> c \<le> 138) \<or> c = 168 \<or> c = 169 \<or> c = 175))
           \<or> (a = 226 \<and> b = 129 \<and> c = 159) \<or> (a = 227 \<and> b = 128 \<and> c = 128) then 3
      else 0)"
| "space_len [a, b] =
     (if a = 32 \<or> (9 \<le> a \<and> a \<le> 13) then 1
      else if a = 194 \<and> (b = 133 \<or> b = 160) then 2 else 0)"
| "space_len [a] = (if a = 32 \<or> (9 \<le> a \<and> a \<le> 13) then 1 else 0)"
| "space_len [] = 0"

definition space_prefix :: "string \<Rightarrow> nat" where
  "space_prefix s = space_len (map of_char (take 3 s))"

function fields_from :: "string \<Rightarrow> string \<Rightarrow> string list" where
  "fields_from w [] = (if w = [] then [] else [w])"
| "fields_from w (c # cs) =
     (let k = space_prefix (c # cs) in
      if k = 0 then fields_from (w @ [c]) cs
      else (if w = [] then [] else [w]) @ fields_from [] (drop (k - 1) cs))"
  by pat_completeness auto
termination by (relation "measure (\<lambda>(w, s). length s)") auto

definition Fields :: "string \<Rightarrow> string list" where
  "Fields s = fields_from [] s"

function trim_left :: "string \<Rightarrow> string" where
  "trim_left [] = []"
| "trim_left (c # cs) =
     (let k = space_prefix (c # cs) in if k = 0 then c # cs else trim_left (drop (k - 1) cs))"
  by pat_completeness auto
termination by (relation "measure length") auto

text \<open>The length of the space rune a string ends with, from its reversed bytes.\<close>

definition space_suffix :: "string \<Rightarrow> nat" where
  "space_suffix r =
     (if space_prefix (take 1 r) = 1 then 1
      else if space_prefix (rev (take 2 r)) = 2 then 2
      else if space_prefix (rev (take 3 r)) = 3 then 3 else 0)"

function trim_right_rev :: "string \<Rightarrow> string" where
  "trim_right_rev [] = []"
| "trim_right_rev (c # cs) =
     (let k = space_suffix (c # cs) in if k = 0 then c # cs else trim_right_rev (drop (k - 1) cs))"
  by pat_completeness auto
termination by (relation "measure length") auto

definition TrimSpace :: "string \<Rightarrow> string" where
  "TrimSpace s = rev (trim_right_rev (rev (trim_left s)))"

section \<open>Letter case\<close>

definition lower_char :: "char \<Rightarrow> char" where
  "lower_char c = (let n = of_char c :: nat in if 65 \<le> n \<and> n \<le> 90 then char_of (n + 32) else c)"

definition upper_char :: "char \<Rightarrow> char" where
  "upper_char c = (let n = of_char c :: nat in if 97 \<le> n \<and> n \<le> 122 then char_of (n - 32) else c)"

definition ToLower :: "string \<Rightarrow> string" where "ToLower s = map lower_char s"
definition ToUpper :: "string \<Rightarrow> string" where "ToUpper s = map upper_char s"

section \<open>Numbers\<close>

datatype num_err = ErrSyntax | ErrRange

definition digit_val :: "char \<Rightarrow> nat option" where
  "digit_val c = (let n = of_char c :: nat in
     if 48 \<le> n \<and> n \<le> 57 then Some (n - 48)
     else if 97 \<le> n \<and> n \<le> 122 then Some (n - 87)
     else if 65 \<le> n \<and> n \<le> 90 then Some (n - 55) else None)"

text \<open>
  \<open>strconv.ParseUint(s, base, bits)\<close> for an explicit base: the value and the error. On a
  range error the value is the largest of the type, on a syntax error it is 0, and the first
  error met from the left decides.
\<close>

fun parse_digits :: "nat \<Rightarrow> nat \<Rightarrow> nat \<Rightarrow> string \<Rightarrow> nat \<times> num_err option" where
  "parse_digits base mx n [] = (n, None)"
| "parse_digits base mx n (c # cs) =
     (case digit_val c of
        None \<Rightarrow> (0, Some ErrSyntax)
      | Some d \<Rightarrow>
          if d \<ge> base then (0, Some ErrSyntax)
          else if n * base + d > mx then (mx, Some ErrRange)
          else parse_digits base mx (n * base + d) cs)"

definition ParseUint :: "string \<Rightarrow> nat \<Rightarrow> nat \<Rightarrow> nat \<times> num_err option" where
  "ParseUint s base bits = (if s = [] then (0, Some ErrSyntax) else parse_digits base (2 ^ bits - 1) 0 s)"

text \<open>\<open>strconv.ParseInt(s, 10, 64)\<close>, which is also \<open>strconv.Atoi\<close> on a 64-bit platform.\<close>

definition ParseInt64 :: "string \<Rightarrow> int \<times> num_err option" where
  "ParseInt64 s =
     (if s = [] then (0, Some ErrSyntax)
      else let neg = (hd s = CHR ''-'');
               ds = (if hd s = CHR ''-'' \<or> hd s = CHR ''+'' then tl s else s);
               (un, err) = ParseUint ds 10 64
           in if err = Some ErrSyntax then (0, err)
              else if \<not> neg \<and> un \<ge> 2 ^ 63 then (2 ^ 63 - 1, Some ErrRange)
              else if neg \<and> un > 2 ^ 63 then (- (2 ^ 63), Some ErrRange)
              else (if neg then - int un else int un, None))"

abbreviation Atoi :: "string \<Rightarrow> int \<times> num_err option" where
  "Atoi \<equiv> ParseInt64"

text \<open>\<open>v, _ := strconv.ParseUint(s, 10, 64)\<close>: the value, the error dropped.\<close>

definition uint_of :: "string \<Rightarrow> u64" where
  "uint_of s = of_nat (fst (ParseUint s 10 64))"

fun nat_digits :: "nat \<Rightarrow> string" where
  "nat_digits n = (if n < 10 then [char_of (48 + n)] else nat_digits (n div 10) @ [char_of (48 + n mod 10)])"

declare nat_digits.simps [simp del]

definition Itoa :: "int \<Rightarrow> string" where
  "Itoa n = (if n < 0 then CHR ''-'' # nat_digits (nat (- n)) else nat_digits (nat n))"

definition hex_digit :: "nat \<Rightarrow> char" where
  "hex_digit d = (if d < 10 then char_of (48 + d) else char_of (87 + d))"

text \<open>\<open>hex.EncodeToString\<close> and \<open>hex.DecodeString\<close> (\<open>None\<close>: its error).\<close>

fun hex_encode :: "nat list \<Rightarrow> string" where
  "hex_encode [] = []"
| "hex_encode (b # bs) = hex_digit (b div 16) # hex_digit (b mod 16) # hex_encode bs"

definition hex_val :: "char \<Rightarrow> nat option" where
  "hex_val c = (case digit_val c of Some d \<Rightarrow> if d < 16 then Some d else None | None \<Rightarrow> None)"

fun hex_decode :: "string \<Rightarrow> nat list option" where
  "hex_decode [] = Some []"
| "hex_decode [c] = None"
| "hex_decode (c # d # cs) =
     (case (hex_val c, hex_val d, hex_decode cs) of
        (Some a, Some b, Some bs) \<Rightarrow> Some ((16 * a + b) # bs)
      | _ \<Rightarrow> None)"

section \<open>Facts\<close>

lemma has_prefix_append [simp]: "has_prefix (p @ s) p"
  by (simp add: has_prefix_def)

lemma has_prefix_Nil [simp]: "has_prefix s []"
  by (simp add: has_prefix_def)

lemma has_prefix_iff: "has_prefix s p \<longleftrightarrow> (\<exists>t. s = p @ t)"
  by (auto simp: has_prefix_def) (metis append_take_drop_id)

lemma contains_iff: "contains s sub \<longleftrightarrow> (\<exists>a b. s = a @ sub @ b)"
proof (induction s)
  case (Cons c cs)
  have "(\<exists>a b. c # cs = a @ sub @ b) \<longleftrightarrow> has_prefix (c # cs) sub \<or> (\<exists>a b. cs = a @ sub @ b)"
    by (auto simp: has_prefix_iff Cons_eq_append_conv)
  with Cons show ?case by simp
qed simp

lemma split_on_nonempty [simp]: "split_on sep s \<noteq> []"
  by (induction s) (auto split: list.splits)

lemma split_on_no_sep: "w \<in> set (split_on sep s) \<Longrightarrow> sep \<notin> set w"
  by (induction s arbitrary: w) (auto split: list.splits if_splits)

lemma split2_sound: "split2 sep s = Some (a, b) \<Longrightarrow> sep \<noteq> [] \<Longrightarrow> s = a @ sep @ b"
proof (induction s arbitrary: a)
  case (Cons c cs)
  then show ?case
    by (auto simp: has_prefix_iff split: if_splits)
qed simp

lemma length_ToLower [simp]: "length (ToLower s) = length s"
  by (simp add: ToLower_def)

lemma lower_char_idem [simp]: "lower_char (lower_char c) = lower_char c"
  by (auto simp: lower_char_def Let_def of_char_of)

lemma ToLower_idem [simp]: "ToLower (ToLower s) = ToLower s"
  by (simp add: ToLower_def)

lemma hex_val_digit [simp]: "d < 16 \<Longrightarrow> hex_val (hex_digit d) = Some d"
  by (simp add: hex_val_def hex_digit_def digit_val_def of_char_of Let_def)

lemma hex_decode_encode: "\<forall>b \<in> set bs. b < 256 \<Longrightarrow> hex_decode (hex_encode bs) = Some bs"
proof (induction bs)
  case (Cons b bs)
  then have "b div 16 < 16" by auto
  with Cons show ?case by simp
qed simp

lemma length_hex_encode [simp]: "length (hex_encode bs) = 2 * length bs"
  by (induction bs) auto

lemma hex_encode_inj:
  "\<forall>b \<in> set xs. b < 256 \<Longrightarrow> \<forall>b \<in> set ys. b < 256 \<Longrightarrow> hex_encode xs = hex_encode ys \<Longrightarrow> xs = ys"
  by (metis hex_decode_encode option.inject)

lemma digit_val_char [simp]: "d < 10 \<Longrightarrow> digit_val (char_of (48 + d)) = Some d"
  by (simp add: digit_val_def of_char_of Let_def)

lemma parse_digits_append:
  "parse_digits base mx n (s @ t) =
     (case parse_digits base mx n s of (m, None) \<Rightarrow> parse_digits base mx m t | r \<Rightarrow> r)"
  by (induction s arbitrary: n) (auto split: option.splits)

lemma parse_nat_digits: "n \<le> mx \<Longrightarrow> parse_digits 10 mx 0 (nat_digits n) = (n, None)"
proof (induction n rule: nat_digits.induct)
  case (1 n)
  then show ?case
    by (cases "n < 10") (auto simp: nat_digits.simps[of n] parse_digits_append)
qed

lemma nat_digits_not_Nil [simp]: "nat_digits n \<noteq> []"
  by (subst nat_digits.simps) simp

lemma hd_nat_digits: "\<exists>d < (10::nat). hd (nat_digits n) = char_of (48 + d)"
proof (induction n rule: nat_digits.induct)
  case (1 n)
  then show ?case by (cases "n < 10") (auto simp: nat_digits.simps[of n])
qed

lemma hd_nat_digits_sign: "hd (nat_digits n) \<noteq> CHR ''-''" "hd (nat_digits n) \<noteq> CHR ''+''"
proof -
  obtain d :: nat where d: "d < 10" "hd (nat_digits n) = char_of (48 + d)" using hd_nat_digits by blast
  then have "digit_val (hd (nat_digits n)) = Some d" by simp
  moreover have "digit_val CHR ''-'' = None" "digit_val CHR ''+'' = None"
    by (simp_all add: digit_val_def)
  ultimately show "hd (nat_digits n) \<noteq> CHR ''-''" "hd (nat_digits n) \<noteq> CHR ''+''" by auto
qed

text \<open>Printing a 64-bit integer and parsing it back.\<close>

lemma Atoi_Itoa: "- (2 ^ 63) \<le> n \<Longrightarrow> n < 2 ^ 63 \<Longrightarrow> Atoi (Itoa n) = (n, None)"
proof -
  assume b: "- (2 ^ 63) \<le> n" "n < 2 ^ 63"
  show ?thesis
  proof (cases "n < 0")
    case True
    with b show ?thesis
      by (simp add: Itoa_def ParseInt64_def ParseUint_def parse_nat_digits)
  next
    case False
    with b hd_nat_digits_sign[of "nat n"] show ?thesis
      by (auto simp: Itoa_def ParseInt64_def ParseUint_def parse_nat_digits)
  qed
qed

lemma Itoa_inj:
  "- (2 ^ 63) \<le> m \<Longrightarrow> m < 2 ^ 63 \<Longrightarrow> - (2 ^ 63) \<le> n \<Longrightarrow> n < 2 ^ 63 \<Longrightarrow> Itoa m = Itoa n \<Longrightarrow> m = n"
  by (metis Atoi_Itoa prod.inject)


section \<open>Lines of a file\<close>

text \<open>
  \<open>bufio.Scanner\<close> with \<open>ScanLines\<close>: lines end at a newline, a final line without one counts when it is
  not empty, a carriage return before the newline is dropped, and the scan stops at the first line
  that does not fit the buffer of \<open>mx\<close> bytes.
\<close>

abbreviation newline :: char where "newline \<equiv> CHR 0x0A"

fun lines_acc :: "string \<Rightarrow> string \<Rightarrow> string list" where
  "lines_acc cur [] = (if cur = [] then [] else [rev cur])"
| "lines_acc cur (c # cs) = (if c = newline then rev cur # lines_acc [] cs else lines_acc (c # cur) cs)"

definition drop_cr :: "string \<Rightarrow> string" where
  "drop_cr l = (if l \<noteq> [] \<and> last l = CHR 0x0D then butlast l else l)"

definition scan_lines :: "nat \<Rightarrow> string \<Rightarrow> string list" where
  "scan_lines mx s = map drop_cr (takeWhile (\<lambda>l. length l < mx) (lines_acc [] s))"

definition default_scan :: nat where "default_scan = 64 * 1024"

lemma lines_acc_line:
  "newline \<notin> set l \<Longrightarrow> lines_acc cur (l @ newline # s) = (rev cur @ l) # lines_acc [] s"
  by (induction l arbitrary: cur) auto

lemma lines_acc_concat:
  "\<forall>l \<in> set ls. newline \<notin> set l \<Longrightarrow> lines_acc [] (concat (map (\<lambda>l. l @ [newline]) ls)) = ls"
  by (induction ls) (auto simp: lines_acc_line)

lemma scan_lines_concat:
  assumes "\<forall>l \<in> set ls. newline \<notin> set l \<and> CHR 0x0D \<notin> set l \<and> length l < mx"
  shows "scan_lines mx (concat (map (\<lambda>l. l @ [newline]) ls)) = ls"
proof -
  have tw: "takeWhile (\<lambda>l. length l < mx) ls = ls" using assms by (simp add: takeWhile_eq_all_conv)
  have cr: "map drop_cr ls = ls"
    using assms by (intro map_idI) (metis drop_cr_def last_in_set)
  have "lines_acc [] (concat (map (\<lambda>l. l @ [newline]) ls)) = ls"
    using assms by (intro lines_acc_concat) blast
  then show ?thesis by (simp only: scan_lines_def tw cr)
qed

section \<open>Paths\<close>

text \<open>\<open>filepath.Clean\<close>: the elements without empty ones and dots, each \<open>..\<close> with the element before it removed.\<close>

definition clean_step :: "bool \<Rightarrow> string list \<Rightarrow> string \<Rightarrow> string list" where
  "clean_step rooted st seg =
     (if seg = ''..''
      then (if st \<noteq> [] \<and> last st \<noteq> ''..'' then butlast st else if rooted then st else st @ [seg])
      else st @ [seg])"

definition path_clean :: "string \<Rightarrow> string" where
  "path_clean p =
     (let rooted = has_prefix p ''/'';
          st = foldl (clean_step rooted) [] (filter (\<lambda>x. x \<noteq> [] \<and> x \<noteq> ''.'') (split_on CHR ''/'' p));
          body = concat (map (\<lambda>x. CHR ''/'' # x) st)
      in if rooted then (if st = [] then ''/'' else body) else if st = [] then ''.'' else tl body)"

fun slash_join :: "string list \<Rightarrow> string" where
  "slash_join [] = []"
| "slash_join [x] = x"
| "slash_join (x # xs) = x @ CHR ''/'' # slash_join xs"

text \<open>\<open>filepath.Join\<close>.\<close>

definition path_join :: "string list \<Rightarrow> string" where
  "path_join xs = (let ys = dropWhile (\<lambda>x. x = []) xs in if ys = [] then [] else path_clean (slash_join ys))"

lemma path_join_examples:
  "path_join [''/hostfs'', ''/''] = ''/hostfs''" "path_join [''/hostfs'', ''/mnt/data''] = ''/hostfs/mnt/data''"
  "path_join [[], ''a/./b'', ''../../c/''] = ''c''" "path_join [''/..'', ''x''] = ''/x''"
  by code_simp+

end
