(* ===== verification/Users.thy ===== *)
theory Users
  imports GoTime GoCrypto "HOL-Library.List_Lexorder" "HOL-Library.Char_ord"
begin

text \<open>
  Package \<open>users\<close> (internal/users/store.go): accounts and login sessions in two SQL tables.
  A table is the list of its rows; each SQL statement of the source is the operation it
  denotes on the rows (columns, WHERE clause, NOCASE uniqueness, AUTOINCREMENT, ON DELETE
  CASCADE). The pool has one connection, so statements and transactions run one at a time.
  Any statement may fail in the driver: \<open>faults\<close> says which ones do in a call, and a
  failed transaction leaves the tables as they were. bcrypt is a parameter.
\<close>

section \<open>Data\<close>

type_synonym role = string

definition RoleAdmin :: role where "RoleAdmin = ''admin''"
definition RoleViewer :: role where "RoleViewer = ''viewer''"

definition Valid :: "role \<Rightarrow> bool" where
  "Valid r = (r = RoleAdmin \<or> r = RoleViewer)"

record user =
  u_id :: int
  u_name :: string
  u_role :: role
  u_active :: bool
  u_created :: time

record user_row = user +
  password_hash :: string

record session_row =
  token_hash :: string
  user_id :: int
  expires_at :: int

record store =
  users :: "user_row list"
  sessions :: "session_row list"
  next_id :: int

datatype store_err =
  ErrNotFound | ErrUsernameTaken | ErrLastAdmin | ErrBadUsername | ErrBadPassword | ErrBadRole | ErrDB

datatype db_op =
  DbBegin | DbCommit | DbCount | DbList | DbQueryUser | DbQueryName | DbQueryAdmins | DbInsert
| DbUpdateRow | DbUpdateHash | DbDeleteSessions | DbDeleteUser | DbQueryAuth | DbQueryHash
| DbInsertSession | DbQuerySession | DbDeleteSession | DbPurge | BcryptGen | RandRead

text \<open>What one call reads from outside: the clock, the bcrypt salt, 32 random bytes, the faults.\<close>

record env =
  now :: time
  salt :: string
  rand :: bytes
  faults :: "db_op \<Rightarrow> bool"

record bcrypt =
  bgen :: "string \<Rightarrow> string \<Rightarrow> string"
  bcmp :: "string \<Rightarrow> string \<Rightarrow> bool"

text \<open>The documented contract of bcrypt on passwords of at most 72 bytes.\<close>

definition bcrypt_ok :: "bcrypt \<Rightarrow> bool" where
  "bcrypt_ok bc \<longleftrightarrow> (\<forall>st p q. length p \<le> 72 \<longrightarrow> length q \<le> 72 \<longrightarrow> bcmp bc (bgen bc st p) q = (p = q))"

record upd =
  upd_role :: "role option"
  upd_active :: "bool option"
  upd_password :: "string option"

section \<open>Helpers\<close>

definition name_char :: "char \<Rightarrow> bool" where
  "name_char c = (let n = of_char c :: nat in
     (65 \<le> n \<and> n \<le> 90) \<or> (97 \<le> n \<and> n \<le> 122) \<or> (48 \<le> n \<and> n \<le> 57) \<or> c \<in> {CHR ''.'', CHR ''_'', CHR ''-''})"

definition usernameRe :: "string \<Rightarrow> bool" where
  "usernameRe s = (3 \<le> length s \<and> length s \<le> 32 \<and> list_all name_char s)"

text \<open>SQLite's NOCASE collation: equality up to ASCII letter case.\<close>

definition nocase_eq :: "string \<Rightarrow> string \<Rightarrow> bool" where
  "nocase_eq a b = (ToLower a = ToLower b)"

definition scanUser :: "user_row \<Rightarrow> user" where
  "scanUser r = user.truncate r"

definition HashToken :: "string \<Rightarrow> string" where
  "HashToken token = hex_encode (sha256 (bytes_of token))"

definition hashPassword :: "bcrypt \<Rightarrow> env \<Rightarrow> string \<Rightarrow> store_err + string" where
  "hashPassword bc e pw =
     (if length pw < 8 \<or> length pw > 72 then Inl ErrBadPassword
      else if faults e BcryptGen then Inl ErrDB else Inr (bgen bc (salt e) pw))"

definition is_active_admin :: "user_row \<Rightarrow> bool" where
  "is_active_admin r = (u_role r = RoleAdmin \<and> u_active r)"

definition ensureOtherAdmin :: "env \<Rightarrow> store \<Rightarrow> int \<Rightarrow> store_err option" where
  "ensureOtherAdmin e s exceptID =
     (if faults e DbQueryAdmins then Some ErrDB
      else if length (filter (\<lambda>r. is_active_admin r \<and> u_id r \<noteq> exceptID) (users s)) = 0
      then Some ErrLastAdmin else None)"

text \<open>SELECT ... FROM users WHERE id = ?\<close>

definition find_row :: "store \<Rightarrow> int \<Rightarrow> user_row option" where
  "find_row s uid = find (\<lambda>r. u_id r = uid) (users s)"

definition query_user :: "env \<Rightarrow> store \<Rightarrow> int \<Rightarrow> store_err + user_row" where
  "query_user e s uid =
     (if faults e DbQueryUser then Inl ErrDB
      else case find_row s uid of None \<Rightarrow> Inl ErrNotFound | Some r \<Rightarrow> Inr r)"

text \<open>UPDATE users SET ... WHERE id = ?, DELETE FROM users (sessions cascade).\<close>

definition update_rows :: "int \<Rightarrow> (user_row \<Rightarrow> user_row) \<Rightarrow> store \<Rightarrow> store" where
  "update_rows uid f s = s\<lparr>users := map_if (\<lambda>r. u_id r = uid) f (users s)\<rparr>"

definition delete_user_row :: "int \<Rightarrow> store \<Rightarrow> store" where
  "delete_user_row uid s =
     s\<lparr>users := filter (\<lambda>r. u_id r \<noteq> uid) (users s),
       sessions := filter (\<lambda>t. user_id t \<noteq> uid) (sessions s)\<rparr>"

definition delete_sessions_of :: "int \<Rightarrow> string \<Rightarrow> store \<Rightarrow> store" where
  "delete_sessions_of uid keep s =
     s\<lparr>sessions := filter (\<lambda>t. \<not> (user_id t = uid \<and> token_hash t \<noteq> keep)) (sessions s)\<rparr>"

section \<open>Accounts\<close>

definition empty_store :: store where
  "empty_store = \<lparr>users = [], sessions = [], next_id = 1\<rparr>"

definition Count :: "env \<Rightarrow> store \<Rightarrow> store_err + nat" where
  "Count e s = (if faults e DbCount then Inl ErrDB else Inr (length (users s)))"

definition List_users :: "env \<Rightarrow> store \<Rightarrow> store_err + user list" where
  "List_users e s =
     (if faults e DbList then Inl ErrDB
      else Inr (map scanUser (sort_key (\<lambda>r. ToLower (u_name r)) (users s))))"

definition Get :: "env \<Rightarrow> store \<Rightarrow> int \<Rightarrow> store_err + user" where
  "Get e s uid = (case query_user e s uid of Inl er \<Rightarrow> Inl er | Inr r \<Rightarrow> Inr (scanUser r))"

definition Create :: "bcrypt \<Rightarrow> env \<Rightarrow> store \<Rightarrow> string \<Rightarrow> string \<Rightarrow> role \<Rightarrow> (store_err + user) \<times> store" where
  "Create bc e s username password role =
     (if \<not> usernameRe username then (Inl ErrBadUsername, s)
      else if \<not> Valid role then (Inl ErrBadRole, s)
      else case hashPassword bc e password of
        Inl er \<Rightarrow> (Inl er, s)
      | Inr hash \<Rightarrow>
          if faults e DbBegin then (Inl ErrDB, s)
          else if faults e DbQueryName then (Inl ErrDB, s)
          else if length (filter (\<lambda>r. nocase_eq (u_name r) username) (users s)) > 0
          then (Inl ErrUsernameTaken, s)
          else if faults e DbInsert then (Inl ErrDB, s)
          else let created = t_of_unix (t_unix (now e));
                   row = \<lparr>u_id = next_id s, u_name = username, u_role = role, u_active = True,
                          u_created = created, password_hash = hash\<rparr>
               in if faults e DbCommit then (Inl ErrDB, s)
                  else (Inr (scanUser row), s\<lparr>users := users s @ [row], next_id := next_id s + 1\<rparr>))"

definition Update :: "bcrypt \<Rightarrow> env \<Rightarrow> store \<Rightarrow> int \<Rightarrow> upd \<Rightarrow> string \<Rightarrow> (store_err + user) \<times> store" where
  "Update bc e s uid upd keepSession =
     (if (case upd_role upd of Some r \<Rightarrow> \<not> Valid r | None \<Rightarrow> False) then (Inl ErrBadRole, s)
      else case (case upd_password upd of None \<Rightarrow> Inr [] | Some pw \<Rightarrow> hashPassword bc e pw) of
        Inl er \<Rightarrow> (Inl er, s)
      | Inr hash \<Rightarrow>
        if faults e DbBegin then (Inl ErrDB, s)
        else case query_user e s uid of
          Inl er \<Rightarrow> (Inl er, s)
        | Inr row \<Rightarrow>
          let cur = scanUser row;
              nrole = (case upd_role upd of Some r \<Rightarrow> r | None \<Rightarrow> u_role cur);
              nactive = (case upd_active upd of Some a \<Rightarrow> a | None \<Rightarrow> u_active cur);
              next = cur\<lparr>u_role := nrole, u_active := nactive\<rparr>;
              losesAdmin = (u_role cur = RoleAdmin \<and> u_active cur \<and> (nrole \<noteq> RoleAdmin \<or> \<not> nactive))
          in case (if losesAdmin then ensureOtherAdmin e s uid else None) of
               Some er \<Rightarrow> (Inl er, s)
             | None \<Rightarrow>
               if faults e DbUpdateRow then (Inl ErrDB, s)
               else let s1 = update_rows uid (\<lambda>r. r\<lparr>u_role := nrole, u_active := nactive\<rparr>) s
               in if upd_password upd \<noteq> None \<and> faults e DbUpdateHash then (Inl ErrDB, s)
               else let s2 = (if upd_password upd \<noteq> None
                              then update_rows uid (\<lambda>r. r\<lparr>password_hash := hash\<rparr>) s1 else s1);
                        revoke = (upd_password upd \<noteq> None \<or> \<not> nactive)
               in if revoke \<and> faults e DbDeleteSessions then (Inl ErrDB, s)
               else let s3 = (if revoke then delete_sessions_of uid keepSession s2 else s2)
               in if faults e DbCommit then (Inl ErrDB, s) else (Inr next, s3))"

definition Delete :: "env \<Rightarrow> store \<Rightarrow> int \<Rightarrow> store_err option \<times> store" where
  "Delete e s uid =
     (if faults e DbBegin then (Some ErrDB, s)
      else case query_user e s uid of
        Inl er \<Rightarrow> (Some er, s)
      | Inr cur \<Rightarrow>
        case (if u_role cur = RoleAdmin \<and> u_active cur then ensureOtherAdmin e s uid else None) of
          Some er \<Rightarrow> (Some er, s)
        | None \<Rightarrow>
          if faults e DbDeleteUser then (Some ErrDB, s)
          else if faults e DbCommit then (Some ErrDB, s)
          else (None, delete_user_row uid s))"

text \<open>
  \<open>Authenticate\<close> also runs a bcrypt comparison for unknown users; its result is dropped and
  only its duration matters, which the model does not measure.
\<close>

definition Authenticate :: "bcrypt \<Rightarrow> env \<Rightarrow> store \<Rightarrow> string \<Rightarrow> string \<Rightarrow> user option" where
  "Authenticate bc e s username password =
     (if faults e DbQueryAuth then None
      else case find (\<lambda>r. nocase_eq (u_name r) username) (users s) of
        None \<Rightarrow> None
      | Some r \<Rightarrow>
          if \<not> u_active r then None
          else if bcmp bc (password_hash r) password then Some (scanUser r) else None)"

definition VerifyPassword :: "bcrypt \<Rightarrow> env \<Rightarrow> store \<Rightarrow> int \<Rightarrow> string \<Rightarrow> bool" where
  "VerifyPassword bc e s uid password =
     (if faults e DbQueryHash then False
      else case find_row s uid of None \<Rightarrow> False | Some r \<Rightarrow> bcmp bc (password_hash r) password)"

section \<open>Sessions\<close>

definition CreateSession :: "env \<Rightarrow> store \<Rightarrow> int \<Rightarrow> duration \<Rightarrow> (store_err + string \<times> time) \<times> store" where
  "CreateSession e s userID ttl =
     (if faults e RandRead then (Inl ErrDB, s)
      else let token = b64_encode (rand e); expires = now e + ttl; h = HashToken token
           in if faults e DbInsertSession \<or> find_row s userID = None
                 \<or> (\<exists>t \<in> set (sessions s). token_hash t = h)
              then (Inl ErrDB, s)
              else (Inr (token, expires),
                    s\<lparr>sessions := sessions s @ [\<lparr>token_hash = h, user_id = userID, expires_at = t_unix expires\<rparr>]\<rparr>))"

definition SessionUser :: "env \<Rightarrow> store \<Rightarrow> string \<Rightarrow> user option" where
  "SessionUser e s tokenHash =
     (if faults e DbQuerySession then None
      else case find (\<lambda>t. token_hash t = tokenHash \<and> expires_at t > t_unix (now e)
                        \<and> (case find_row s (user_id t) of Some r \<Rightarrow> u_active r | None \<Rightarrow> False)) (sessions s) of
        None \<Rightarrow> None
      | Some t \<Rightarrow> map_option scanUser (find_row s (user_id t)))"

definition DeleteSession :: "env \<Rightarrow> store \<Rightarrow> string \<Rightarrow> store_err option \<times> store" where
  "DeleteSession e s tokenHash =
     (if faults e DbDeleteSession then (Some ErrDB, s)
      else (None, s\<lparr>sessions := filter (\<lambda>t. token_hash t \<noteq> tokenHash) (sessions s)\<rparr>))"

definition PurgeExpiredSessions :: "env \<Rightarrow> store \<Rightarrow> store_err option \<times> store" where
  "PurgeExpiredSessions e s =
     (if faults e DbPurge then (Some ErrDB, s)
      else (None, s\<lparr>sessions := filter (\<lambda>t. \<not> expires_at t \<le> t_unix (now e)) (sessions s)\<rparr>))"


section \<open>Outcomes of the operations\<close>

text \<open>The row an update leaves, given the new hash.\<close>

definition upd_row :: "bcrypt \<Rightarrow> env \<Rightarrow> upd \<Rightarrow> user_row \<Rightarrow> user_row" where
  "upd_row bc e u r =
     r\<lparr>u_role := (case upd_role u of Some x \<Rightarrow> x | None \<Rightarrow> u_role r),
       u_active := (case upd_active u of Some a \<Rightarrow> a | None \<Rightarrow> u_active r),
       password_hash := (case upd_password u of Some pw \<Rightarrow> bgen bc (salt e) pw | None \<Rightarrow> password_hash r)\<rparr>"

definition revokes :: "upd \<Rightarrow> user_row \<Rightarrow> bool" where
  "revokes u r = (upd_password u \<noteq> None
     \<or> \<not> (case upd_active u of Some a \<Rightarrow> a | None \<Rightarrow> u_active r))"

lemma scanUser_simps [simp]:
  "u_id (scanUser r) = u_id r" "u_name (scanUser r) = u_name r" "u_role (scanUser r) = u_role r"
  "u_active (scanUser r) = u_active r" "u_created (scanUser r) = u_created r"
  by (simp_all add: scanUser_def user.truncate_def)

lemma user_eqI:
  "u_id (a :: user) = u_id b \<Longrightarrow> u_name a = u_name b \<Longrightarrow> u_role a = u_role b \<Longrightarrow>
   u_active a = u_active b \<Longrightarrow> u_created a = u_created b \<Longrightarrow> a = b"
  by (cases a, cases b) simp

lemma upd_row_simps [simp]:
  "u_id (upd_row bc e u r) = u_id r" "u_name (upd_row bc e u r) = u_name r"
  "u_created (upd_row bc e u r) = u_created r"
  by (simp_all add: upd_row_def)

lemma query_user_Inr [simp]:
  "query_user e s uid = Inr r \<longleftrightarrow> \<not> faults e DbQueryUser \<and> find_row s uid = Some r"
  by (auto simp: query_user_def split: option.splits)

lemma ensureOtherAdmin_None:
  "ensureOtherAdmin e s uid = None \<Longrightarrow> \<exists>r \<in> set (users s). is_active_admin r \<and> u_id r \<noteq> uid"
  by (auto simp: ensureOtherAdmin_def filter_empty_conv split: if_splits)

lemma hashPassword_Inr:
  "hashPassword bc e pw = Inr h \<Longrightarrow> h = bgen bc (salt e) pw \<and> 8 \<le> length pw \<and> length pw \<le> 72"
  by (auto simp: hashPassword_def split: if_splits)

lemma map_if_twice:
  "(\<And>x. p (f x) = p x) \<Longrightarrow> map_if p g (map_if p f xs) = map_if p (g \<circ> f) xs"
  by (induction xs) auto

lemma map_if_cong_on:
  "(\<And>x. x \<in> set xs \<Longrightarrow> p x \<Longrightarrow> f x = g x) \<Longrightarrow> map_if p f xs = map_if p g xs"
  by (auto simp: map_if_def)

text \<open>A failed operation leaves the store as it was: the transaction is rolled back.\<close>

lemma Create_Inl: "Create bc e s un pw r = (Inl er, s') \<Longrightarrow> s' = s"
  by (auto simp: Create_def Let_def split: if_splits sum.splits)

lemma Update_Inl: "Update bc e s uid u k = (Inl er, s') \<Longrightarrow> s' = s"
  by (auto simp: Update_def Let_def split: if_splits sum.splits option.splits)

lemma Delete_Some: "Delete e s uid = (Some er, s') \<Longrightarrow> s' = s"
  by (auto simp: Delete_def split: if_splits sum.splits option.splits)

lemma CreateSession_Inl: "CreateSession e s uid ttl = (Inl er, s') \<Longrightarrow> s' = s"
  by (auto simp: CreateSession_def Let_def split: if_splits)

text \<open>A successful operation, as one change of the tables.\<close>

lemma Create_Inr:
  assumes "Create bc e s un pw r = (Inr x, s')"
  shows "usernameRe un \<and> Valid r \<and> 8 \<le> length pw \<and> length pw \<le> 72
       \<and> (\<forall>q \<in> set (users s). \<not> nocase_eq (u_name q) un)
       \<and> (\<exists>row. s' = s\<lparr>users := users s @ [row], next_id := next_id s + 1\<rparr> \<and> x = scanUser row
             \<and> row = \<lparr>u_id = next_id s, u_name = un, u_role = r, u_active = True,
                      u_created = t_of_unix (t_unix (now e)), password_hash = bgen bc (salt e) pw\<rparr>)"
  using assms
  by (auto simp: Create_def Let_def filter_empty_conv dest!: hashPassword_Inr
      split: if_splits sum.splits)

lemma Update_Inr:
  assumes "Update bc e s uid u k = (Inr x, s')" and ids: "distinct (map u_id (users s))"
  shows "\<exists>row. find_row s uid = Some row \<and> x = scanUser (upd_row bc e u row)
     \<and> (case upd_role u of Some r \<Rightarrow> Valid r | None \<Rightarrow> True)
     \<and> (case upd_password u of Some pw \<Rightarrow> 8 \<le> length pw \<and> length pw \<le> 72 | None \<Rightarrow> True)
     \<and> (is_active_admin row \<and> \<not> is_active_admin (upd_row bc e u row)
          \<longrightarrow> (\<exists>r \<in> set (users s). is_active_admin r \<and> u_id r \<noteq> uid))
     \<and> s' = s\<lparr>users := map_if (\<lambda>r. u_id r = uid) (upd_row bc e u) (users s),
              sessions := (if revokes u row
                 then filter (\<lambda>t. \<not> (user_id t = uid \<and> token_hash t \<noteq> k)) (sessions s)
                 else sessions s)\<rparr>"
proof -
  obtain row hash where row: "find_row s uid = Some row"
    and role: "case upd_role u of Some r \<Rightarrow> Valid r | None \<Rightarrow> True"
    and hash: "(case upd_password u of None \<Rightarrow> Inr [] | Some pw \<Rightarrow> hashPassword bc e pw) = Inr hash"
    using assms(1)
    by (auto simp: Update_def Let_def split: if_splits sum.splits option.splits)
  define nr where "nr = (case upd_role u of Some r \<Rightarrow> r | None \<Rightarrow> u_role row)"
  define na where "na = (case upd_active u of Some a \<Rightarrow> a | None \<Rightarrow> u_active row)"
  have rev: "revokes u row = (upd_password u \<noteq> None \<or> \<not> na)"
    by (simp add: revokes_def na_def)
  have only: "q = row" if "q \<in> set (users s)" "u_id q = uid" for q
    using that row find_Some_iff_mem[OF row[unfolded find_row_def]] ids
    by (auto simp: distinct_map inj_on_def)
  define s1 where "s1 = update_rows uid (\<lambda>r. r\<lparr>u_role := nr, u_active := na\<rparr>) s"
  define s2 where "s2 = (if upd_password u \<noteq> None
                              then update_rows uid (\<lambda>r. r\<lparr>password_hash := hash\<rparr>) s1 else s1)"
  have ok: "\<not> faults e DbBegin" "\<not> faults e DbQueryUser"
    and role': "(case upd_role u of None \<Rightarrow> False | Some r \<Rightarrow> \<not> Valid r) = False"
    using assms(1) role by (auto simp: Update_def query_user_def split: if_splits sum.splits option.splits)
  have q: "query_user e s uid = Inr row" using row ok by simp
  note run = assms(1)[unfolded Update_def role' hash q Let_def scanUser_simps sum.case
      nr_def[symmetric] na_def[symmetric] s1_def[symmetric] s2_def[symmetric] rev[symmetric] if_False]
  have s': "s' = (if revokes u row then delete_sessions_of uid k s2 else s2)"
    and x: "x = (scanUser row)\<lparr>u_role := nr, u_active := na\<rparr>"
    and adm: "u_role row = RoleAdmin \<and> u_active row \<and> (nr \<noteq> RoleAdmin \<or> \<not> na)
               \<longrightarrow> ensureOtherAdmin e s uid = None"
    using run ok by (auto split: if_splits option.splits)
  have upd: "upd_row bc e u r = (if upd_password u \<noteq> None
       then r\<lparr>u_role := nr, u_active := na, password_hash := hash\<rparr>
       else r\<lparr>u_role := nr, u_active := na\<rparr>)" if "r = row" for r
    using that hash by (cases r) (auto simp: upd_row_def nr_def na_def dest!: hashPassword_Inr split: option.splits)
  have u2: "users s2 = map_if (\<lambda>r. u_id r = uid) (upd_row bc e u) (users s)"
    unfolding s2_def s1_def update_rows_def
    by (auto simp: map_if_twice upd only intro!: map_if_cong_on)
  have o2: "sessions s2 = sessions s" "next_id s2 = next_id s"
    by (simp_all add: s2_def s1_def update_rows_def)
  have "s' = s\<lparr>users := map_if (\<lambda>r. u_id r = uid) (upd_row bc e u) (users s),
              sessions := (if revokes u row
                 then filter (\<lambda>t. \<not> (user_id t = uid \<and> token_hash t \<noteq> k)) (sessions s)
                 else sessions s)\<rparr>"
    unfolding s' u2[symmetric] by (cases s2) (auto simp: delete_sessions_of_def o2[simplified] simp flip: o2)
  moreover have "x = scanUser (upd_row bc e u row)"
    by (rule user_eqI) (auto simp: x upd)
  moreover have "is_active_admin row \<and> \<not> is_active_admin (upd_row bc e u row)
          \<longrightarrow> (\<exists>r \<in> set (users s). is_active_admin r \<and> u_id r \<noteq> uid)"
    using adm ensureOtherAdmin_None by (auto simp: is_active_admin_def upd)
  moreover have "case upd_password u of Some pw \<Rightarrow> 8 \<le> length pw \<and> length pw \<le> 72 | None \<Rightarrow> True"
    using hash by (auto dest!: hashPassword_Inr split: option.splits)
  ultimately show ?thesis using row role by blast
qed

lemma Update_InrE:
  assumes "Update bc e s uid u k = (Inr x, s')" "distinct (map u_id (users s))"
  obtains row where "find_row s uid = Some row" "x = scanUser (upd_row bc e u row)"
    "case upd_role u of Some r \<Rightarrow> Valid r | None \<Rightarrow> True"
    "case upd_password u of Some pw \<Rightarrow> 8 \<le> length pw \<and> length pw \<le> 72 | None \<Rightarrow> True"
    "is_active_admin row \<and> \<not> is_active_admin (upd_row bc e u row)
       \<longrightarrow> (\<exists>r \<in> set (users s). is_active_admin r \<and> u_id r \<noteq> uid)"
    "s' = s\<lparr>users := map_if (\<lambda>r. u_id r = uid) (upd_row bc e u) (users s),
            sessions := (if revokes u row
               then filter (\<lambda>t. \<not> (user_id t = uid \<and> token_hash t \<noteq> k)) (sessions s)
               else sessions s)\<rparr>"
  using Update_Inr[OF assms] by (elim exE conjE) (rule that)

lemma Delete_None:
  assumes "Delete e s uid = (None, s')"
  shows "\<exists>row. find_row s uid = Some row \<and> s' = delete_user_row uid s
     \<and> (is_active_admin row \<longrightarrow> (\<exists>r \<in> set (users s). is_active_admin r \<and> u_id r \<noteq> uid))"
  using assms ensureOtherAdmin_None
  by (fastforce simp: Delete_def is_active_admin_def split: if_splits sum.splits option.splits)

lemma CreateSession_Inr:
  assumes "CreateSession e s uid ttl = (Inr (tok, ex), s')"
  shows "tok = b64_encode (rand e) \<and> ex = now e + ttl
     \<and> (\<exists>r. find_row s uid = Some r) \<and> HashToken tok \<notin> token_hash ` set (sessions s)
     \<and> s' = s\<lparr>sessions := sessions s @
           [\<lparr>token_hash = HashToken tok, user_id = uid, expires_at = t_unix ex\<rparr>]\<rparr>"
  using assms by (auto simp: CreateSession_def Let_def split: if_splits)

end
