(* ===== verification/UsersProps.thy ===== *)
theory UsersProps
  imports Users
begin

text \<open>
  What the account store guarantees: its well-formedness, the standing of at least one
  active admin, atomicity, authentication against the stored hash, and the life of a
  session from its creation to its revocation.
\<close>

section \<open>Well-formed stores\<close>

definition store_ok :: "store \<Rightarrow> bool" where
  "store_ok s \<longleftrightarrow>
     distinct (map u_id (users s)) \<and>
     distinct (map (\<lambda>r. ToLower (u_name r)) (users s)) \<and>
     (\<forall>r \<in> set (users s). 0 < u_id r \<and> u_id r < next_id s \<and> usernameRe (u_name r) \<and> Valid (u_role r)) \<and>
     0 < next_id s \<and>
     distinct (map token_hash (sessions s)) \<and>
     (\<forall>t \<in> set (sessions s). user_id t \<in> u_id ` set (users s))"

definition has_admin :: "store \<Rightarrow> bool" where
  "has_admin s \<longleftrightarrow> (\<exists>r \<in> set (users s). is_active_admin r)"

lemma store_ok_ids [dest]: "store_ok s \<Longrightarrow> distinct (map u_id (users s))"
  by (simp add: store_ok_def)

lemma find_row_mem: "find_row s uid = Some r \<Longrightarrow> r \<in> set (users s) \<and> u_id r = uid"
  unfolding find_row_def by (rule find_Some_iff_mem)

lemma find_row_None: "find_row s uid = None \<longleftrightarrow> uid \<notin> u_id ` set (users s)"
  unfolding find_row_def by (auto simp: find_None_mem)

lemma find_row_eq:
  "store_ok s \<Longrightarrow> r \<in> set (users s) \<Longrightarrow> find_row s (u_id r) = Some r"
  unfolding find_row_def by (rule find_unique[where g = u_id]) auto

lemma find_row_map_if:
  "(\<And>r. u_id (f r) = u_id r) \<Longrightarrow>
   find_row (s\<lparr>users := map_if (\<lambda>r. u_id r = uid) f (users s)\<rparr>) i =
     (if i = uid then map_option f (find_row s i) else find_row s i)"
proof -
  assume f: "\<And>r. u_id (f r) = u_id r"
  have "find (\<lambda>r. u_id r = i) (map_if (\<lambda>r. u_id r = uid) f rs) =
     (if i = uid then map_option f (find (\<lambda>r. u_id r = i) rs) else find (\<lambda>r. u_id r = i) rs)" for rs
    by (induction rs) (auto simp: f)
  then show ?thesis by (simp add: find_row_def)
qed

lemma find_row_sessions [simp]: "find_row (s\<lparr>sessions := x\<rparr>) i = find_row s i"
  by (simp add: find_row_def)

lemma find_row_next [simp]: "find_row (s\<lparr>next_id := x\<rparr>) i = find_row s i"
  by (simp add: find_row_def)

lemma find_row_snoc:
  "find_row (s\<lparr>users := users s @ [row]\<rparr>) i =
     (case find_row s i of Some r \<Rightarrow> Some r | None \<Rightarrow> if u_id row = i then Some row else None)"
proof -
  have "find P (xs @ [y]) = (case find P xs of Some r \<Rightarrow> Some r | None \<Rightarrow> if P y then Some y else None)"
    for P xs and y :: user_row by (induction xs) auto
  then show ?thesis by (simp add: find_row_def)
qed

lemma Create_ok: "store_ok s \<Longrightarrow> store_ok (snd (Create bc e s un pw r))"
proof (cases "Create bc e s un pw r")
  case (Pair res s')
  assume ok: "store_ok s"
  show ?thesis
  proof (cases res)
    case Inl
    with Pair ok show ?thesis using Create_Inl by fastforce
  next
    case (Inr x)
    from Create_Inr[OF Pair[unfolded Inr]] obtain row where
      c: "usernameRe un" "Valid r" "\<forall>q \<in> set (users s). \<not> nocase_eq (u_name q) un"
        "s' = s\<lparr>users := users s @ [row], next_id := next_id s + 1\<rparr>"
        "u_id row = next_id s" "u_name row = un" "u_role row = r" by auto
    with ok Pair show ?thesis
      by (force simp: store_ok_def nocase_eq_def)
  qed
qed

lemma Update_ok: "store_ok s \<Longrightarrow> store_ok (snd (Update bc e s uid u k))"
proof (cases "Update bc e s uid u k")
  case (Pair res s')
  assume ok: "store_ok s"
  show ?thesis
  proof (cases res)
    case Inl
    with Pair ok show ?thesis using Update_Inl by fastforce
  next
    case (Inr x)
    from Update_InrE[OF Pair[unfolded Inr] store_ok_ids[OF ok]] obtain row where
      role: "case upd_role u of Some r \<Rightarrow> Valid r | None \<Rightarrow> True"
      and s': "s' = s\<lparr>users := map_if (\<lambda>r. u_id r = uid) (upd_row bc e u) (users s),
            sessions := (if revokes u row
               then filter (\<lambda>t. \<not> (user_id t = uid \<and> token_hash t \<noteq> k)) (sessions s)
               else sessions s)\<rparr>" .
    then have us: "users s' = map_if (\<lambda>r. u_id r = uid) (upd_row bc e u) (users s)"
      and ses: "set (sessions s') \<subseteq> set (sessions s)"
        "distinct (map token_hash (sessions s)) \<Longrightarrow> distinct (map token_hash (sessions s'))"
      and nid: "next_id s' = next_id s"
      by (auto simp: distinct_map_filter)
    have v: "Valid (u_role (upd_row bc e u r))" if "Valid (u_role r)" for r
      using that role by (auto simp: upd_row_def split: option.splits)
    have rows: "\<forall>r \<in> set (users s'). \<exists>q \<in> set (users s). u_id r = u_id q \<and> u_name r = u_name q
        \<and> (Valid (u_role q) \<longrightarrow> Valid (u_role r))"
      unfolding us by (auto simp: map_if_def v)
    have ids: "map u_id (users s') = map u_id (users s)"
      and names: "map (\<lambda>r. ToLower (u_name r)) (users s') = map (\<lambda>r. ToLower (u_name r)) (users s)"
      unfolding us by (auto simp: map_map_if_same)
    have idset: "u_id ` set (users s') = u_id ` set (users s)"
      using arg_cong[OF ids, of set] by simp
    have "\<forall>r \<in> set (users s'). 0 < u_id r \<and> u_id r < next_id s \<and> usernameRe (u_name r) \<and> Valid (u_role r)"
      using rows ok by (fastforce simp: store_ok_def)
    moreover have "\<forall>t \<in> set (sessions s'). user_id t \<in> u_id ` set (users s)"
      using ok ses(1) by (auto simp: store_ok_def)
    ultimately have "store_ok s'"
      using ok ses(2) by (simp add: store_ok_def ids names nid idset)
    with Pair show ?thesis by simp
  qed
qed

lemma delete_user_row_ok: "store_ok s \<Longrightarrow> store_ok (delete_user_row uid s)"
  by (auto simp: store_ok_def delete_user_row_def distinct_map_filter)

lemma Delete_ok: "store_ok s \<Longrightarrow> store_ok (snd (Delete e s uid))"
  by (cases "Delete e s uid"; cases "fst (Delete e s uid)")
     (auto dest!: Delete_None Delete_Some intro: delete_user_row_ok)

lemma CreateSession_ok: "store_ok s \<Longrightarrow> store_ok (snd (CreateSession e s uid ttl))"
proof (cases "CreateSession e s uid ttl")
  case (Pair res s')
  assume ok: "store_ok s"
  show ?thesis
  proof (cases res)
    case Inl
    with Pair ok show ?thesis using CreateSession_Inl by fastforce
  next
    case (Inr x)
    with Pair ok show ?thesis
      by (cases x) (auto dest!: CreateSession_Inr find_row_mem simp: store_ok_def)
  qed
qed

lemma DeleteSession_ok: "store_ok s \<Longrightarrow> store_ok (snd (DeleteSession e s h))"
  by (auto simp: DeleteSession_def store_ok_def distinct_map_filter)

lemma PurgeExpiredSessions_ok: "store_ok s \<Longrightarrow> store_ok (snd (PurgeExpiredSessions e s))"
  by (auto simp: PurgeExpiredSessions_def store_ok_def distinct_map_filter)

section \<open>One active admin always remains\<close>

lemma Create_admin: "has_admin s \<Longrightarrow> has_admin (snd (Create bc e s un pw r))"
  by (cases "Create bc e s un pw r"; cases "fst (Create bc e s un pw r)")
     (auto simp: has_admin_def dest!: Create_Inr Create_Inl)

lemma Update_admin:
  assumes "store_ok s" "has_admin s"
  shows "has_admin (snd (Update bc e s uid u k))"
proof (cases "Update bc e s uid u k")
  case (Pair res s')
  show ?thesis
  proof (cases res)
    case Inl
    with Pair assms show ?thesis using Update_Inl by fastforce
  next
    case (Inr x)
    from Update_InrE[OF Pair[unfolded Inr] store_ok_ids[OF assms(1)]] obtain row where
      row: "find_row s uid = Some row"
      and keep: "is_active_admin row \<and> \<not> is_active_admin (upd_row bc e u row)
          \<longrightarrow> (\<exists>r \<in> set (users s). is_active_admin r \<and> u_id r \<noteq> uid)"
      and s': "s' = s\<lparr>users := map_if (\<lambda>r. u_id r = uid) (upd_row bc e u) (users s),
            sessions := (if revokes u row
               then filter (\<lambda>t. \<not> (user_id t = uid \<and> token_hash t \<noteq> k)) (sessions s)
               else sessions s)\<rparr>" .
    have us: "users s' = map_if (\<lambda>r. u_id r = uid) (upd_row bc e u) (users s)" by (simp add: s')
    from assms(2) obtain a where a: "a \<in> set (users s)" "is_active_admin a"
      by (auto simp: has_admin_def)
    have "\<exists>r \<in> set (users s). if u_id r = uid then is_active_admin (upd_row bc e u r) else is_active_admin r"
      using a keep find_row_eq[OF assms(1) a(1)] row by (cases "u_id a = uid") auto
    then have "has_admin s'" unfolding has_admin_def us map_if_def by (auto split: if_splits)
    with Pair show ?thesis by simp
  qed
qed

lemma Delete_admin:
  assumes "store_ok s" "has_admin s"
  shows "has_admin (snd (Delete e s uid))"
proof (cases "Delete e s uid")
  case (Pair res s')
  show ?thesis
  proof (cases res)
    case Some
    with Pair assms show ?thesis using Delete_Some by fastforce
  next
    case None
    from Delete_None[OF Pair[unfolded None]] obtain row where
      row: "find_row s uid = Some row" and s': "s' = delete_user_row uid s"
      and keep: "is_active_admin row \<longrightarrow> (\<exists>r \<in> set (users s). is_active_admin r \<and> u_id r \<noteq> uid)"
      by auto
    from assms(2) obtain a where a: "a \<in> set (users s)" "is_active_admin a"
      by (auto simp: has_admin_def)
    then show ?thesis
      using keep row find_row_eq[OF assms(1) a(1)] Pair s'
      by (cases "u_id a = uid") (auto simp: has_admin_def delete_user_row_def)
  qed
qed

section \<open>The store as a machine\<close>

datatype store_op =
  OpCreate string string role
| OpUpdate int upd string
| OpDelete int
| OpCreateSession int duration
| OpDeleteSession string
| OpPurge

fun store_exec :: "bcrypt \<Rightarrow> env \<Rightarrow> store_op \<Rightarrow> store \<Rightarrow> store" where
  "store_exec bc e (OpCreate un pw r) s = snd (Create bc e s un pw r)"
| "store_exec bc e (OpUpdate uid u k) s = snd (Update bc e s uid u k)"
| "store_exec bc e (OpDelete uid) s = snd (Delete e s uid)"
| "store_exec bc e (OpCreateSession uid ttl) s = snd (CreateSession e s uid ttl)"
| "store_exec bc e (OpDeleteSession h) s = snd (DeleteSession e s h)"
| "store_exec bc e OpPurge s = snd (PurgeExpiredSessions e s)"

lemma session_ops_users [simp]:
  "users (snd (CreateSession e s uid ttl)) = users s"
  "users (snd (DeleteSession e s h)) = users s"
  "users (snd (PurgeExpiredSessions e s)) = users s"
  by (auto simp: CreateSession_def DeleteSession_def PurgeExpiredSessions_def Let_def)

lemma store_exec_ok: "store_ok s \<Longrightarrow> store_ok (store_exec bc e op s)"
  by (cases op) (simp_all add: Create_ok Update_ok Delete_ok CreateSession_ok DeleteSession_ok
      PurgeExpiredSessions_ok)

lemma store_exec_admin: "store_ok s \<Longrightarrow> has_admin s \<Longrightarrow> has_admin (store_exec bc e op s)"
  by (cases op) (simp_all add: Create_admin Update_admin Delete_admin, simp_all add: has_admin_def)

interpretation st: invariant_ops "store_exec bc" "\<lambda>s. store_ok s \<and> has_admin s" for bc
  by unfold_locales (simp add: store_exec_ok store_exec_admin)

inductive store_step :: "bcrypt \<Rightarrow> store \<Rightarrow> store \<Rightarrow> bool" for bc where
  step: "store_step bc s (store_exec bc e op s)"

inductive_cases store_stepE: "store_step bc s t"

inductive store_reach :: "bcrypt \<Rightarrow> store \<Rightarrow> store \<Rightarrow> bool" for bc s0 where
  init: "store_reach bc s0 s0"
| step: "store_reach bc s0 s \<Longrightarrow> store_step bc s t \<Longrightarrow> store_reach bc s0 t"

lemma store_reach_inv:
  "store_reach bc s0 s \<Longrightarrow> store_ok s0 \<and> has_admin s0 \<Longrightarrow> store_ok s \<and> has_admin s"
  by (induction rule: store_reach.induct) (auto elim!: store_stepE intro: st.exec_inv[THEN conjunct1] st.exec_inv[THEN conjunct2])

lemma store_reach_ok: "store_reach bc s0 s \<Longrightarrow> store_ok s0 \<Longrightarrow> store_ok s"
  by (induction rule: store_reach.induct) (auto elim!: store_stepE intro: store_exec_ok)


section \<open>The abstract view: accounts by id, sessions by token hash\<close>

definition no_faults :: "env \<Rightarrow> bool" where
  "no_faults e \<longleftrightarrow> (\<forall>d. \<not> faults e d)"

lemma no_faultsD [simp]: "no_faults e \<Longrightarrow> \<not> faults e d"
  by (simp add: no_faults_def)

definition find_session :: "store \<Rightarrow> string \<Rightarrow> session_row option" where
  "find_session s h = find (\<lambda>t. token_hash t = h) (sessions s)"

text \<open>Replacing one account in the abstract view removes its sessions when the change revokes them.\<close>

definition abs_update ::
  "(int \<Rightarrow> user_row option) \<times> (string \<Rightarrow> session_row option) \<Rightarrow> int \<Rightarrow> user_row \<Rightarrow> bool \<Rightarrow> string
   \<Rightarrow> (int \<Rightarrow> user_row option) \<times> (string \<Rightarrow> session_row option)" where
  "abs_update a uid row revoke keep =
     ((fst a)(uid \<mapsto> row),
      (\<lambda>h. case snd a h of
             None \<Rightarrow> None
           | Some t \<Rightarrow> if revoke \<and> user_id t = uid \<and> h \<noteq> keep then None else Some t))"

definition abs_store :: "store \<Rightarrow> (int \<Rightarrow> user_row option) \<times> (string \<Rightarrow> session_row option)" where
  "abs_store s = (find_row s, find_session s)"

lemma find_filter_other:
  assumes "distinct (map g xs)"
  shows "find (\<lambda>t. g t = h) (filter P xs) =
         (case find (\<lambda>t. g t = h) xs of None \<Rightarrow> None | Some t \<Rightarrow> if P t then Some t else None)"
  using assms
proof (induction xs)
  case (Cons x xs)
  show ?case
  proof (cases "g x = h")
    case True
    with Cons.prems have "\<forall>y \<in> set xs. g y \<noteq> h" by (metis distinct.simps(2) image_eqI list.map(2) list.set_map)
    then have "find (\<lambda>t. g t = h) (filter P xs) = None" by (auto simp: find_None_mem)
    with True show ?thesis by simp
  next
    case False
    with Cons show ?thesis by simp
  qed
qed simp

lemma find_conj_key:
  assumes "distinct (map g xs)"
  shows "find (\<lambda>t. g t = h \<and> P t) xs =
         (case find (\<lambda>t. g t = h) xs of None \<Rightarrow> None | Some t \<Rightarrow> if P t then Some t else None)"
  unfolding find_filter_other[OF assms, symmetric] by (induction xs) auto

lemma find_session_mem: "find_session s h = Some t \<Longrightarrow> t \<in> set (sessions s) \<and> token_hash t = h"
  unfolding find_session_def by (rule find_Some_iff_mem)

lemma find_session_eq:
  "store_ok s \<Longrightarrow> t \<in> set (sessions s) \<Longrightarrow> find_session s (token_hash t) = Some t"
  unfolding find_session_def by (rule find_unique[where g = token_hash]) (auto simp: store_ok_def)

lemma find_session_filter:
  "store_ok s \<Longrightarrow> find_session (s\<lparr>users := us, sessions := filter P (sessions s)\<rparr>) h =
     (case find_session s h of None \<Rightarrow> None | Some t \<Rightarrow> if P t then Some t else None)"
  unfolding find_session_def store_ok_def by (simp add: find_filter_other)

text \<open>C9: a successful \<open>Update\<close> implements one abstract change: the account's new row and, when the
  password changes or the account ends inactive, the removal of all its sessions but \<open>keepSession\<close>.\<close>

theorem Update_refines:
  assumes "store_ok s" and "Update bc e s uid u keep = (Inr x, s')"
  shows "\<exists>row. find_row s uid = Some row \<and> x = scanUser (upd_row bc e u row) \<and>
    abs_store s' = abs_update (abs_store s) uid (upd_row bc e u row) (revokes u row) keep"
proof -
  from Update_InrE[OF assms(2) store_ok_ids[OF assms(1)]] obtain row where
    row: "find_row s uid = Some row" "x = scanUser (upd_row bc e u row)"
    and s': "s' = s\<lparr>users := map_if (\<lambda>r. u_id r = uid) (upd_row bc e u) (users s),
            sessions := (if revokes u row
               then filter (\<lambda>t. \<not> (user_id t = uid \<and> token_hash t \<noteq> keep)) (sessions s)
               else sessions s)\<rparr>" .
  have "find_row s' = (find_row s)(uid \<mapsto> upd_row bc e u row)"
    using row(1) by (auto simp: s' find_row_map_if)
  moreover have "find_session s' h =
      (case find_session s h of None \<Rightarrow> None
       | Some t \<Rightarrow> if revokes u row \<and> user_id t = uid \<and> h \<noteq> keep then None else Some t)" for h
    using find_session_mem[of s h]
    by (cases "revokes u row")
       (auto simp: s' find_session_filter[OF assms(1)] split: option.splits, auto simp: find_session_def split: option.splits)
  ultimately show ?thesis using row by (auto simp: abs_store_def abs_update_def)
qed

section \<open>Data for the witnesses\<close>

text \<open>A store with one admin (id 1) and one viewer (id 2, one session), and a plain-text stand-in for bcrypt.\<close>

definition ex_bc :: bcrypt where
  "ex_bc = \<lparr>bgen = (\<lambda>st p. p), bcmp = (\<lambda>h p. h = p)\<rparr>"

definition ex_env :: env where
  "ex_env = \<lparr>now = 1000000000000, salt = [], rand = replicate 32 7, faults = (\<lambda>_. False)\<rparr>"

definition ex_admin :: user_row where
  "ex_admin = \<lparr>u_id = 1, u_name = ''admin'', u_role = ''admin'', u_active = True, u_created = 0,
               password_hash = ''supersecret''\<rparr>"

definition ex_viewer :: user_row where
  "ex_viewer = \<lparr>u_id = 2, u_name = ''carla'', u_role = ''viewer'', u_active = True, u_created = 0,
                password_hash = ''carlapass''\<rparr>"

definition ex_session :: session_row where
  "ex_session = \<lparr>token_hash = ''aa'', user_id = 2, expires_at = 5000\<rparr>"

definition ex_store :: store where
  "ex_store = \<lparr>users = [ex_admin, ex_viewer], sessions = [ex_session], next_id = 3\<rparr>"

lemmas ex_defs = ex_bc_def ex_env_def ex_admin_def ex_viewer_def ex_session_def ex_store_def

lemma ex_env_no_faults [simp]: "no_faults ex_env" "\<not> faults ex_env d"
  by (simp_all add: no_faults_def ex_env_def)

lemma ex_store_ok [simp]: "store_ok ex_store"
  by (simp add: store_ok_def ex_defs usernameRe_def name_char_def Valid_def RoleAdmin_def
      RoleViewer_def ToLower_def lower_char_def)

lemma ex_has_admin [simp]: "has_admin ex_store"
  by (simp add: has_admin_def ex_defs is_active_admin_def RoleAdmin_def)

lemma ex_bcrypt_ok [simp]: "bcrypt_ok ex_bc"
  by (simp add: bcrypt_ok_def ex_bc_def)

lemma ex_find_row [simp]:
  "find_row ex_store 1 = Some ex_admin" "find_row ex_store 2 = Some ex_viewer"
  by (simp_all add: find_row_def ex_defs)

definition ex_off :: upd where
  "ex_off = \<lparr>upd_role = None, upd_active = Some False, upd_password = None\<rparr>"

lemma ex_update_off:
  "Update ex_bc ex_env ex_store 2 ex_off '''' =
     (Inr (scanUser (ex_viewer\<lparr>u_active := False\<rparr>)),
      \<lparr>users = [ex_admin, ex_viewer\<lparr>u_active := False\<rparr>], sessions = [], next_id = 3\<rparr>)"
  by (simp add: Update_def query_user_def find_row_def ex_off_def ex_defs scanUser_def user.truncate_def
      RoleAdmin_def update_rows_def delete_sessions_of_def Let_def)

theorem Update_refines_witness:
  "\<exists>row. find_row ex_store 2 = Some row \<and>
     scanUser (ex_viewer\<lparr>u_active := False\<rparr>) = scanUser (upd_row ex_bc ex_env ex_off row) \<and>
     abs_store \<lparr>users = [ex_admin, ex_viewer\<lparr>u_active := False\<rparr>], sessions = [], next_id = 3\<rparr>
       = abs_update (abs_store ex_store) 2 (upd_row ex_bc ex_env ex_off row) (revokes ex_off row) ''''"
  by (rule Update_refines[OF ex_store_ok ex_update_off])

section \<open>Safety of the accounts\<close>

text \<open>from a well-formed store with an active admin, whatever sequence of store operations is run
  (with whatever faults), the store stays well formed and keeps at least one active admin.\<close>

theorem admin_never_lost:
  assumes "store_reach bc s0 s" and "store_ok s0" and "has_admin s0"
  shows "store_ok s \<and> (\<exists>r \<in> set (users s). u_role r = ''admin'' \<and> u_active r)"
  using store_reach_inv[OF assms(1)] assms(2,3)
  by (simp add: has_admin_def is_active_admin_def RoleAdmin_def)

theorem admin_never_lost_witness:
  "store_ok (store_exec ex_bc ex_env (OpDelete 1) ex_store) \<and>
   (\<exists>r \<in> set (users (store_exec ex_bc ex_env (OpDelete 1) ex_store)). u_role r = ''admin'' \<and> u_active r)"
  by (rule admin_never_lost[OF store_reach.step[OF store_reach.init store_step.step] ex_store_ok ex_has_admin])

text \<open>an operation that reports an error has changed nothing, at whichever statement of its
  transaction the error arose.\<close>

theorem store_errors_atomic:
  "(fst (Create bc e s un pw r) = Inl er \<longrightarrow> snd (Create bc e s un pw r) = s) \<and>
   (fst (Update bc e s uid u keep) = Inl er \<longrightarrow> snd (Update bc e s uid u keep) = s) \<and>
   (fst (Delete e s uid) = Some er \<longrightarrow> snd (Delete e s uid) = s) \<and>
   (fst (CreateSession e s uid ttl) = Inl er \<longrightarrow> snd (CreateSession e s uid ttl) = s)"
  using Create_Inl Update_Inl Delete_Some CreateSession_Inl by (metis prod.collapse)

lemma ex_delete_last: "Delete ex_env ex_store 1 = (Some ErrLastAdmin, ex_store)"
  by (simp add: Delete_def query_user_def ensureOtherAdmin_def is_active_admin_def ex_defs find_row_def RoleAdmin_def)

theorem store_errors_atomic_witness:
  "fst (Delete ex_env ex_store 1) = Some ErrLastAdmin \<and> snd (Delete ex_env ex_store 1) = ex_store"
  using store_errors_atomic[of ex_bc ex_env ex_store "''x''" "''x''" "''x''" ErrLastAdmin 1 ex_off "''''" 0]
  by (simp add: ex_delete_last)


text \<open>The errors of \<open>Update\<close> when no statement fails, in the order the code checks them.\<close>

definition bad_password :: "upd \<Rightarrow> bool" where
  "bad_password u = (case upd_password u of None \<Rightarrow> False | Some pw \<Rightarrow> length pw < 8 \<or> 72 < length pw)"

definition bad_role :: "upd \<Rightarrow> bool" where
  "bad_role u = (case upd_role u of None \<Rightarrow> False | Some r \<Rightarrow> r \<noteq> ''admin'' \<and> r \<noteq> ''viewer'')"

definition only_admin :: "store \<Rightarrow> int \<Rightarrow> bool" where
  "only_admin s uid \<longleftrightarrow> (\<forall>r \<in> set (users s). is_active_admin r \<longrightarrow> u_id r = uid)"

lemma ensureOtherAdmin_eq:
  "no_faults e \<Longrightarrow> ensureOtherAdmin e s uid = (if only_admin s uid then Some ErrLastAdmin else None)"
  by (auto simp: ensureOtherAdmin_def only_admin_def filter_empty_conv)

lemma upd_row_active_admin:
  "is_active_admin (upd_row bc e u r) =
     ((case upd_role u of Some x \<Rightarrow> x | None \<Rightarrow> u_role r) = RoleAdmin
       \<and> (case upd_active u of Some a \<Rightarrow> a | None \<Rightarrow> u_active r))"
  by (simp add: is_active_admin_def upd_row_def)

text \<open>C11: without driver faults, \<open>Update\<close> refuses exactly an invalid role, a password of a bad length,
  an unknown id, and a change that would leave no active admin, in that order; otherwise it
  succeeds and returns the updated account.\<close>

theorem Update_outcome:
  assumes "no_faults e" and "store_ok s"
  shows "fst (Update bc e s uid u keep) =
    (if bad_role u then Inl ErrBadRole
     else if bad_password u then Inl ErrBadPassword
     else case find_row s uid of
       None \<Rightarrow> Inl ErrNotFound
     | Some row \<Rightarrow>
         if is_active_admin row \<and> \<not> is_active_admin (upd_row bc e u row) \<and> only_admin s uid
         then Inl ErrLastAdmin
         else Inr (scanUser (upd_row bc e u row)))"
proof (cases "bad_role u \<or> bad_password u")
  case True
  then show ?thesis
    by (auto simp: Update_def bad_role_def bad_password_def Valid_def RoleAdmin_def RoleViewer_def
        hashPassword_def split: option.splits)
next
  case False
  then have r: "(case upd_role u of None \<Rightarrow> False | Some r \<Rightarrow> \<not> Valid r) = False"
    by (auto simp: bad_role_def Valid_def RoleAdmin_def RoleViewer_def split: option.splits)
  from False assms(1) obtain h where
    h: "(case upd_password u of None \<Rightarrow> Inr [] | Some pw \<Rightarrow> hashPassword bc e pw) = Inr h"
    by (auto simp: bad_password_def hashPassword_def split: option.splits)
  show ?thesis
  proof (cases "find_row s uid")
    case None
    with False assms(1) show ?thesis
      by (simp add: Update_def r h query_user_def)
  next
    case (Some row)
    then have q: "query_user e s uid = Inr row" using assms(1) by simp
    have adm: "(u_role row = RoleAdmin \<and> u_active row
        \<and> ((case upd_role u of None \<Rightarrow> u_role row | Some x \<Rightarrow> x) \<noteq> RoleAdmin
           \<or> \<not> (case upd_active u of None \<Rightarrow> u_active row | Some a \<Rightarrow> a)))
      = (is_active_admin row \<and> \<not> is_active_admin (upd_row bc e u row))"
      unfolding upd_row_active_admin by (auto simp: is_active_admin_def)
    have x: "(scanUser row)\<lparr>u_role := (case upd_role u of None \<Rightarrow> u_role row | Some x \<Rightarrow> x),
        u_active := (case upd_active u of None \<Rightarrow> u_active row | Some a \<Rightarrow> a)\<rparr> = scanUser (upd_row bc e u row)"
      by (rule user_eqI) (simp_all add: upd_row_def)
    show ?thesis
      unfolding Update_def Let_def r h q sum.case scanUser_simps adm x
      using False Some assms(1)
      by (simp add: ensureOtherAdmin_eq)
  qed
qed

theorem Update_outcome_witness:
  "fst (Update ex_bc ex_env ex_store 1 ex_off '''') = Inl ErrLastAdmin"
proof -
  have "only_admin ex_store 1"
    by (simp add: only_admin_def ex_defs is_active_admin_def RoleAdmin_def)
  moreover have "is_active_admin ex_admin" "\<not> is_active_admin (upd_row ex_bc ex_env ex_off ex_admin)"
    by (simp_all add: is_active_admin_def ex_defs RoleAdmin_def upd_row_def ex_off_def)
  ultimately show ?thesis
    using Update_outcome[OF ex_env_no_faults(1) ex_store_ok, of ex_bc 1 ex_off "''''"]
    by (simp add: bad_role_def bad_password_def ex_off_def)
qed

section \<open>Passwords\<close>

lemma find_name_unique:
  assumes "store_ok s" "r \<in> set (users s)" "nocase_eq (u_name r) un"
  shows "find (\<lambda>q. nocase_eq (u_name q) un) (users s) = Some r"
  using assms by (intro find_unique[where g = "\<lambda>r. ToLower (u_name r)"]) (auto simp: store_ok_def nocase_eq_def)

lemma Authenticate_row:
  assumes "no_faults e" "store_ok s" "r \<in> set (users s)" "nocase_eq (u_name r) un"
  shows "Authenticate bc e s un pw =
     (if u_active r \<and> bcmp bc (password_hash r) pw then Some (scanUser r) else None)"
  using assms(1) find_name_unique[OF assms(2-4)] by (simp add: Authenticate_def)

lemma Create_auth:
  assumes "bcrypt_ok bc" "store_ok s" "no_faults e'" "length pw' \<le> 72"
    and "Create bc e s un pw r = (Inr u, s')"
  shows "Authenticate bc e' s' un' pw' =
    (if nocase_eq un un' then (if pw' = pw then Some u else None) else Authenticate bc e' s un' pw')"
proof -
  from Create_Inr[OF assms(5)] obtain row where
    c: "8 \<le> length pw" "length pw \<le> 72" "\<forall>q \<in> set (users s). \<not> nocase_eq (u_name q) un"
      "s' = s\<lparr>users := users s @ [row], next_id := next_id s + 1\<rparr>" "u = scanUser row"
      "u_name row = un" "u_active row" "password_hash row = bgen bc (salt e) pw"
    by auto
  have hash: "bcmp bc (password_hash row) pw' = (pw' = pw)"
    using assms(1,4) c by (auto simp: bcrypt_ok_def)
  have ok: "store_ok s'" using Create_ok[OF assms(2), of bc e un pw r] assms(5) by simp
  show ?thesis
  proof (cases "nocase_eq un un'")
    case True
    with c have "row \<in> set (users s')" "nocase_eq (u_name row) un'" by auto
    from Authenticate_row[OF assms(3) ok this] True c hash show ?thesis by simp
  next
    case False
    have "find P (xs @ [row]) = find P xs" if "\<not> P row" for P and xs :: "user_row list"
      using that by (induction xs) auto
    with False c show ?thesis by (simp add: Authenticate_def)
  qed
qed

text \<open>C19: after \<open>Create(name, pw, role)\<close> succeeds, of the passwords of at most 72 bytes (the rest bcrypt ignores) exactly
  \<open>pw\<close> authenticates that name, in any letter case, and it yields the created account; every other name authenticates as before.\<close>

theorem Create_then_Authenticate:
  assumes "bcrypt_ok bc" "store_ok s" "no_faults e'" "length pw' \<le> 72"
    and "Create bc e s un pw r = (Inr u, s')"
  shows "Authenticate bc e' s' un' pw' =
    (if nocase_eq un un' then (if pw' = pw then Some u else None) else Authenticate bc e' s un' pw')"
  by (rule Create_auth[OF assms])

lemma ex_create:
  "Create ex_bc ex_env ex_store ''bob.2'' ''hunter2hunter2'' ''viewer'' =
     (Inr \<lparr>u_id = 3, u_name = ''bob.2'', u_role = ''viewer'', u_active = True, u_created = 1000000000000\<rparr>,
      ex_store\<lparr>users := [ex_admin, ex_viewer, \<lparr>u_id = 3, u_name = ''bob.2'', u_role = ''viewer'',
         u_active = True, u_created = 1000000000000, password_hash = ''hunter2hunter2''\<rparr>], next_id := 4\<rparr>)"
  by (simp add: Create_def ex_defs usernameRe_def name_char_def Valid_def RoleViewer_def hashPassword_def
      nocase_eq_def ToLower_def lower_char_def scanUser_def user.truncate_def t_of_unix_def t_unix_def Let_def)

lemma ex_bob: "nocase_eq ''bob.2'' ''BOB.2''"
  by code_simp

theorem Create_then_Authenticate_witness:
  "Authenticate ex_bc ex_env (snd (Create ex_bc ex_env ex_store ''bob.2'' ''hunter2hunter2'' ''viewer''))
     ''BOB.2'' ''hunter2hunter2'' =
   Some \<lparr>u_id = 3, u_name = ''bob.2'', u_role = ''viewer'', u_active = True, u_created = 1000000000000\<rparr>"
  using Create_then_Authenticate[OF ex_bcrypt_ok ex_store_ok ex_env_no_faults(1) _ ex_create,
      of "''hunter2hunter2''" "''BOB.2''"]
  by (simp add: ex_create ex_bob)

text \<open>C13: after a successful password change, of the passwords of at most 72 bytes (the rest bcrypt ignores) exactly the
  new one is accepted for that account (the account being active), the old one is not, and every other session of the account is gone
  while the kept one still resolves to the same user.\<close>

theorem password_change_effective:
  assumes "bcrypt_ok bc" "store_ok s" "no_faults e'" "length pw' \<le> 72"
    and "upd_password u = Some pw"
    and "Update bc e s uid u keep = (Inr x, s')" and "u_active x"
  shows "Authenticate bc e' s' (u_name x) pw' = (if pw' = pw then Some x else None)
     \<and> (\<forall>t \<in> set (sessions s'). user_id t = uid \<longrightarrow> token_hash t = keep)
     \<and> (\<forall>t \<in> set (sessions s). token_hash t = keep \<longrightarrow> t \<in> set (sessions s'))"
proof -
  from Update_InrE[OF assms(6) store_ok_ids[OF assms(2)]] obtain row where
    row: "find_row s uid = Some row" "x = scanUser (upd_row bc e u row)"
    and len: "case upd_password u of Some pw \<Rightarrow> 8 \<le> length pw \<and> length pw \<le> 72 | None \<Rightarrow> True"
    and s': "s' = s\<lparr>users := map_if (\<lambda>r. u_id r = uid) (upd_row bc e u) (users s),
            sessions := (if revokes u row
               then filter (\<lambda>t. \<not> (user_id t = uid \<and> token_hash t \<noteq> keep)) (sessions s)
               else sessions s)\<rparr>" .
  let ?r = "upd_row bc e u row"
  have mem: "?r \<in> set (users s')"
    using find_row_mem[OF row(1)] by (auto simp: s' set_map_if)
  have ok: "store_ok s'" using Update_ok[OF assms(2), of bc e uid u keep] assms(6) by simp
  have h: "password_hash ?r = bgen bc (salt e) pw" by (simp add: upd_row_def assms(5))
  have "bcmp bc (password_hash ?r) pw' = (pw' = pw)"
    using assms(1,4,5) len by (auto simp: h bcrypt_ok_def)
  moreover have "nocase_eq (u_name ?r) (u_name x)" by (simp add: nocase_eq_def row)
  ultimately have "Authenticate bc e' s' (u_name x) pw' = (if pw' = pw then Some x else None)"
    using Authenticate_row[OF assms(3) ok mem] assms(7) row(2) by simp
  moreover have "revokes u row" by (simp add: revokes_def assms(5))
  ultimately show ?thesis by (auto simp: s')
qed

definition ex_pw :: upd where
  "ex_pw = \<lparr>upd_role = None, upd_active = None, upd_password = Some ''newsecret''\<rparr>"

lemma ex_update_pw:
  "Update ex_bc ex_env ex_store 2 ex_pw ''aa'' =
     (Inr (scanUser ex_viewer), ex_store\<lparr>users := [ex_admin, ex_viewer\<lparr>password_hash := ''newsecret''\<rparr>]\<rparr>)"
  by (simp add: Update_def query_user_def find_row_def ex_pw_def ex_defs scanUser_def user.truncate_def
      RoleAdmin_def update_rows_def delete_sessions_of_def hashPassword_def Let_def)

theorem password_change_effective_witness:
  "Authenticate ex_bc ex_env (snd (Update ex_bc ex_env ex_store 2 ex_pw ''aa'')) ''carla'' ''carlapass'' = None"
  using password_change_effective[OF ex_bcrypt_ok ex_store_ok ex_env_no_faults(1) _ _ ex_update_pw,
      of "''carlapass''" "''newsecret''"]
  by (simp add: ex_update_pw) (simp add: ex_pw_def ex_viewer_def)


section \<open>Sessions\<close>

lemma SessionUser_char:
  assumes "store_ok s"
  shows "SessionUser e s h = Some u \<longleftrightarrow>
    \<not> faults e DbQuerySession \<and>
    (\<exists>t r. find_session s h = Some t \<and> t_unix (now e) < expires_at t \<and>
           find_row s (user_id t) = Some r \<and> u_active r \<and> u = scanUser r)"
proof -
  have "distinct (map token_hash (sessions s))" using assms by (simp add: store_ok_def)
  then show ?thesis
    unfolding SessionUser_def find_conj_key[OF \<open>distinct _\<close>] find_session_def[symmetric]
    by (auto split: option.splits if_splits)
qed

text \<open>a token hash resolves to a user exactly when a stored, unexpired session carries it and the
  account it points to exists and is active; the user returned is that account as it is now.\<close>

theorem SessionUser_iff:
  assumes "store_ok s"
  shows "SessionUser e s h = Some u \<longleftrightarrow>
    \<not> faults e DbQuerySession \<and>
    (\<exists>t r. find_session s h = Some t \<and> t_unix (now e) < expires_at t \<and>
           find_row s (user_id t) = Some r \<and> u_active r \<and> u = scanUser r)"
  by (rule SessionUser_char[OF assms])

theorem SessionUser_iff_witness:
  "SessionUser ex_env ex_store ''aa'' = Some (scanUser ex_viewer)"
  unfolding SessionUser_iff[OF ex_store_ok]
  by (simp add: find_session_def) (simp add: ex_defs find_row_def t_unix_def)

lemma CreateSession_SessionUser:
  assumes "store_ok s" "find_row s uid = Some r" "u_active r"
    and "CreateSession e s uid ttl = (Inr (tok, ex), s')"
    and "\<not> faults e' DbQuerySession"
  shows "SessionUser e' s' (HashToken tok) =
           (if t_unix (now e') < t_unix (now e + ttl) then Some (scanUser r) else None)"
proof -
  from CreateSession_Inr[OF assms(4)] have
    c: "ex = now e + ttl"
       "s' = s\<lparr>sessions := sessions s @
           [\<lparr>token_hash = HashToken tok, user_id = uid, expires_at = t_unix ex\<rparr>]\<rparr>" by auto
  have ok: "store_ok s'" using CreateSession_ok[OF assms(1), of e uid ttl] assms(4) by simp
  have "find_session s' (HashToken tok) = Some \<lparr>token_hash = HashToken tok, user_id = uid, expires_at = t_unix ex\<rparr>"
    using find_session_eq[OF ok, of "\<lparr>token_hash = HashToken tok, user_id = uid, expires_at = t_unix ex\<rparr>"] c(2)
    by simp
  moreover have "find_row s' uid = Some r" using c(2) assms(2) by simp
  ultimately have "SessionUser e' s' (HashToken tok) = Some x \<longleftrightarrow> t_unix (now e') < t_unix ex \<and> x = scanUser r" for x
    unfolding SessionUser_char[OF ok] using assms(3,5) by auto
  then show ?thesis using c(1) by (metis not_Some_eq)
qed

text \<open>a session just created resolves to its user until it expires, and to nobody afterwards, as
  long as the account stays active; the token handed out is 43 characters of base64 of the 32
  random bytes, and only its SHA-256 is stored.\<close>

theorem CreateSession_roundtrip:
  assumes "store_ok s" "find_row s uid = Some r" "u_active r"
    and "CreateSession e s uid ttl = (Inr (tok, ex), s')"
    and "\<not> faults e' DbQuerySession" and "length (rand e) = 32"
  shows "SessionUser e' s' (HashToken tok) =
           (if t_unix (now e') < t_unix (now e + ttl) then Some (scanUser r) else None)
       \<and> length tok = 43 \<and> tok = b64_encode (rand e)
       \<and> sessions s' = sessions s @ [\<lparr>token_hash = HashToken tok, user_id = uid, expires_at = t_unix ex\<rparr>]"
  using CreateSession_SessionUser[OF assms(1-5)] CreateSession_Inr[OF assms(4)] assms(6)
  by (simp add: length_b64_encode)

lemma ex_create_session:
  assumes "HashToken (b64_encode (replicate 32 7)) \<noteq> ''aa''"
  shows "CreateSession ex_env ex_store 2 Hour =
    (Inr (b64_encode (replicate 32 7), 4600000000000),
     ex_store\<lparr>sessions := [ex_session, \<lparr>token_hash = HashToken (b64_encode (replicate 32 7)), user_id = 2, expires_at = 4600\<rparr>]\<rparr>)"
  using assms by (simp add: CreateSession_def ex_defs find_row_def t_unix_def Let_def)

lemma length_sha_block [simp]: "length (sha_block st w) \<le> length st"
  by (simp add: sha_block_def)

lemma length_HashToken_neq: "HashToken tok \<noteq> ''aa''"
proof
  assume "HashToken tok = ''aa''"
  then have "length (HashToken tok) = 2" by simp
  moreover have "4 dvd length (sha256 bs)" for bs
  proof -
    have b: "length (be_bytes n x) = n" for n x by (induction n arbitrary: x) auto
    have "length (concat (map (\<lambda>w. be_bytes 4 (uint w)) ws)) = 4 * length ws" for ws :: "u32 list"
      by (induction ws) (auto simp: b)
    then show ?thesis by (simp add: sha256_def)
  qed
  then have "8 dvd length (HashToken tok)"
    by (auto simp: HashToken_def elim!: dvdE)
  ultimately show False by simp
qed

theorem CreateSession_roundtrip_witness:
  "SessionUser ex_env (snd (CreateSession ex_env ex_store 2 Hour)) (HashToken (b64_encode (replicate 32 7)))
     = Some (scanUser ex_viewer)"
proof -
  note c = ex_create_session[OF length_HashToken_neq]
  have "\<not> faults ex_env DbQuerySession" "u_active ex_viewer" "length (rand ex_env) = 32"
    by (simp_all add: ex_viewer_def ex_env_def)
  from CreateSession_roundtrip[OF ex_store_ok ex_find_row(2) this(2) c this(1) this(3)]
  moreover have "t_unix (now ex_env) < t_unix (now ex_env + Hour)" by (simp add: ex_env_def t_unix_def)
  ultimately show ?thesis unfolding c snd_conv if_P[OF \<open>t_unix _ < _\<close>] by (elim conjE)
qed

section \<open>Deleted accounts stay deleted\<close>

text \<open>An id is dead when it has been handed out and no account carries it.\<close>

definition dead_id :: "int \<Rightarrow> store \<Rightarrow> bool" where
  "dead_id uid s \<longleftrightarrow> uid < next_id s \<and> find_row s uid = None"

lemma Create_dead: "dead_id uid s \<Longrightarrow> dead_id uid (snd (Create bc e s un pw r))"
  by (cases "Create bc e s un pw r"; cases "fst (Create bc e s un pw r)")
     (auto simp: dead_id_def find_row_snoc[of s] find_row_None dest!: Create_Inr Create_Inl)

lemma Update_dead:
  assumes "store_ok s" "dead_id uid s"
  shows "dead_id uid (snd (Update bc e s i u k))"
proof (cases "Update bc e s i u k")
  case (Pair res s')
  show ?thesis
  proof (cases res)
    case Inl
    with Pair assms show ?thesis using Update_Inl by fastforce
  next
    case (Inr x)
    from Update_InrE[OF Pair[unfolded Inr] store_ok_ids[OF assms(1)]] obtain row where
      s': "s' = s\<lparr>users := map_if (\<lambda>r. u_id r = i) (upd_row bc e u) (users s),
            sessions := (if revokes u row
               then filter (\<lambda>t. \<not> (user_id t = i \<and> token_hash t \<noteq> k)) (sessions s)
               else sessions s)\<rparr>" by blast
    then show ?thesis using Pair assms(2) by (auto simp: dead_id_def find_row_map_if)
  qed
qed

lemma Delete_dead: "dead_id uid s \<Longrightarrow> dead_id uid (snd (Delete e s i))"
  by (cases "Delete e s i"; cases "fst (Delete e s i)")
     (auto simp: dead_id_def delete_user_row_def find_row_None dest!: Delete_None Delete_Some)

lemma session_ops_next [simp]:
  "next_id (snd (CreateSession e s uid ttl)) = next_id s"
  "next_id (snd (DeleteSession e s h)) = next_id s"
  "next_id (snd (PurgeExpiredSessions e s)) = next_id s"
  by (auto simp: CreateSession_def DeleteSession_def PurgeExpiredSessions_def Let_def)

lemma store_exec_dead: "store_ok s \<Longrightarrow> dead_id uid s \<Longrightarrow> dead_id uid (store_exec bc e op s)"
  by (cases op) (simp_all add: Create_dead Update_dead Delete_dead, simp_all add: dead_id_def find_row_def)

interpretation dead: invariant_ops "store_exec bc" "\<lambda>s. store_ok s \<and> dead_id uid s" for bc uid
  by unfold_locales (simp add: store_exec_ok store_exec_dead)

text \<open>C18: once \<open>Delete\<close> has removed an account, no later operation brings its id back and no session,
  old or new, ever resolves to it again.\<close>

theorem deleted_never_returns:
  assumes "store_ok s" and "Delete e s uid = (None, s1)"
  shows "let s2 = foldl (\<lambda>s (e, op). store_exec bc e op s) s1 ops in
     find_row s2 uid = None \<and> (\<forall>t \<in> set (sessions s2). user_id t \<noteq> uid) \<and>
     (\<forall>e' h u. SessionUser e' s2 h = Some u \<longrightarrow> u_id u \<noteq> uid)"
proof -
  define s2 where "s2 = foldl (\<lambda>s (e, op). store_exec bc e op s) s1 ops"
  have ok1: "store_ok s1" using Delete_ok[OF assms(1), of e uid] assms(2) by simp
  from Delete_None[OF assms(2)] obtain row where
    row: "find_row s uid = Some row" "s1 = delete_user_row uid s" by blast
  then have "dead_id uid s1"
    using find_row_mem[OF row(1)] assms(1)
    by (auto simp: dead_id_def find_row_None delete_user_row_def store_ok_def)
  with ok1 have "store_ok s2 \<and> dead_id uid s2"
    unfolding s2_def by (intro dead.run_inv) simp
  then have ok: "store_ok s2" and d: "find_row s2 uid = None" by (simp_all add: dead_id_def)
  then have "\<forall>t \<in> set (sessions s2). user_id t \<noteq> uid"
    by (auto simp: store_ok_def find_row_None)
  moreover have "u_id u \<noteq> uid" if "SessionUser e' s2 h = Some u" for e' h u
    using that d unfolding SessionUser_char[OF ok]
    by (metis find_row_mem option.distinct(1) scanUser_simps(1))
  ultimately show ?thesis using d by (simp add: s2_def[symmetric])
qed

lemma ex_delete_viewer: "Delete ex_env ex_store 2 = (None, delete_user_row 2 ex_store)"
  by (simp add: Delete_def query_user_def ex_defs find_row_def RoleAdmin_def)

theorem deleted_never_returns_witness:
  "find_row (store_exec ex_bc ex_env (OpCreateSession 2 Hour) (delete_user_row 2 ex_store)) 2 = None"
  using deleted_never_returns[OF ex_store_ok ex_delete_viewer, of ex_bc "[(ex_env, OpCreateSession 2 Hour)]"]
  by (simp add: Let_def)


end
