(* ===== verification/Limiter.thy ===== *)
theory Limiter
  imports GoTime GoStrings "HOL-Library.Finite_Map"
begin

text \<open>
  The login rate limiter of package \<open>auth\<close> (internal/auth/session.go): a table of failure
  counts keyed by client address and user name. Each method holds the mutex for its whole
  body, so a method is one step on the table.
\<close>

section \<open>Operations\<close>

definition maxLoginFails :: nat where "maxLoginFails = 5"
definition loginWindow :: duration where "loginWindow = 15 * Minute"

record limit_entry =
  le_fails :: nat
  le_first :: time

type_synonym limiter = "(string, limit_entry) fmap"

text \<open>Subtraction of two durations wraps in 64 bits.\<close>

definition d_sub :: "duration \<Rightarrow> duration \<Rightarrow> duration" where
  "d_sub a b = (a - b + 2 ^ 63) mod 2 ^ 64 - 2 ^ 63"

definition blocked :: "time \<Rightarrow> string \<Rightarrow> limiter \<Rightarrow> duration \<times> limiter" where
  "blocked t key l =
     (case fmlookup l key of
        None \<Rightarrow> (0, l)
      | Some e \<Rightarrow>
          if le_fails e < maxLoginFails then (0, l)
          else let left = d_sub loginWindow (t_sub t (le_first e))
               in if left > 0 then (left, l) else (0, fmdrop key l))"

definition fail :: "time \<Rightarrow> string \<Rightarrow> limiter \<Rightarrow> limiter" where
  "fail t key l0 =
     (let l = (if fcard (fmdom l0) > 10000
               then fmfilter (\<lambda>k. case fmlookup l0 k of
                      Some e \<Rightarrow> \<not> t_sub t (le_first e) > loginWindow | None \<Rightarrow> True) l0
               else l0)
      in case fmlookup l key of
           None \<Rightarrow> fmupd key \<lparr>le_fails = 1, le_first = t\<rparr> l
         | Some e \<Rightarrow>
             if t_sub t (le_first e) > loginWindow
             then fmupd key \<lparr>le_fails = 1, le_first = t\<rparr> l
             else fmupd key (e\<lparr>le_fails := le_fails e + 1\<rparr>) l)"

definition reset :: "string \<Rightarrow> limiter \<Rightarrow> limiter" where
  "reset key l = fmdrop key l"

section \<open>Facts\<close>

lemma loginWindow_eq: "loginWindow = 900000000000"
  by (simp add: loginWindow_def)

lemma d_sub_small: "- (2 ^ 63) \<le> a - b \<Longrightarrow> a - b < 2 ^ 63 \<Longrightarrow> d_sub a b = a - b"
  by (simp add: d_sub_def)

text \<open>While the clock has not gone backwards, the time left counts down from the first failure.\<close>

lemma left_eq:
  assumes "f \<le> t"
  shows "d_sub loginWindow (t_sub t f) = loginWindow - min max_dur (t - f)"
proof -
  have "t_sub t f = min max_dur (t - f)" using assms by (simp add: t_sub_def max_dur_def min_dur_def)
  moreover have "d_sub loginWindow x = loginWindow - x" if "0 \<le> x" "x \<le> max_dur" for x
    using that by (intro d_sub_small) (simp_all add: loginWindow_eq max_dur_def)
  ultimately show ?thesis using assms by (simp add: max_dur_def)
qed

lemma left_pos_iff: "f \<le> t \<Longrightarrow> d_sub loginWindow (t_sub t f) > 0 \<longleftrightarrow> t - f < loginWindow"
  by (subst left_eq) (auto simp: loginWindow_eq max_dur_def min_def)

lemma expired_iff: "t_sub t f > loginWindow \<longleftrightarrow> t - f > loginWindow"
  by (rule t_sub_gt_iff) (simp_all add: loginWindow_eq max_dur_def)

lemma blocked_fst:
  "fst (blocked t key l) =
     (case fmlookup l key of
        None \<Rightarrow> 0
      | Some e \<Rightarrow> if le_fails e < maxLoginFails then 0
                 else max 0 (d_sub loginWindow (t_sub t (le_first e))))"
  by (auto simp: blocked_def Let_def split: option.splits)

lemma blocked_snd_lookup:
  "fmlookup (snd (blocked t key l)) k =
     (if k = key \<and> fst (blocked t key l) = 0 \<and> (\<exists>e. fmlookup l key = Some e \<and> maxLoginFails \<le> le_fails e)
      then None else fmlookup l k)"
  by (auto simp: blocked_def Let_def split: option.splits)

lemma fail_lookup_same:
  "fmlookup (fail t key l) key =
     Some (case fmlookup l key of
             Some e \<Rightarrow> if t - le_first e > loginWindow then \<lparr>le_fails = 1, le_first = t\<rparr>
                      else e\<lparr>le_fails := le_fails e + 1\<rparr>
           | None \<Rightarrow> \<lparr>le_fails = 1, le_first = t\<rparr>)"
  by (auto simp: fail_def Let_def expired_iff split: option.splits)

lemma fail_lookup_other:
  "k \<noteq> key \<Longrightarrow> fmlookup (fail t key l) k = fmlookup l k
     \<or> (\<exists>e. fmlookup l k = Some e \<and> fmlookup (fail t key l) k = None \<and> t - le_first e > loginWindow)"
  by (auto simp: fail_def Let_def expired_iff split: option.splits)

lemma reset_lookup: "fmlookup (reset key l) k = (if k = key then None else fmlookup l k)"
  by (simp add: reset_def)

text \<open>Every recorded first failure lies in the past.\<close>

definition lim_ok :: "time \<Rightarrow> limiter \<Rightarrow> bool" where
  "lim_ok t l \<longleftrightarrow> (\<forall>k e. fmlookup l k = Some e \<longrightarrow> le_first e \<le> t \<and> 1 \<le> le_fails e)"

lemma lim_ok_empty [simp]: "lim_ok t fmempty"
  by (simp add: lim_ok_def)

lemma lim_ok_mono: "lim_ok t l \<Longrightarrow> t \<le> t' \<Longrightarrow> lim_ok t' l"
  by (force simp: lim_ok_def)

lemma lim_ok_blocked: "lim_ok t l \<Longrightarrow> lim_ok t (snd (blocked t' key l))"
  by (auto simp: lim_ok_def blocked_snd_lookup split: if_splits)

lemma lim_ok_reset: "lim_ok t l \<Longrightarrow> lim_ok t (reset key l)"
  by (auto simp: lim_ok_def reset_lookup split: if_splits)

lemma lim_ok_fail:
  assumes "lim_ok t l" shows "lim_ok t (fail t key l)"
  unfolding lim_ok_def
proof (intro allI impI)
  fix k e assume a: "fmlookup (fail t key l) k = Some e"
  show "le_first e \<le> t \<and> 1 \<le> le_fails e"
  proof (cases "k = key")
    case True
    with a assms show ?thesis
      by (auto simp: fail_lookup_same lim_ok_def split: option.splits if_splits)
  next
    case False
    with a fail_lookup_other[OF False, of t l] assms show ?thesis by (auto simp: lim_ok_def)
  qed
qed

section \<open>What the limiter guarantees\<close>

text \<open>failures of one key never block or unblock another: clearing stale entries when the table is
  large changes no later answer of \<open>blocked\<close>, and neither do \<open>blocked\<close> and \<open>reset\<close> of other keys.\<close>

theorem limiter_isolation:
  assumes "k \<noteq> key" and "lim_ok t l" and "t \<le> t'"
  shows "fst (blocked t' k (fail t key l)) = fst (blocked t' k l)
       \<and> fst (blocked t' k (reset key l)) = fst (blocked t' k l)
       \<and> fst (blocked t' k (snd (blocked t key l))) = fst (blocked t' k l)"
proof -
  have "fst (blocked t' k (fail t key l)) = fst (blocked t' k l)"
  proof (cases "fmlookup (fail t key l) k = fmlookup l k")
    case True
    then show ?thesis by (simp add: blocked_fst)
  next
    case False
    with fail_lookup_other[OF assms(1), of t l] obtain e where
      e: "fmlookup l k = Some e" "fmlookup (fail t key l) k = None" "t - le_first e > loginWindow" by auto
    with assms(2,3) have "le_first e \<le> t'" "\<not> t' - le_first e < loginWindow"
      by (force simp: lim_ok_def)+
    then have "\<not> d_sub loginWindow (t_sub t' (le_first e)) > 0" by (simp add: left_pos_iff)
    with e show ?thesis by (simp add: blocked_fst)
  qed
  then show ?thesis
    using assms(1) by (simp add: blocked_fst reset_lookup blocked_snd_lookup)
qed

theorem limiter_isolation_witness:
  "fst (blocked 7 ''b'' (fail 5 ''a'' fmempty)) = 0"
  using limiter_isolation[of "''b''" "''a''" 5 fmempty 7] by (simp add: blocked_def)

text \<open>How many failures are recorded for a key.\<close>

definition count_of :: "string \<Rightarrow> limiter \<Rightarrow> nat" where
  "count_of key l = (case fmlookup l key of None \<Rightarrow> 0 | Some e \<Rightarrow> le_fails e)"

text \<open>The state of one key inside one window that began at or after \<open>t0\<close>.\<close>

definition in_window :: "string \<Rightarrow> time \<Rightarrow> limiter \<Rightarrow> bool" where
  "in_window key t0 l \<longleftrightarrow> (\<forall>e. fmlookup l key = Some e \<longrightarrow> t0 \<le> le_first e)"

lemma blocked_zero_step:
  assumes "in_window key t0 l" "lim_ok t l" "t < t0 + loginWindow" "fst (blocked t k l) = 0"
  shows "snd (blocked t k l) = l \<or> k \<noteq> key"
    and "k = key \<Longrightarrow> count_of key l < maxLoginFails"
proof -
  have "le_fails e < maxLoginFails" if "k = key" "fmlookup l key = Some e" for e
  proof (rule ccontr)
    assume n: "\<not> le_fails e < maxLoginFails"
    from that assms(1,2) have f: "t0 \<le> le_first e" "le_first e \<le> t" by (auto simp: in_window_def lim_ok_def)
    with assms(3) have "d_sub loginWindow (t_sub t (le_first e)) > 0" by (simp add: left_pos_iff)
    with n that assms(4) show False by (simp add: blocked_fst)
  qed
  then show "snd (blocked t k l) = l \<or> k \<noteq> key" "k = key \<Longrightarrow> count_of key l < maxLoginFails"
    by (auto simp: blocked_def count_of_def maxLoginFails_def split: option.splits)
qed

lemma fail_count_same:
  assumes "in_window key t0 l" "t < t0 + loginWindow"
  shows "count_of key (fail t key l) = count_of key l + 1"
  using assms by (auto simp: count_of_def fail_lookup_same in_window_def split: option.splits)

lemma other_step:
  assumes "k \<noteq> key" "in_window key t0 l" "t < t0 + loginWindow"
  shows "count_of key (fail t k l) = count_of key l" and "in_window key t0 (fail t k l)"
  using fail_lookup_other[of key k t l] assms by (auto simp: count_of_def in_window_def)

lemma in_window_fail:
  "in_window key t0 l \<Longrightarrow> t0 \<le> t \<Longrightarrow> in_window key t0 (fail t key l)"
  by (auto simp: in_window_def fail_lookup_same split: option.splits if_splits)

lemma in_window_blocked: "in_window key t0 l \<Longrightarrow> in_window key t0 (snd (blocked t k l))"
  by (auto simp: in_window_def blocked_snd_lookup split: if_splits)

lemma count_blocked_other: "k \<noteq> key \<Longrightarrow> count_of key (snd (blocked t k l)) = count_of key l"
  by (simp add: count_of_def blocked_snd_lookup)

lemma blocked_pos_same: "fst (blocked t k l) > 0 \<Longrightarrow> snd (blocked t k l) = l"
  by (auto simp: blocked_def Let_def split: option.splits if_splits)

text \<open>five failures of a key within the window block it, and the block ends 15 minutes after the
  first of them: the time reported left is what remains of the window, then the entry is dropped.\<close>

theorem five_failures_block:
  assumes "fmlookup l key = None" and "lim_ok t1 l"
    and "t1 \<le> t2" "t2 \<le> t3" "t3 \<le> t4" "t4 \<le> t5" "t5 - t1 \<le> loginWindow" "t5 \<le> t"
  defines "l5 \<equiv> fail t5 key (fail t4 key (fail t3 key (fail t2 key (fail t1 key l))))"
  shows "fst (blocked t key l5) = max 0 (t1 + loginWindow - t)
       \<and> (t1 + loginWindow \<le> t \<longrightarrow> fmlookup (snd (blocked t key l5)) key = None)"
proof -
  have "fmlookup l5 key = Some \<lparr>le_fails = 5, le_first = t1\<rparr>"
    using assms(1,3-7) unfolding l5_def by (simp add: fail_lookup_same)
  moreover have "d_sub loginWindow (t_sub t t1) = loginWindow - min max_dur (t - t1)"
    using assms by (intro left_eq) linarith
  ultimately show ?thesis
    by (auto simp: blocked_fst blocked_snd_lookup maxLoginFails_def loginWindow_eq max_dur_def min_def)
qed

text \<open>The fifth failure 14 min 59 s after the first one blocks for a single second.\<close>

theorem five_failures_block_witness:
  "fst (blocked 899000000000 ''k''
     (fail 899000000000 ''k'' (fail 3 ''k'' (fail 2 ''k'' (fail 1 ''k'' (fail 0 ''k'' fmempty)))))) = 1000000000"
  using five_failures_block[of fmempty "''k''" 0 1 2 3 899000000000 899000000000]
  by (simp add: loginWindow_eq)

end
