(* ===== verification/Http.thy ===== *)
theory Http
  imports UsersProps Limiter
begin

text \<open>
  Requests, responses and the request helpers the handlers of packages \<open>auth\<close> and \<open>api\<close>
  share. \<open>net/http\<close> and the parsers in front of the handlers deliver: the method, the clean
  unescaped path, the header fields the code reads, the value of the session cookie, the host of
  the \<open>Origin\<close> header as \<open>url.Parse\<close> gives it, and the first JSON value of the body (\<open>None\<close> when
  there is none within the 4096 bytes \<open>MaxBytesReader\<close> allows). Decoding that value into the
  handler's struct is modelled.
\<close>

section \<open>JSON values and decoding into struct fields\<close>

datatype json =
  JNull | JBool bool | JNum string | JStr string | JArr "json list" | JObj "(string \<times> json) list"

text \<open>
  A decoder handles one named field: it returns the updated struct, or \<open>None\<close> for a value of the
  wrong type. Field names match up to letter case, unknown fields are skipped, later fields win,
  and any type error makes \<open>Decode\<close> report an error. \<open>null\<close> leaves a plain field alone.
\<close>

fun decode_fields :: "(string \<Rightarrow> json \<Rightarrow> 's \<Rightarrow> 's option) \<Rightarrow> (string \<times> json) list \<Rightarrow> 's \<Rightarrow> 's option" where
  "decode_fields f [] s = Some s"
| "decode_fields f ((k, v) # kvs) s =
     (case f (ToLower k) v s of None \<Rightarrow> None | Some s' \<Rightarrow> decode_fields f kvs s')"

fun decode_struct :: "(string \<Rightarrow> json \<Rightarrow> 's \<Rightarrow> 's option) \<Rightarrow> 's \<Rightarrow> json option \<Rightarrow> 's option" where
  "decode_struct f z (Some (JObj kvs)) = decode_fields f kvs z"
| "decode_struct f z (Some JNull) = Some z"
| "decode_struct f z _ = None"

fun as_string :: "string \<Rightarrow> json \<Rightarrow> string option" where
  "as_string old (JStr t) = Some t"
| "as_string old JNull = Some old"
| "as_string old _ = None"

fun as_string_ptr :: "json \<Rightarrow> string option option" where
  "as_string_ptr (JStr t) = Some (Some t)"
| "as_string_ptr JNull = Some None"
| "as_string_ptr _ = None"

fun as_bool_ptr :: "json \<Rightarrow> bool option option" where
  "as_bool_ptr (JBool b) = Some (Some b)"
| "as_bool_ptr JNull = Some None"
| "as_bool_ptr _ = None"

section \<open>Requests and responses\<close>

record request =
  r_method :: string
  r_path :: string
  r_host :: string
  r_origin :: string
  r_origin_host :: "string option"
  r_cookie :: "string option"
  r_remote :: string
  r_forwarded_proto :: string
  r_tls :: bool
  r_body :: "json option"
  r_basic :: "(string \<times> string) option"

datatype set_cookie =
  NoCookie
| SetSession string time bool
| ClearSession bool

datatype body =
  BEmpty
| BError string
| BStoreErr store_err
| BUser user
| BUsers "user list"
| BMe string "user option"
| BMeBasic string "string option"
| BPage string

record response =
  status :: nat
  cookie :: set_cookie
  location :: string
  retry_after :: int
  challenge :: bool
  resp_body :: body

definition resp :: "nat \<Rightarrow> body \<Rightarrow> response" where
  "resp st b = \<lparr>status = st, cookie = NoCookie, location = [], retry_after = 0, challenge = False, resp_body = b\<rparr>"

text \<open>Messages with characters outside ASCII are written with their UTF-8 bytes.\<close>

definition msg_origin :: string where "msg_origin = ''origen no permitido''"
definition msg_session :: string where
  "msg_session = ''sesi'' @ [CHR 0xC3, CHR 0xB3] @ ''n requerida''"
definition msg_admin :: string where "msg_admin = ''solo para administradores''"
definition msg_bad_request :: string where
  "msg_bad_request = ''petici'' @ [CHR 0xC3, CHR 0xB3] @ ''n inv'' @ [CHR 0xC3, CHR 0xA1] @ ''lida''"
definition msg_too_many :: string where
  "msg_too_many = ''demasiados intentos, prob'' @ [CHR 0xC3, CHR 0xA1] @ '' de nuevo en unos minutos''"
definition msg_bad_login :: string where
  "msg_bad_login = ''usuario o contrase'' @ [CHR 0xC3, CHR 0xB1] @ ''a incorrectos''"

definition msg_no_login :: string where
  "msg_no_login = ''no se pudo iniciar sesi'' @ [CHR 0xC3, CHR 0xB3] @ ''n''"
definition msg_wrong_current :: string where
  "msg_wrong_current = ''la contrase'' @ [CHR 0xC3, CHR 0xB1] @ ''a actual no es correcta''"
definition msg_no_change :: string where
  "msg_no_change = ''no se pudo cambiar la contrase'' @ [CHR 0xC3, CHR 0xB1] @ ''a''"
definition msg_self_harm :: string where
  "msg_self_harm = ''no pod'' @ [CHR 0xC3, CHR 0xA9]
     @ ''s quitarte el rol de admin ni desactivarte a vos mismo''"
definition msg_self_delete :: string where
  "msg_self_delete = ''no pod'' @ [CHR 0xC3, CHR 0xA9] @ ''s eliminar tu propio usuario''"
definition msg_bad_id :: string where
  "msg_bad_id = ''id inv'' @ [CHR 0xC3, CHR 0xA1] @ ''lido''"

definition writeError :: "nat \<Rightarrow> string \<Rightarrow> response" where
  "writeError st msg = resp st (BError msg)"

section \<open>Request helpers\<close>

definition sameOrigin :: "request \<Rightarrow> bool" where
  "sameOrigin r =
     (if r_method r = ''GET'' \<or> r_method r = ''HEAD'' \<or> r_method r = ''OPTIONS'' then True
      else if r_origin r = [] then True
      else case r_origin_host r of None \<Rightarrow> False | Some h \<Rightarrow> h = r_host r)"

definition isHTTPS :: "request \<Rightarrow> bool" where
  "isHTTPS r = (r_tls r \<or> ToLower (r_forwarded_proto r) = ''https'')"

fun index_of :: "char \<Rightarrow> string \<Rightarrow> nat option" where
  "index_of c [] = None"
| "index_of c (x # xs) = (if x = c then Some 0 else map_option Suc (index_of c xs))"

fun last_index :: "char \<Rightarrow> string \<Rightarrow> nat option" where
  "last_index c [] = None"
| "last_index c (x # xs) =
     (case last_index c xs of Some i \<Rightarrow> Some (Suc i) | None \<Rightarrow> if x = c then Some 0 else None)"

text \<open>The host part of \<open>net.SplitHostPort\<close>, \<open>None\<close> for any of its errors.\<close>

definition SplitHostPort :: "string \<Rightarrow> string option" where
  "SplitHostPort hp =
     (case last_index CHR '':'' hp of
        None \<Rightarrow> None
      | Some i \<Rightarrow>
          if hp \<noteq> [] \<and> hd hp = CHR ''['' then
            (case index_of CHR '']'' hp of
               None \<Rightarrow> None
             | Some en \<Rightarrow>
                 if en + 1 \<noteq> i then None
                 else if CHR ''['' \<in> set (drop 1 hp) \<or> CHR '']'' \<in> set (drop (en + 1) hp) then None
                 else Some (take (en - 1) (drop 1 hp)))
          else if CHR '':'' \<in> set (take i hp) then None
          else if CHR ''['' \<in> set hp \<or> CHR '']'' \<in> set hp then None
          else Some (take i hp))"

definition clientIP :: "request \<Rightarrow> string" where
  "clientIP r = (case SplitHostPort (r_remote r) of None \<Rightarrow> r_remote r | Some h \<Rightarrow> h)"

section \<open>Facts\<close>

lemma resp_simps [simp]:
  "status (resp st b) = st" "cookie (resp st b) = NoCookie" "resp_body (resp st b) = b"
  "location (resp st b) = []" "retry_after (resp st b) = 0"
  by (simp_all add: resp_def)

lemma writeError_simps [simp]:
  "status (writeError st m) = st" "cookie (writeError st m) = NoCookie"
  "resp_body (writeError st m) = BError m"
  by (simp_all add: writeError_def)

end
