(* ===== verification/Session.thy ===== *)
theory Session
  imports Http
begin

text \<open>
  Package \<open>auth\<close>: the session middleware, the login, logout and password handlers
  (internal/auth/session.go) and the basic-auth wrapper (internal/auth/basicauth.go). A handler
  takes the request and the server's state (account store and limiter) to a response and the new
  state. What the handler reads from outside is a sequence of environments, one per call it makes,
  so the clock may move and faults may differ between the calls of one request.
\<close>

section \<open>State\<close>

record server =
  srv_store :: store
  srv_limiter :: limiter

type_synonym renv = "nat \<Rightarrow> env"

text \<open>The \<open>current\<close> value the middleware puts in the request's context: user and token hash.\<close>

type_synonym ctx = "(user \<times> string) option"

type_synonym handler = "ctx \<Rightarrow> request \<Rightarrow> server \<Rightarrow> response \<times> server"

definition sessionTTL :: duration where "sessionTTL = 7 * 24 * Hour"

text \<open>The limiter starts empty. The goroutine \<open>NewSession\<close> starts runs \<open>PurgeExpiredSessions\<close> every hour and only logs its error.\<close>

definition NewSession :: "store \<Rightarrow> server" where
  "NewSession st = \<lparr>srv_store = st, srv_limiter = fmempty\<rparr>"

definition purge_tick :: "env \<Rightarrow> server \<Rightarrow> server" where
  "purge_tick e srv = srv\<lparr>srv_store := snd (PurgeExpiredSessions e (srv_store srv))\<rparr>"

definition zero_user :: user where
  "zero_user = \<lparr>u_id = 0, u_name = [], u_role = [], u_active = False, u_created = -62135596800000000000\<rparr>"

definition CurrentUser :: "ctx \<Rightarrow> user \<times> bool" where
  "CurrentUser c = (case c of None \<Rightarrow> (zero_user, False) | Some (u, h) \<Rightarrow> (u, True))"

definition CurrentSession :: "ctx \<Rightarrow> string" where
  "CurrentSession c = (case c of None \<Rightarrow> [] | Some (u, h) \<Rightarrow> h)"

section \<open>Middleware\<close>

definition publicPaths :: "string \<Rightarrow> bool" where
  "publicPaths p = (p = ''/login.html'' \<or> p = ''/api/auth/login'')"

definition deny :: "request \<Rightarrow> response" where
  "deny r =
     (if has_prefix (r_path r) ''/api/'' then writeError 401 msg_session
      else (resp 302 BEmpty)\<lparr>location := ''/login.html''\<rparr>)"

definition Middleware :: "env \<Rightarrow> handler \<Rightarrow> request \<Rightarrow> server \<Rightarrow> response \<times> server" where
  "Middleware e nxt r srv =
     (if \<not> sameOrigin r then (writeError 403 msg_origin, srv)
      else if publicPaths (r_path r) then nxt None r srv
      else case r_cookie r of
        None \<Rightarrow> (deny r, srv)
      | Some v \<Rightarrow>
          let h = HashToken v in
          case SessionUser e (srv_store srv) h of
            None \<Rightarrow> (deny r, srv)
          | Some u \<Rightarrow> nxt (Some (u, h)) r srv)"

definition RequireAdmin :: "handler \<Rightarrow> handler" where
  "RequireAdmin h c r srv =
     (let (u, ok) = CurrentUser c
      in if \<not> ok \<or> u_role u \<noteq> RoleAdmin then (writeError 403 msg_admin, srv) else h c r srv)"

section \<open>Handlers\<close>

record login_body =
  lb_username :: string
  lb_password :: string

definition login_field :: "string \<Rightarrow> json \<Rightarrow> login_body \<Rightarrow> login_body option" where
  "login_field k v b =
     (if k = ''username'' then map_option (\<lambda>t. b\<lparr>lb_username := t\<rparr>) (as_string (lb_username b) v)
      else if k = ''password'' then map_option (\<lambda>t. b\<lparr>lb_password := t\<rparr>) (as_string (lb_password b) v)
      else Some b)"

definition login_key :: "request \<Rightarrow> string \<Rightarrow> string" where
  "login_key r username = clientIP r @ ''|'' @ ToLower username"

definition login :: "bcrypt \<Rightarrow> renv \<Rightarrow> handler" where
  "login bc re c r srv =
     (case decode_struct login_field \<lparr>lb_username = [], lb_password = []\<rparr> (r_body r) of
        None \<Rightarrow> (writeError 400 msg_bad_request, srv)
      | Some b \<Rightarrow>
        let key = login_key r (lb_username b);
            (wait, lim) = blocked (now (re 1)) key (srv_limiter srv);
            srv = srv\<lparr>srv_limiter := lim\<rparr>
        in if wait > 0 then
             ((writeError 429 msg_too_many)\<lparr>retry_after := f_trunc (seconds wait) + 1\<rparr>, srv)
           else case Authenticate bc (re 2) (srv_store srv) (lb_username b) (lb_password b) of
             None \<Rightarrow> (writeError 401 msg_bad_login,
                      srv\<lparr>srv_limiter := fail (now (re 3)) key (srv_limiter srv)\<rparr>)
           | Some u \<Rightarrow>
               let srv = srv\<lparr>srv_limiter := reset key (srv_limiter srv)\<rparr>
               in case CreateSession (re 4) (srv_store srv) (u_id u) sessionTTL of
                    (Inl er, st) \<Rightarrow> (writeError 500 msg_no_login, srv\<lparr>srv_store := st\<rparr>)
                  | (Inr (token, expires), st) \<Rightarrow>
                      ((resp 200 (BMe ''session'' (Some u)))\<lparr>cookie := SetSession token expires (isHTTPS r)\<rparr>,
                       srv\<lparr>srv_store := st\<rparr>))"

definition logout :: "renv \<Rightarrow> handler" where
  "logout re c r srv =
     ((resp 204 BEmpty)\<lparr>cookie := ClearSession (isHTTPS r)\<rparr>,
      srv\<lparr>srv_store := snd (DeleteSession (re 1) (srv_store srv) (CurrentSession c))\<rparr>)"

definition me :: handler where
  "me c r srv = (resp 200 (BMe ''session'' (Some (fst (CurrentUser c)))), srv)"

record password_body =
  pb_current :: string
  pb_new :: string

definition password_field :: "string \<Rightarrow> json \<Rightarrow> password_body \<Rightarrow> password_body option" where
  "password_field k v b =
     (if k = ''current_password'' then map_option (\<lambda>t. b\<lparr>pb_current := t\<rparr>) (as_string (pb_current b) v)
      else if k = ''new_password'' then map_option (\<lambda>t. b\<lparr>pb_new := t\<rparr>) (as_string (pb_new b) v)
      else Some b)"

definition only_password :: "string \<Rightarrow> upd" where
  "only_password pw = \<lparr>upd_role = None, upd_active = None, upd_password = Some pw\<rparr>"

definition changePassword :: "bcrypt \<Rightarrow> renv \<Rightarrow> handler" where
  "changePassword bc re c r srv =
     (let u = fst (CurrentUser c) in
      case decode_struct password_field \<lparr>pb_current = [], pb_new = []\<rparr> (r_body r) of
        None \<Rightarrow> (writeError 400 msg_bad_request, srv)
      | Some b \<Rightarrow>
        if \<not> VerifyPassword bc (re 1) (srv_store srv) (u_id u) (pb_current b)
        then (writeError 401 msg_wrong_current, srv)
        else case Update bc (re 2) (srv_store srv) (u_id u) (only_password (pb_new b)) (CurrentSession c) of
          (Inl ErrBadPassword, st) \<Rightarrow> (resp 400 (BStoreErr ErrBadPassword), srv\<lparr>srv_store := st\<rparr>)
        | (Inl er, st) \<Rightarrow> (writeError 500 msg_no_change, srv\<lparr>srv_store := st\<rparr>)
        | (Inr x, st) \<Rightarrow> (resp 204 BEmpty, srv\<lparr>srv_store := st\<rparr>))"

section \<open>The modes without sessions\<close>

definition ModeInfo :: "string \<Rightarrow> request \<Rightarrow> response" where
  "ModeInfo mode r =
     resp 200 (BMeBasic mode
       (case r_basic r of Some (name, _) \<Rightarrow> if mode = ''basic'' then Some name else None | None \<Rightarrow> None))"

definition BasicAuth :: "string \<Rightarrow> string \<Rightarrow> (request \<Rightarrow> response) \<Rightarrow> request \<Rightarrow> response" where
  "BasicAuth user password nxt r =
     (let (reqUser, reqPass, ok) = (case r_basic r of Some (u, p) \<Rightarrow> (u, p, True) | None \<Rightarrow> ([], [], False));
          userMatch = (reqUser = user); passMatch = (reqPass = password)
      in if \<not> ok \<or> \<not> userMatch \<or> \<not> passMatch
         then (resp 401 (BError ''Unauthorized''))\<lparr>challenge := True\<rparr>
         else nxt r)"

end
