(* ===== verification/UsersApi.thy ===== *)
theory UsersApi
  imports Session
begin

text \<open>
  The admin-only account endpoints (internal/api/handler_users.go) and the routing table of
  the session mode: which handler the mux picks for a method and a path.
\<close>

section \<open>Handlers\<close>

definition writeStoreErr :: "store_err \<Rightarrow> response" where
  "writeStoreErr er =
     (case er of
        ErrNotFound \<Rightarrow> resp 404 (BStoreErr er)
      | ErrUsernameTaken \<Rightarrow> resp 409 (BStoreErr er)
      | ErrLastAdmin \<Rightarrow> resp 409 (BStoreErr er)
      | ErrBadUsername \<Rightarrow> resp 400 (BStoreErr er)
      | ErrBadPassword \<Rightarrow> resp 400 (BStoreErr er)
      | ErrBadRole \<Rightarrow> resp 400 (BStoreErr er)
      | ErrDB \<Rightarrow> writeError 500 ''error interno'')"

definition pathID :: "string \<Rightarrow> int option" where
  "pathID s = (case ParseInt64 s of (n, None) \<Rightarrow> Some n | (n, Some er) \<Rightarrow> None)"

definition api_list :: "renv \<Rightarrow> handler" where
  "api_list re c r srv =
     (case List_users (re 1) (srv_store srv) of
        Inl er \<Rightarrow> (writeError 500 ''no se pudo listar usuarios'', srv)
      | Inr us \<Rightarrow> (resp 200 (BUsers us), srv))"

record create_body =
  cb_username :: string
  cb_password :: string
  cb_role :: string

definition create_field :: "string \<Rightarrow> json \<Rightarrow> create_body \<Rightarrow> create_body option" where
  "create_field k v b =
     (if k = ''username'' then map_option (\<lambda>t. b\<lparr>cb_username := t\<rparr>) (as_string (cb_username b) v)
      else if k = ''password'' then map_option (\<lambda>t. b\<lparr>cb_password := t\<rparr>) (as_string (cb_password b) v)
      else if k = ''role'' then map_option (\<lambda>t. b\<lparr>cb_role := t\<rparr>) (as_string (cb_role b) v)
      else Some b)"

definition api_create :: "bcrypt \<Rightarrow> renv \<Rightarrow> handler" where
  "api_create bc re c r srv =
     (case decode_struct create_field \<lparr>cb_username = [], cb_password = [], cb_role = []\<rparr> (r_body r) of
        None \<Rightarrow> (writeError 400 msg_bad_request, srv)
      | Some b \<Rightarrow>
        (case Create bc (re 1) (srv_store srv) (cb_username b) (cb_password b) (cb_role b) of
           (Inl er, st) \<Rightarrow> (writeStoreErr er, srv\<lparr>srv_store := st\<rparr>)
         | (Inr u, st) \<Rightarrow> (resp 201 (BUser u), srv\<lparr>srv_store := st\<rparr>)))"

definition update_field :: "string \<Rightarrow> json \<Rightarrow> upd \<Rightarrow> upd option" where
  "update_field k v b =
     (if k = ''role'' then map_option (\<lambda>t. b\<lparr>upd_role := t\<rparr>) (as_string_ptr v)
      else if k = ''active'' then map_option (\<lambda>t. b\<lparr>upd_active := t\<rparr>) (as_bool_ptr v)
      else if k = ''password'' then map_option (\<lambda>t. b\<lparr>upd_password := t\<rparr>) (as_string_ptr v)
      else Some b)"

definition no_upd :: upd where
  "no_upd = \<lparr>upd_role = None, upd_active = None, upd_password = None\<rparr>"

definition self_harm :: "upd \<Rightarrow> bool" where
  "self_harm b = ((case upd_role b of Some r \<Rightarrow> r \<noteq> RoleAdmin | None \<Rightarrow> False)
                \<or> (case upd_active b of Some a \<Rightarrow> \<not> a | None \<Rightarrow> False))"

definition api_update :: "bcrypt \<Rightarrow> renv \<Rightarrow> string \<Rightarrow> handler" where
  "api_update bc re path_id c r srv =
     (case pathID path_id of
        None \<Rightarrow> (writeError 400 msg_bad_id, srv)
      | Some uid \<Rightarrow>
        (case decode_struct update_field no_upd (r_body r) of
           None \<Rightarrow> (writeError 400 msg_bad_request, srv)
         | Some b \<Rightarrow>
           let self = fst (CurrentUser c) in
           if uid = u_id self \<and> self_harm b
           then (writeError 400 msg_self_harm, srv)
           else let keep = (if uid = u_id self then CurrentSession c else [])
           in case Update bc (re 1) (srv_store srv) uid b keep of
                (Inl er, st) \<Rightarrow> (writeStoreErr er, srv\<lparr>srv_store := st\<rparr>)
              | (Inr u, st) \<Rightarrow> (resp 200 (BUser u), srv\<lparr>srv_store := st\<rparr>)))"

definition api_delete :: "renv \<Rightarrow> string \<Rightarrow> handler" where
  "api_delete re path_id c r srv =
     (case pathID path_id of
        None \<Rightarrow> (writeError 400 msg_bad_id, srv)
      | Some uid \<Rightarrow>
        if uid = u_id (fst (CurrentUser c))
        then (writeError 400 msg_self_delete, srv)
        else case Delete (re 1) (srv_store srv) uid of
          (Some er, st) \<Rightarrow> (writeStoreErr er, srv\<lparr>srv_store := st\<rparr>)
        | (None, st) \<Rightarrow> (resp 204 BEmpty, srv\<lparr>srv_store := st\<rparr>))"

section \<open>Routing\<close>

datatype route =
  RLogin | RLogout | RMe | RPassword
| RUsersList | RUsersCreate | RUsersUpdate string | RUsersDelete string
| RData string
| RFiles

definition data_paths :: "string list" where
  "data_paths = [''/api/stats'', ''/api/history'', ''/api/host'', ''/api/containers'', ''/api/alarms'',
                 ''/api/uptime/sessions'', ''/api/security/ssh'', ''/api/security/connections'']"

text \<open>The \<open>{id}\<close> wildcard matches one non-empty segment.\<close>

definition id_segment :: "string \<Rightarrow> string option" where
  "id_segment p =
     (if has_prefix p ''/api/users/'' then
        (let s = drop (length ''/api/users/'') p
         in if s \<noteq> [] \<and> CHR ''/'' \<notin> set s then Some s else None)
      else None)"

text \<open>A GET pattern also serves HEAD; what no pattern with a method takes goes to the file server at \<open>/\<close>.\<close>

definition route_of :: "string \<Rightarrow> string \<Rightarrow> route" where
  "route_of m p =
     (if p = ''/api/auth/login'' \<and> m = ''POST'' then RLogin
      else if p = ''/api/auth/logout'' \<and> m = ''POST'' then RLogout
      else if p = ''/api/auth/me'' \<and> (m = ''GET'' \<or> m = ''HEAD'') then RMe
      else if p = ''/api/auth/password'' \<and> m = ''PUT'' then RPassword
      else if p = ''/api/users'' \<and> (m = ''GET'' \<or> m = ''HEAD'') then RUsersList
      else if p = ''/api/users'' \<and> m = ''POST'' then RUsersCreate
      else if m = ''PUT'' \<and> id_segment p \<noteq> None then RUsersUpdate (the (id_segment p))
      else if m = ''DELETE'' \<and> id_segment p \<noteq> None then RUsersDelete (the (id_segment p))
      else if p \<in> set data_paths then RData p
      else RFiles)"

text \<open>
  The mux of the session mode. The dashboard's data endpoints and the file server read no account
  state and change none: \<open>pages\<close> is their response.
\<close>

definition mux :: "bcrypt \<Rightarrow> renv \<Rightarrow> (request \<Rightarrow> response) \<Rightarrow> handler" where
  "mux bc re pages c r srv =
     (case route_of (r_method r) (r_path r) of
        RLogin \<Rightarrow> login bc re c r srv
      | RLogout \<Rightarrow> logout re c r srv
      | RMe \<Rightarrow> me c r srv
      | RPassword \<Rightarrow> changePassword bc re c r srv
      | RUsersList \<Rightarrow> RequireAdmin (api_list re) c r srv
      | RUsersCreate \<Rightarrow> RequireAdmin (api_create bc re) c r srv
      | RUsersUpdate s \<Rightarrow> RequireAdmin (api_update bc re s) c r srv
      | RUsersDelete s \<Rightarrow> RequireAdmin (api_delete re s) c r srv
      | RData p \<Rightarrow> (pages r, srv)
      | RFiles \<Rightarrow> (pages r, srv))"

text \<open>One request to the server: the middleware around the mux.\<close>

definition serve :: "bcrypt \<Rightarrow> renv \<Rightarrow> (request \<Rightarrow> response) \<Rightarrow> request \<Rightarrow> server \<Rightarrow> response \<times> server" where
  "serve bc re pages r srv = Middleware (re 0) (mux bc re pages) r srv"

end
