(* ===== verification/ServerProps.thy ===== *)
theory ServerProps
  imports UsersApi
begin

text \<open>
  Properties of the whole session-mode server: what any request can change and on whose
  authority, the invariant under arbitrary traffic, the life of a session cookie, and the rate
  limit as a client sees it.
\<close>

section \<open>Effect of each handler on the accounts\<close>

abbreviation accounts_of :: "server \<Rightarrow> user_row list" where
  "accounts_of srv \<equiv> users (srv_store srv)"

lemma login_accounts [simp]: "accounts_of (snd (login bc re c r srv)) = accounts_of srv"
  using session_ops_users(1)
  by (auto simp: login_def Let_def split: option.splits prod.splits sum.splits)
     (metis server.select_convs(1) server.surjective server.update_convs(1,2) session_ops_users(1) snd_conv)+

lemma logout_accounts [simp]: "accounts_of (snd (logout re c r srv)) = accounts_of srv"
  by (simp add: logout_def)

lemma me_server [simp]: "snd (me c r srv) = srv"
  by (simp add: me_def)

lemma api_list_server [simp]: "snd (api_list re c r srv) = srv"
  by (auto simp: api_list_def split: sum.splits)

lemma RequireAdmin_cases:
  "RequireAdmin h c r srv = h c r srv \<and> (\<exists>u t. c = Some (u, t) \<and> u_role u = RoleAdmin)
   \<or> RequireAdmin h c r srv = (writeError 403 msg_admin, srv)"
  by (auto simp: RequireAdmin_def CurrentUser_def split: option.splits)

text \<open>What a handler does to the store is one store operation or nothing.\<close>

lemma changePassword_store:
  "srv_store (snd (changePassword bc re c r srv)) = srv_store srv \<or>
   (\<exists>pw. srv_store (snd (changePassword bc re c r srv)) =
      snd (Update bc (re 2) (srv_store srv) (u_id (fst (CurrentUser c))) (only_password pw) (CurrentSession c)))"
  by (auto simp: changePassword_def Let_def split: option.splits prod.splits sum.splits store_err.splits)
     (metis snd_conv)+

lemma api_create_store:
  "srv_store (snd (api_create bc re c r srv)) = srv_store srv \<or>
   (\<exists>un pw rl. srv_store (snd (api_create bc re c r srv)) = snd (Create bc (re 1) (srv_store srv) un pw rl))"
  by (auto simp: api_create_def split: option.splits prod.splits sum.splits) (metis snd_conv)+

lemma api_update_store:
  "srv_store (snd (api_update bc re s c r srv)) = srv_store srv \<or>
   (\<exists>uid b k. srv_store (snd (api_update bc re s c r srv)) = snd (Update bc (re 1) (srv_store srv) uid b k)
      \<and> (uid = u_id (fst (CurrentUser c)) \<longrightarrow> \<not> self_harm b))"
proof (cases "pathID s")
  case None
  then show ?thesis by (simp add: api_update_def)
next
  case (Some uid)
  show ?thesis
  proof (cases "decode_struct update_field no_upd (r_body r)")
    case None
    with Some show ?thesis by (simp add: api_update_def)
  next
    case b: (Some b)
    show ?thesis
    proof (cases "uid = u_id (fst (CurrentUser c)) \<and> self_harm b")
      case True
      with Some b show ?thesis by (simp add: api_update_def)
    next
      case False
      let ?k = "if uid = u_id (fst (CurrentUser c)) then CurrentSession c else []"
      have "srv_store (snd (api_update bc re s c r srv)) = snd (Update bc (re 1) (srv_store srv) uid b ?k)"
        unfolding api_update_def Let_def Some b option.case if_not_P[OF False]
        by (simp split: prod.split sum.split)
      with False show ?thesis by blast
    qed
  qed
qed

lemma api_delete_store:
  "srv_store (snd (api_delete re s c r srv)) = srv_store srv \<or>
   (\<exists>uid. srv_store (snd (api_delete re s c r srv)) = snd (Delete (re 1) (srv_store srv) uid)
      \<and> uid \<noteq> u_id (fst (CurrentUser c)))"
  by (auto simp: api_delete_def split: option.splits prod.splits if_splits)

lemma login_store:
  "srv_store (snd (login bc re c r srv)) = srv_store srv \<or>
   (\<exists>uid. srv_store (snd (login bc re c r srv)) = snd (CreateSession (re 4) (srv_store srv) uid sessionTTL))"
  by (auto simp: login_def Let_def split: option.splits prod.splits sum.splits) (metis snd_conv)+

lemma logout_store:
  "srv_store (snd (logout re c r srv)) = snd (DeleteSession (re 1) (srv_store srv) (CurrentSession c))"
  by (simp add: logout_def)

section \<open>The mux as one store operation\<close>

text \<open>
  Every route of the mux leaves the store alone or runs one operation of the store machine; the
  operations that can change accounts need the user in the context they say.
\<close>

definition ctx_admin :: "ctx \<Rightarrow> bool" where
  "ctx_admin c = (\<exists>u t. c = Some (u, t) \<and> u_role u = RoleAdmin)"

fun allowed :: "ctx \<Rightarrow> store_op \<Rightarrow> bool" where
  "allowed c (OpCreate un pw rl) = ctx_admin c"
| "allowed c (OpUpdate uid b k) =
     ((ctx_admin c \<and> (uid = u_id (fst (CurrentUser c)) \<longrightarrow> \<not> self_harm b))
      \<or> (\<exists>pw. b = only_password pw \<and> uid = u_id (fst (CurrentUser c)) \<and> k = CurrentSession c))"
| "allowed c (OpDelete uid) = (ctx_admin c \<and> uid \<noteq> u_id (fst (CurrentUser c)))"
| "allowed c (OpCreateSession uid ttl) = (ttl = sessionTTL)"
| "allowed c (OpDeleteSession h) = (h = CurrentSession c)"
| "allowed c OpPurge = False"

definition one_op :: "bcrypt \<Rightarrow> renv \<Rightarrow> ctx \<Rightarrow> store \<Rightarrow> store \<Rightarrow> bool" where
  "one_op bc re c s s' \<longleftrightarrow> s' = s \<or> (\<exists>n op. s' = store_exec bc (re n) op s \<and> allowed c op)"

lemma one_op_same [simp]: "one_op bc re c s s"
  by (simp add: one_op_def)

lemma one_op_exec: "allowed c op \<Longrightarrow> one_op bc re c s (store_exec bc (re n) op s)"
  by (auto simp: one_op_def)

lemma RequireAdmin_one_op:
  assumes "ctx_admin c \<Longrightarrow> one_op bc re c (srv_store srv) (srv_store (snd (h c r srv)))"
  shows "one_op bc re c (srv_store srv) (srv_store (snd (RequireAdmin h c r srv)))"
  using assms RequireAdmin_cases[of h c r srv] by (auto simp: ctx_admin_def)

lemma mux_store: "one_op bc re c (srv_store srv) (srv_store (snd (mux bc re pages c r srv)))"
proof (cases "route_of (r_method r) (r_path r)")
  case RLogin
  then show ?thesis
    using login_store[of bc re c r srv] one_op_exec[of c "OpCreateSession _ sessionTTL" bc re _ 4]
    by (auto simp: mux_def)
next
  case RLogout
  then show ?thesis
    using one_op_exec[of c "OpDeleteSession (CurrentSession c)" bc re _ 1] by (simp add: mux_def logout_store)
next
  case RPassword
  have "one_op bc re c s (store_exec bc (re 2) (OpUpdate (u_id (fst (CurrentUser c))) (only_password pw) (CurrentSession c)) s)"
    for s pw by (rule one_op_exec) auto
  with RPassword show ?thesis
    using changePassword_store[of bc re c r srv] by (auto simp: mux_def)
next
  case RUsersCreate
  then show ?thesis
    using api_create_store[of bc re c r srv] one_op_exec[of c "OpCreate _ _ _" bc re _ 1]
    by (auto simp: mux_def intro!: RequireAdmin_one_op)
next
  case (RUsersUpdate s)
  have "one_op bc re c (srv_store srv) (srv_store (snd (api_update bc re s c r srv)))" if "ctx_admin c"
    using api_update_store[of bc re s c r srv] that one_op_exec[of c "OpUpdate _ _ _" bc re _ 1] by auto
  with RUsersUpdate show ?thesis by (auto simp: mux_def intro!: RequireAdmin_one_op)
next
  case (RUsersDelete s)
  have "one_op bc re c (srv_store srv) (srv_store (snd (api_delete re s c r srv)))" if "ctx_admin c"
    using api_delete_store[of re s c r srv] that one_op_exec[of c "OpDelete _" bc re _ 1] by auto
  with RUsersDelete show ?thesis by (auto simp: mux_def intro!: RequireAdmin_one_op)
qed (auto simp: mux_def intro!: RequireAdmin_one_op)

section \<open>The middleware\<close>

lemma Middleware_cases:
  obtains "Middleware e nxt r srv = nxt None r srv" "publicPaths (r_path r)" "sameOrigin r"
  | v u where "Middleware e nxt r srv = nxt (Some (u, HashToken v)) r srv" "\<not> publicPaths (r_path r)"
      "sameOrigin r" "r_cookie r = Some v" "SessionUser e (srv_store srv) (HashToken v) = Some u"
  | st where "Middleware e nxt r srv = (st, srv)" "status st \<in> {401, 403, 302}"
      "\<not> sameOrigin r \<or> (\<not> publicPaths (r_path r) \<and>
         (\<forall>v. r_cookie r = Some v \<longrightarrow> SessionUser e (srv_store srv) (HashToken v) = None))"
proof (cases "sameOrigin r")
  case False
  then show ?thesis by (intro that(3)) (auto simp: Middleware_def)
next
  case so: True
  show ?thesis
  proof (cases "publicPaths (r_path r)")
    case True
    with so show ?thesis by (intro that(1)) (auto simp: Middleware_def)
  next
    case pp: False
    show ?thesis
    proof (cases "\<exists>v u. r_cookie r = Some v \<and> SessionUser e (srv_store srv) (HashToken v) = Some u")
      case True
      then obtain v u where vu: "r_cookie r = Some v" "SessionUser e (srv_store srv) (HashToken v) = Some u" by blast
      with so pp show ?thesis by (intro that(2)[of u v]) (simp_all add: Middleware_def)
    next
      case False
      then have "Middleware e nxt r srv = (deny r, srv)"
        using so pp by (auto simp: Middleware_def Let_def split: option.split)
      then show ?thesis
        by (rule that(3)) (use False pp in \<open>auto simp: deny_def\<close>)
    qed
  qed
qed

text \<open>C17: no protected handler runs without a valid session: for a path that is not public, when the
  request's cookie does not resolve to an active user, or the request is cross-origin, the answer
  is 401 (API), 302 to the login page or 403, whatever the handler behind, and nothing changes.\<close>

theorem unauthenticated_refused:
  assumes "\<not> sameOrigin r \<or> (\<not> publicPaths (r_path r) \<and>
     (\<forall>v. r_cookie r = Some v \<longrightarrow> SessionUser e (srv_store srv) (HashToken v) = None))"
  shows "Middleware e nxt r srv =
    (if \<not> sameOrigin r then writeError 403 msg_origin
     else if has_prefix (r_path r) ''/api/'' then writeError 401 msg_session
     else (resp 302 BEmpty)\<lparr>location := ''/login.html''\<rparr>, srv)"
  using assms by (auto simp: Middleware_def Let_def deny_def split: option.splits)

definition ex_srv :: server where
  "ex_srv = \<lparr>srv_store = ex_store, srv_limiter = fmempty\<rparr>"

definition ex_req :: request where
  "ex_req = \<lparr>r_method = ''GET'', r_path = ''/api/users'', r_host = ''h'', r_origin = [], r_origin_host = None,
     r_cookie = None, r_remote = ''1.2.3.4:55'', r_forwarded_proto = [], r_tls = False, r_body = None,
     r_basic = None\<rparr>"

theorem unauthenticated_refused_witness:
  "status (fst (Middleware ex_env (\<lambda>c r s. (resp 200 BEmpty, s)) ex_req ex_srv)) = 401"
  using unauthenticated_refused[of ex_req ex_env ex_srv "\<lambda>c r s. (resp 200 BEmpty, s)"]
  by (simp add: ex_req_def publicPaths_def sameOrigin_def has_prefix_def)

lemma serve_store:
  "srv_store (snd (serve bc re pages r srv)) = srv_store srv \<or>
   (\<exists>n op. srv_store (snd (serve bc re pages r srv)) = store_exec bc (re n) op (srv_store srv) \<and>
      (allowed None op \<and> publicPaths (r_path r) \<or>
       (\<exists>v u. sameOrigin r \<and> r_cookie r = Some v \<and>
          SessionUser (re 0) (srv_store srv) (HashToken v) = Some u \<and> allowed (Some (u, HashToken v)) op)))"
  unfolding serve_def
  by (rule Middleware_cases[of "re 0" "mux bc re pages" r srv])
     (use mux_store[of bc re _ srv pages r] in \<open>auto simp: one_op_def\<close>)

lemma login_page_route: "route_of m ''/login.html'' = RFiles"
  unfolding route_of_def id_segment_def by (simp add: has_prefix_def data_paths_def)

lemma login_path_route: "route_of m ''/api/auth/login'' \<in> {RLogin, RFiles}"
  unfolding route_of_def id_segment_def by (simp add: has_prefix_def data_paths_def)

lemma public_route:
  assumes "publicPaths p" shows "route_of m p \<in> {RLogin, RFiles}"
  using assms login_page_route[of m] login_path_route[of m] unfolding publicPaths_def
  by (elim disjE) simp_all

lemma public_store:
  assumes "publicPaths (r_path r)"
  shows "users (srv_store (snd (mux bc re pages None r srv))) = users (srv_store srv)"
  using public_route[OF assms, of "r_method r"] by (auto simp: mux_def)

section \<open>The server's invariant\<close>

definition server_ok :: "server \<Rightarrow> bool" where
  "server_ok srv \<longleftrightarrow> store_ok (srv_store srv) \<and> has_admin (srv_store srv)"

lemma serve_ok: "server_ok srv \<Longrightarrow> server_ok (snd (serve bc re pages r srv))"
  using serve_store[of bc re pages r srv] by (auto simp: server_ok_def store_exec_ok store_exec_admin)

interpretation web: invariant_ops "\<lambda>(re, pages) r srv. snd (serve bc re pages r srv)" server_ok for bc
  by unfold_locales (auto intro: serve_ok)

text \<open>under any traffic - any sequence of requests, by anyone, with any clock and any driver faults -
  the account store stays well formed and always keeps an active admin.\<close>

theorem traffic_keeps_admin:
  assumes "store_ok (srv_store srv)" and "has_admin (srv_store srv)"
  shows "let srv' = foldl (\<lambda>srv (e, r). snd (serve bc (fst e) (snd e) r srv)) srv traffic in
     store_ok (srv_store srv') \<and>
     (\<exists>r \<in> set (users (srv_store srv')). u_role r = ''admin'' \<and> u_active r)"
proof -
  have "server_ok srv" using assms by (simp add: server_ok_def)
  from web.run_inv[OF this, of bc traffic] show ?thesis
    by (simp add: Let_def server_ok_def has_admin_def is_active_admin_def RoleAdmin_def split_def)
qed

lemma ex_srv_store [simp]: "srv_store ex_srv = ex_store"
  by (simp add: ex_srv_def)

theorem traffic_keeps_admin_witness:
  "\<exists>r \<in> set (users (srv_store (snd (serve ex_bc (\<lambda>_. ex_env) (\<lambda>_. resp 200 BEmpty) ex_req ex_srv)))).
     u_role r = ''admin'' \<and> u_active r"
  using traffic_keeps_admin[of ex_srv ex_bc "[((\<lambda>_. ex_env, \<lambda>_. resp 200 BEmpty), ex_req)]",
      unfolded ex_srv_store, OF ex_store_ok ex_has_admin]
  unfolding Let_def foldl.simps prod.case fst_conv snd_conv by (elim conjE)

section \<open>Who can change accounts\<close>

lemma allowed_only_password:
  assumes "store_ok s" "allowed c op" "\<not> ctx_admin c" "users (store_exec bc e op s) \<noteq> users s"
  shows "\<exists>h. users (store_exec bc e op s) =
    map_if (\<lambda>r. u_id r = u_id (fst (CurrentUser c))) (\<lambda>r. r\<lparr>password_hash := h\<rparr>) (users s)"
proof -
  from assms(2-4) obtain pw where
    op: "op = OpUpdate (u_id (fst (CurrentUser c))) (only_password pw) (CurrentSession c)"
    by (cases op) auto
  let ?i = "u_id (fst (CurrentUser c))"
  obtain res s' where u: "Update bc e s ?i (only_password pw) (CurrentSession c) = (res, s')" by force
  show ?thesis
  proof (cases res)
    case Inl
    with u assms(4) op Update_Inl show ?thesis by fastforce
  next
    case (Inr x)
    have "upd_row bc e (only_password pw) = (\<lambda>r. r\<lparr>password_hash := bgen bc (salt e) pw\<rparr>)"
      by (rule ext) (simp add: upd_row_def only_password_def)
    moreover have "users s' = map_if (\<lambda>r. u_id r = ?i) (upd_row bc e (only_password pw)) (users s)"
      by (rule Update_InrE[OF u[unfolded Inr] store_ok_ids[OF assms(1)]]) simp
    ultimately show ?thesis using op u by auto
  qed
qed

text \<open>C1: accounts change only on authority: a request that changes the table of users was same-origin
  and carried the cookie of a live session; its user is an active admin, or the only change is that
  user's own password hash.\<close>

theorem account_changes_authorized:
  assumes "store_ok (srv_store srv)"
    and "users (srv_store (snd (serve bc re pages r srv))) \<noteq> users (srv_store srv)"
  shows "sameOrigin r \<and> (\<exists>v u. r_cookie r = Some v \<and>
      SessionUser (re 0) (srv_store srv) (HashToken v) = Some u \<and> u_active u \<and>
      (u_role u = ''admin'' \<or>
       (\<exists>h. users (srv_store (snd (serve bc re pages r srv))) =
          map_if (\<lambda>q. u_id q = u_id u) (\<lambda>q. q\<lparr>password_hash := h\<rparr>) (users (srv_store srv)))))"
proof (rule Middleware_cases[of "re 0" "mux bc re pages" r srv])
  assume "Middleware (re 0) (mux bc re pages) r srv = mux bc re pages None r srv" "publicPaths (r_path r)"
  then show ?thesis using assms(2) public_store[of r bc re pages srv] by (simp add: serve_def)
next
  fix st assume "Middleware (re 0) (mux bc re pages) r srv = (st, srv)"
  then show ?thesis using assms(2) by (simp add: serve_def)
next
  fix v u
  assume m: "Middleware (re 0) (mux bc re pages) r srv = mux bc re pages (Some (u, HashToken v)) r srv"
    "sameOrigin r" "r_cookie r = Some v" "SessionUser (re 0) (srv_store srv) (HashToken v) = Some u"
  let ?c = "Some (u, HashToken v)"
  have act: "u_active u" using m(4) unfolding SessionUser_char[OF assms(1)] by auto
  from mux_store[of bc re ?c srv pages r] assms(2) m(1) obtain n op where
    op: "srv_store (snd (serve bc re pages r srv)) = store_exec bc (re n) op (srv_store srv)" "allowed ?c op"
    by (auto simp: one_op_def serve_def)
  have "u_role u = ''admin'' \<or> (\<exists>h. users (srv_store (snd (serve bc re pages r srv))) =
          map_if (\<lambda>q. u_id q = u_id u) (\<lambda>q. q\<lparr>password_hash := h\<rparr>) (users (srv_store srv)))"
  proof (cases "ctx_admin ?c")
    case True
    then show ?thesis by (simp add: ctx_admin_def RoleAdmin_def)
  next
    case False
    from allowed_only_password[OF assms(1) op(2) False, of bc "re n"] assms(2) op(1)
    show ?thesis by (simp add: CurrentUser_def)
  qed
  with m act show ?thesis by blast
qed


section \<open>The life of a session cookie\<close>

text \<open>The answer of \<open>login\<close> once the body is decoded, by what the limiter and the store say.\<close>

lemma login_decoded:
  assumes "decode_struct login_field \<lparr>lb_username = [], lb_password = []\<rparr> (r_body r) = Some b"
    and "key = login_key r (lb_username b)" and "blocked (now (re 1)) key (srv_limiter srv) = (wait, lm)"
  shows "login bc re c r srv =
    (if wait > 0 then ((writeError 429 msg_too_many)\<lparr>retry_after := f_trunc (seconds wait) + 1\<rparr>, srv\<lparr>srv_limiter := lm\<rparr>)
     else case Authenticate bc (re 2) (srv_store srv) (lb_username b) (lb_password b) of
        None \<Rightarrow> (writeError 401 msg_bad_login, srv\<lparr>srv_limiter := fail (now (re 3)) key lm\<rparr>)
      | Some u \<Rightarrow>
          (case CreateSession (re 4) (srv_store srv) (u_id u) sessionTTL of
             (Inl er, st) \<Rightarrow> (writeError 500 msg_no_login, srv\<lparr>srv_limiter := reset key lm, srv_store := st\<rparr>)
           | (Inr (token, expires), st) \<Rightarrow>
               ((resp 200 (BMe ''session'' (Some u)))\<lparr>cookie := SetSession token expires (isHTTPS r)\<rparr>,
                srv\<lparr>srv_limiter := reset key lm, srv_store := st\<rparr>)))"
  unfolding login_def assms(1) option.case Let_def assms(2)[symmetric] assms(3) prod.case
  by (auto split: option.split prod.split sum.split)

lemma login_bad_body:
  "decode_struct login_field \<lparr>lb_username = [], lb_password = []\<rparr> (r_body r) = None \<Longrightarrow>
   login bc re c r srv = (writeError 400 msg_bad_request, srv)"
  by (simp add: login_def)

lemma login_200:
  assumes "login bc re c r srv = (rs, srv')" "cookie rs = SetSession tok ex sec"
  shows "\<exists>u st. CreateSession (re 4) (srv_store srv) (u_id u) sessionTTL = (Inr (tok, ex), st) \<and>
    srv_store srv' = st \<and> (\<exists>un pw. Authenticate bc (re 2) (srv_store srv) un pw = Some u) \<and>
    resp_body rs = BMe ''session'' (Some u) \<and> status rs = 200 \<and> sec = isHTTPS r"
proof (cases "decode_struct login_field \<lparr>lb_username = [], lb_password = []\<rparr> (r_body r)")
  case None
  with login_bad_body[OF None, of bc re c srv] assms show ?thesis by auto
next
  case (Some b)
  obtain wait lm where bl: "blocked (now (re 1)) (login_key r (lb_username b)) (srv_limiter srv) = (wait, lm)"
    by force
  note l = login_decoded[where re = re and bc = bc and c = c, OF Some refl bl]
  from assms show ?thesis unfolding l by (force split: if_splits option.splits prod.splits sum.splits)
qed

lemma Authenticate_Some:
  assumes "Authenticate bc e s un pw = Some u"
  shows "\<exists>q \<in> set (users s). u = scanUser q \<and> u_active q \<and> nocase_eq (u_name q) un
           \<and> bcmp bc (password_hash q) pw"
  using assms find_Some_iff_mem by (fastforce simp: Authenticate_def split: option.splits if_splits)

lemma serve_with_cookie:
  assumes "sameOrigin r" "\<not> publicPaths (r_path r)" "r_cookie r = Some v"
  shows "serve bc re pages r srv =
     (case SessionUser (re 0) (srv_store srv) (HashToken v) of
        None \<Rightarrow> (deny r, srv)
      | Some u \<Rightarrow> mux bc re pages (Some (u, HashToken v)) r srv)"
  using assms by (simp add: serve_def Middleware_def Let_def)

lemma serve_login:
  assumes "sameOrigin r" "r_method r = ''POST''" "r_path r = ''/api/auth/login''"
  shows "serve bc re pages r srv = login bc re None r srv"
  using assms by (simp add: serve_def Middleware_def publicPaths_def mux_def route_of_def)

text \<open>the cookie a login hands out is that user's key to the server until it expires, and to nothing
  afterwards: a later request that carries it reaches the handlers as the user who logged in, with
  the token's hash as its session, exactly before the expiry written in the cookie.\<close>

theorem session_lifecycle:
  assumes "store_ok (srv_store srv)"
    and "sameOrigin r" "r_method r = ''POST''" "r_path r = ''/api/auth/login''"
    and "serve bc re pages r srv = (rs, srv1)" and "cookie rs = SetSession tok ex sec"
    and "sameOrigin r2" "\<not> publicPaths (r_path r2)" "r_cookie r2 = Some tok"
    and "\<not> faults (re2 0) DbQuerySession"
  shows "\<exists>u. resp_body rs = BMe ''session'' (Some u) \<and> u_active u \<and> ex = now (re 4) + sessionTTL \<and>
    serve bc re2 pages r2 srv1 =
      (if t_unix (now (re2 0)) < t_unix ex
       then mux bc re2 pages (Some (u, HashToken tok)) r2 srv1 else (deny r2, srv1))"
proof -
  have l: "login bc re None r srv = (rs, srv1)" using serve_login[OF assms(2-4)] assms(5) by metis
  from login_200[where re = re, OF l assms(6)] obtain u st where
    u: "CreateSession (re 4) (srv_store srv) (u_id u) sessionTTL = (Inr (tok, ex), st)"
      "srv_store srv1 = st" "\<exists>un pw. Authenticate bc (re 2) (srv_store srv) un pw = Some u"
      "resp_body rs = BMe ''session'' (Some u)" by blast
  then obtain q where q: "q \<in> set (users (srv_store srv))" "u = scanUser q" "u_active q"
    using Authenticate_Some by blast
  have row: "find_row (srv_store srv) (u_id u) = Some q" using find_row_eq[OF assms(1) q(1)] q(2) by simp
  note s = CreateSession_SessionUser[OF assms(1) row q(3) u(1) assms(10)]
  have ex: "ex = now (re 4) + sessionTTL" using CreateSession_Inr[OF u(1)] by simp
  have "serve bc re2 pages r2 srv1 =
      (if t_unix (now (re2 0)) < t_unix ex
       then mux bc re2 pages (Some (u, HashToken tok)) r2 srv1 else (deny r2, srv1))"
    unfolding serve_with_cookie[OF assms(7-9)] u(2) s ex using q(2) by simp
  with u(4) q ex show ?thesis by auto
qed


definition ex_login_req :: request where
  "ex_login_req = ex_req\<lparr>r_method := ''POST'', r_path := ''/api/auth/login'',
     r_body := Some (JObj [(''username'', JStr ''Carla''), (''password'', JStr ''carlapass'')])\<rparr>"

definition ex_token :: string where
  "ex_token = b64_encode (replicate 32 7)"

definition ex_me_req :: request where
  "ex_me_req = ex_req\<lparr>r_path := ''/api/auth/me'', r_cookie := Some ex_token\<rparr>"

lemma ex_create_session_ttl:
  "CreateSession ex_env ex_store 2 sessionTTL =
    (Inr (ex_token, 605800000000000),
     ex_store\<lparr>sessions := [ex_session, \<lparr>token_hash = HashToken ex_token, user_id = 2, expires_at = 605800\<rparr>]\<rparr>)"
  using length_HashToken_neq[of ex_token]
  by (simp add: CreateSession_def ex_defs find_row_def t_unix_def Let_def ex_token_def sessionTTL_def)

lemma ex_carla: "nocase_eq ''carla'' ''Carla''" "\<not> nocase_eq ''admin'' ''Carla''"
  by code_simp+

lemma ex_login_key: "login_key ex_login_req ''Carla'' = ''1.2.3.4|carla''"
  by code_simp

lemma ex_login:
  "login ex_bc (\<lambda>_. ex_env) c ex_login_req ex_srv =
     ((resp 200 (BMe ''session'' (Some (scanUser ex_viewer))))\<lparr>cookie := SetSession ex_token 605800000000000 False\<rparr>,
      ex_srv\<lparr>srv_store := ex_store\<lparr>sessions := [ex_session,
         \<lparr>token_hash = HashToken ex_token, user_id = 2, expires_at = 605800\<rparr>]\<rparr>\<rparr>)"
proof -
  have b: "decode_struct login_field \<lparr>lb_username = [], lb_password = []\<rparr> (r_body ex_login_req)
     = Some \<lparr>lb_username = ''Carla'', lb_password = ''carlapass''\<rparr>"
    by (simp add: ex_login_req_def login_field_def ToLower_def lower_char_def)
  have bl: "blocked (now ex_env) (login_key ex_login_req ''Carla'') (srv_limiter ex_srv) = (0, fmempty)"
    by (simp add: ex_srv_def blocked_def)
  have a: "Authenticate ex_bc ex_env ex_store ''Carla'' ''carlapass'' = Some (scanUser ex_viewer)"
    using ex_carla by (simp add: Authenticate_def ex_store_def) (simp add: ex_admin_def ex_viewer_def ex_bc_def)
  have i: "u_id ex_viewer = 2" by (simp add: ex_viewer_def)
  have h: "isHTTPS ex_login_req = False"
    by (simp add: isHTTPS_def ex_login_req_def ex_req_def ToLower_def)
  have "login ex_bc (\<lambda>_. ex_env) c ex_login_req ex_srv =
     ((resp 200 (BMe ''session'' (Some (scanUser ex_viewer))))\<lparr>cookie := SetSession ex_token 605800000000000 False\<rparr>,
      ex_srv\<lparr>srv_limiter := reset (login_key ex_login_req ''Carla'') fmempty, srv_store := ex_store\<lparr>sessions := [ex_session,
         \<lparr>token_hash = HashToken ex_token, user_id = 2, expires_at = 605800\<rparr>]\<rparr>\<rparr>)"
    using b bl a
    by (subst login_decoded[where re = "\<lambda>_. ex_env" and b = "\<lparr>lb_username = ''Carla'', lb_password = ''carlapass''\<rparr>"
          and wait = 0 and lm = fmempty, OF _ refl])
       (simp_all add: i h ex_create_session_ttl)
  then show ?thesis by (simp add: reset_def ex_srv_def)
qed

lemma ex_serve_login:
  "serve ex_bc (\<lambda>_. ex_env) pages ex_login_req ex_srv =
   ((resp 200 (BMe ''session'' (Some (scanUser ex_viewer))))\<lparr>cookie := SetSession ex_token 605800000000000 False\<rparr>,
      ex_srv\<lparr>srv_store := ex_store\<lparr>sessions := [ex_session,
         \<lparr>token_hash = HashToken ex_token, user_id = 2, expires_at = 605800\<rparr>]\<rparr>\<rparr>)"
  unfolding ex_login[of None, symmetric]
  by (rule serve_login) (simp_all add: ex_login_req_def ex_req_def sameOrigin_def)

theorem session_lifecycle_witness:
  "serve ex_bc (\<lambda>_. ex_env) (\<lambda>_. resp 200 BEmpty) ex_me_req (snd (serve ex_bc (\<lambda>_. ex_env) (\<lambda>_. resp 200 BEmpty) ex_login_req ex_srv))
   = mux ex_bc (\<lambda>_. ex_env) (\<lambda>_. resp 200 BEmpty) (Some (scanUser ex_viewer, HashToken ex_token)) ex_me_req
       (snd (serve ex_bc (\<lambda>_. ex_env) (\<lambda>_. resp 200 BEmpty) ex_login_req ex_srv))"
proof -
  have o: "sameOrigin ex_login_req" "r_method ex_login_req = ''POST''" "r_path ex_login_req = ''/api/auth/login''"
    "sameOrigin ex_me_req" "\<not> publicPaths (r_path ex_me_req)" "r_cookie ex_me_req = Some ex_token"
    by (simp_all add: ex_login_req_def ex_me_req_def ex_req_def sameOrigin_def publicPaths_def)
  have t: "t_unix (now ex_env) < t_unix 605800000000000" by (simp add: ex_env_def t_unix_def)
  have c: "cookie (fst (serve ex_bc (\<lambda>_. ex_env) (\<lambda>_. resp 200 BEmpty) ex_login_req ex_srv)) =
      SetSession ex_token 605800000000000 False"
    by (simp add: ex_serve_login)
  note l = session_lifecycle[where srv = ex_srv and re = "\<lambda>_. ex_env" and ?re2.0 = "\<lambda>_. ex_env" and bc = ex_bc
      and pages = "\<lambda>_. resp 200 BEmpty" and r = ex_login_req and ?r2.0 = ex_me_req and tok = ex_token,
      unfolded ex_srv_store, OF ex_store_ok o(1-3) prod.collapse[symmetric] c o(4-6) ex_env_no_faults(2)]
  show ?thesis using l t by (auto simp: ex_serve_login)
qed

section \<open>Logging out\<close>

text \<open>The answer of a logout and what it leaves: the sessions without the one it was sent with, or, when the
  statement fails in the driver, whose error the handler drops, the very same state.\<close>

lemma serve_logout:
  assumes "sameOrigin r" "r_method r = ''POST''" "r_path r = ''/api/auth/logout''" "r_cookie r = Some tok"
    and "SessionUser (re 0) (srv_store srv) (HashToken tok) = Some u"
  shows "serve bc re pages r srv = ((resp 204 BEmpty)\<lparr>cookie := ClearSession (isHTTPS r)\<rparr>,
    if faults (re 1) DbDeleteSession then srv
    else srv\<lparr>srv_store := (srv_store srv)\<lparr>sessions := filter (\<lambda>t. token_hash t \<noteq> HashToken tok) (sessions (srv_store srv))\<rparr>\<rparr>)"
  using assms
  by (simp add: serve_def Middleware_def publicPaths_def mux_def route_of_def logout_def CurrentSession_def
      DeleteSession_def Let_def)

lemma drop_session_others:
  assumes "store_ok s" "h \<noteq> h0"
  shows "SessionUser e (s\<lparr>sessions := filter (\<lambda>t. token_hash t \<noteq> h0) (sessions s)\<rparr>) h = SessionUser e s h"
proof -
  let ?s1 = "s\<lparr>sessions := filter (\<lambda>t. token_hash t \<noteq> h0) (sessions s)\<rparr>"
  have ok1: "store_ok ?s1" using assms(1) by (auto simp: store_ok_def distinct_map_filter)
  have "find_session ?s1 h = find_session s h"
    using find_session_filter[where us = "users s" and P = "\<lambda>t. token_hash t \<noteq> h0" and h = h, OF assms(1)] assms(2)
      find_session_mem[of s h] by (auto split: option.splits)
  then have "SessionUser e ?s1 h = Some x \<longleftrightarrow> SessionUser e s h = Some x" for x
    unfolding SessionUser_char[OF ok1] SessionUser_char[OF assms(1)] by simp
  then show ?thesis by (metis not_Some_eq)
qed

text \<open>No session carries a given token hash. Only a login can change that, with the bytes it draws.\<close>

definition no_session :: "string \<Rightarrow> store \<Rightarrow> bool" where
  "no_session h s \<longleftrightarrow> (\<forall>t \<in> set (sessions s). token_hash t \<noteq> h)"

lemma no_session_SessionUser: "store_ok s \<Longrightarrow> no_session h s \<Longrightarrow> SessionUser e s h = None"
  using find_session_mem[of s h] by (cases "SessionUser e s h") (auto simp: no_session_def SessionUser_char)

lemma no_session_subset: "no_session h s \<Longrightarrow> set (sessions s') \<subseteq> set (sessions s) \<Longrightarrow> no_session h s'"
  by (auto simp: no_session_def)

lemma Update_sessions_subset:
  assumes "store_ok s" shows "set (sessions (snd (Update bc e s uid b k))) \<subseteq> set (sessions s)"
proof (cases "Update bc e s uid b k")
  case (Pair res s')
  show ?thesis
  proof (cases res)
    case (Inl er)
    with Pair Update_Inl show ?thesis by fastforce
  next
    case (Inr x)
    obtain us P where "s' = s\<lparr>users := us, sessions := (if P then filter (\<lambda>t. \<not> (user_id t = uid \<and> token_hash t \<noteq> k)) (sessions s) else sessions s)\<rparr>"
      by (rule Update_InrE[OF Pair[unfolded Inr] store_ok_ids[OF assms]]) blast
    then show ?thesis by (simp add: Pair)
  qed
qed

lemma store_sessions_subset:
  "set (sessions (snd (Create bc e s un pw rl))) \<subseteq> set (sessions s)"
  "set (sessions (snd (Delete e s uid))) \<subseteq> set (sessions s)"
  "set (sessions (snd (DeleteSession e s h))) \<subseteq> set (sessions s)"
  "set (sessions (snd (PurgeExpiredSessions e s))) \<subseteq> set (sessions s)"
proof -
  show "set (sessions (snd (Create bc e s un pw rl))) \<subseteq> set (sessions s)"
    using Create_Inl[of bc e s un pw rl] Create_Inr[of bc e s un pw rl]
    by (cases "Create bc e s un pw rl"; cases "fst (Create bc e s un pw rl)") auto
  show "set (sessions (snd (Delete e s uid))) \<subseteq> set (sessions s)"
    using Delete_None[of e s uid] Delete_Some[of e s uid]
    by (cases "Delete e s uid"; cases "fst (Delete e s uid)") (auto simp: delete_user_row_def)
qed (auto simp: DeleteSession_def PurgeExpiredSessions_def)

lemma CreateSession_no_session:
  "no_session h s \<Longrightarrow> HashToken (b64_encode (rand e)) \<noteq> h \<Longrightarrow> no_session h (snd (CreateSession e s uid ttl))"
  by (auto simp: CreateSession_def Let_def no_session_def)

lemma mux_no_session:
  assumes "no_session h (srv_store srv)" "store_ok (srv_store srv)"
    and "route_of (r_method r) (r_path r) = RLogin \<Longrightarrow> HashToken (b64_encode (rand (re 4))) \<noteq> h"
  shows "no_session h (srv_store (snd (mux bc re pages c r srv)))"
proof -
  note sub = no_session_subset[OF assms(1) store_sessions_subset(1)] no_session_subset[OF assms(1) store_sessions_subset(2)]
    no_session_subset[OF assms(1) store_sessions_subset(3)] no_session_subset[OF assms(1) Update_sessions_subset[OF assms(2)]]
  have adm: "no_session h (srv_store (snd (RequireAdmin k c r srv)))" if "no_session h (srv_store (snd (k c r srv)))" for k
    using RequireAdmin_cases[of k c r srv] that assms(1) by auto
  have "no_session h (srv_store (snd (login bc re c r srv)))" if "route_of (r_method r) (r_path r) = RLogin"
    using login_store[of bc re c r srv] assms(1) CreateSession_no_session[OF assms(1) assms(3)[OF that]] by auto
  moreover have "no_session h (srv_store (snd (logout re c r srv)))" by (simp add: logout_store sub)
  moreover have "no_session h (srv_store (snd (changePassword bc re c r srv)))"
    using changePassword_store[of bc re c r srv] assms(1) sub by auto
  moreover have "no_session h (srv_store (snd (api_create bc re c r srv)))"
    using api_create_store[of bc re c r srv] assms(1) sub by auto
  moreover have "no_session h (srv_store (snd (api_update bc re s c r srv)))" for s
    using api_update_store[of bc re s c r srv] assms(1) sub by auto
  moreover have "no_session h (srv_store (snd (api_delete re s c r srv)))" for s
    using api_delete_store[of re s c r srv] assms(1) sub by auto
  ultimately show ?thesis using assms(1) adm by (auto simp: mux_def split: route.split)
qed

lemma serve_no_session:
  assumes "no_session h (srv_store srv)" "store_ok (srv_store srv)"
    and "route_of (r_method r) (r_path r) = RLogin \<Longrightarrow> HashToken (b64_encode (rand (re 4))) \<noteq> h"
  shows "no_session h (srv_store (snd (serve bc re pages r srv)))"
  unfolding serve_def
  by (rule Middleware_cases[of "re 0" "mux bc re pages" r srv]) (use assms mux_no_session[where re = re, OF assms] in auto)

definition ex_srv_in :: server where
  "ex_srv_in = ex_srv\<lparr>srv_store := ex_store\<lparr>sessions := [ex_session,
         \<lparr>token_hash = HashToken ex_token, user_id = 2, expires_at = 605800\<rparr>]\<rparr>\<rparr>"

lemma ex_srv_in_ok: "store_ok (srv_store ex_srv_in)"
  using CreateSession_ok[OF ex_store_ok, of ex_env 2 sessionTTL]
  by (simp add: ex_create_session_ttl ex_srv_in_def)

lemma ex_srv_in_user: "SessionUser ex_env (srv_store ex_srv_in) (HashToken ex_token) = Some (scanUser ex_viewer)"
proof -
  have "u_active ex_viewer" "t_unix (now ex_env) < t_unix (now ex_env + sessionTTL)"
    by (simp_all add: ex_viewer_def ex_env_def t_unix_def sessionTTL_def)
  with CreateSession_SessionUser[OF ex_store_ok ex_find_row(2) _ ex_create_session_ttl, of ex_env]
  show ?thesis by (simp add: ex_srv_in_def)
qed

definition ex_logout_req :: request where
  "ex_logout_req = ex_req\<lparr>r_method := ''POST'', r_path := ''/api/auth/logout'', r_cookie := Some ex_token\<rparr>"

section \<open>Errors change nothing\<close>

lemma login_error_store:
  assumes "400 \<le> status (fst (login bc re c r srv))"
  shows "srv_store (snd (login bc re c r srv)) = srv_store srv"
proof (cases "decode_struct login_field \<lparr>lb_username = [], lb_password = []\<rparr> (r_body r)")
  case None
  with login_bad_body[OF None, of bc re c srv] show ?thesis by auto
next
  case (Some b)
  obtain wait lm where bl: "blocked (now (re 1)) (login_key r (lb_username b)) (srv_limiter srv) = (wait, lm)"
    by force
  note l = login_decoded[where re = re and bc = bc and c = c, OF Some refl bl]
  show ?thesis using assms unfolding l
    by (auto dest: CreateSession_Inl split: if_splits option.splits prod.splits sum.splits)
qed

lemma changePassword_error_store:
  "400 \<le> status (fst (changePassword bc re c r srv)) \<Longrightarrow>
   srv_store (snd (changePassword bc re c r srv)) = srv_store srv"
  unfolding changePassword_def Let_def
  by (auto dest: Update_Inl split: option.splits prod.splits sum.splits store_err.splits if_splits)

lemma api_create_error_store:
  "400 \<le> status (fst (api_create bc re c r srv)) \<Longrightarrow>
   srv_store (snd (api_create bc re c r srv)) = srv_store srv"
  by (auto simp: api_create_def dest: Create_Inl split: option.splits prod.splits sum.splits)

lemma api_update_error_store:
  "400 \<le> status (fst (api_update bc re s c r srv)) \<Longrightarrow>
   srv_store (snd (api_update bc re s c r srv)) = srv_store srv"
  unfolding api_update_def Let_def
  by (auto dest: Update_Inl split: option.splits prod.splits sum.splits if_splits)

lemma api_delete_error_store:
  "400 \<le> status (fst (api_delete re s c r srv)) \<Longrightarrow>
   srv_store (snd (api_delete re s c r srv)) = srv_store srv"
  by (auto simp: api_delete_def dest: Delete_Some split: option.splits prod.splits if_splits)

lemmas error_stores = login_error_store changePassword_error_store api_create_error_store
  api_update_error_store api_delete_error_store

lemma RequireAdmin_error_store:
  "400 \<le> status (fst (RequireAdmin h c r srv)) \<Longrightarrow>
   (400 \<le> status (fst (h c r srv)) \<Longrightarrow> srv_store (snd (h c r srv)) = srv_store srv) \<Longrightarrow>
   srv_store (snd (RequireAdmin h c r srv)) = srv_store srv"
  using RequireAdmin_cases[of h c r srv] by auto

lemma mux_error_store:
  assumes "400 \<le> status (fst (mux bc re pages c r srv))"
  shows "srv_store (snd (mux bc re pages c r srv)) = srv_store srv"
  using assms
  by (cases "route_of (r_method r) (r_path r)")
     (auto simp: mux_def logout_def intro: error_stores intro!: RequireAdmin_error_store)

text \<open>C12: a request that is answered with an error status has changed no account and no session:
  whatever the request, the driver's faults and the clock, a status of 400 or more leaves the
  account store as it was.\<close>

theorem error_status_changes_nothing:
  assumes "400 \<le> status (fst (serve bc re pages r srv))"
  shows "srv_store (snd (serve bc re pages r srv)) = srv_store srv"
  using assms unfolding serve_def
  by (rule_tac Middleware_cases[of "re 0" "mux bc re pages" r srv]) (auto intro: mux_error_store)

definition ex_bad_login_req :: request where
  "ex_bad_login_req = ex_login_req\<lparr>r_body := None\<rparr>"

theorem error_status_changes_nothing_witness:
  "srv_store (snd (serve ex_bc (\<lambda>_. ex_env) (\<lambda>_. resp 200 BEmpty) ex_bad_login_req ex_srv)) = ex_store"
proof -
  have o: "sameOrigin ex_bad_login_req" "r_method ex_bad_login_req = ''POST''" "r_path ex_bad_login_req = ''/api/auth/login''"
    "r_body ex_bad_login_req = None"
    by (simp_all add: ex_bad_login_req_def ex_login_req_def ex_req_def sameOrigin_def)
  have "400 \<le> status (fst (serve ex_bc (\<lambda>_. ex_env) (\<lambda>_. resp 200 BEmpty) ex_bad_login_req ex_srv))"
    unfolding serve_login[OF o(1-3)] by (simp add: login_def o(4))
  from error_status_changes_nothing[OF this] show ?thesis by simp
qed

section \<open>Admins and viewers\<close>

text \<open>a viewer never reaches the account endpoints: whatever method and body, a request to one of
  them with the session of a user who is not an admin gets 403 and changes nothing.\<close>

theorem viewer_forbidden:
  assumes "sameOrigin r" "r_cookie r = Some v"
    and "SessionUser (re 0) (srv_store srv) (HashToken v) = Some u" "u_role u \<noteq> ''admin''"
    and "route_of (r_method r) (r_path r) \<in> {RUsersList, RUsersCreate, RUsersUpdate s, RUsersDelete s}"
  shows "serve bc re pages r srv = (writeError 403 msg_admin, srv)"
proof -
  have "\<not> publicPaths (r_path r)" using public_route[of "r_path r" "r_method r"] assms(5) by auto
  then have "serve bc re pages r srv = mux bc re pages (Some (u, HashToken v)) r srv"
    using serve_with_cookie[OF assms(1) _ assms(2), of bc re pages srv] assms(3) by simp
  also have "\<dots> = (writeError 403 msg_admin, srv)"
    using assms(4,5) by (auto simp: mux_def RequireAdmin_def CurrentUser_def RoleAdmin_def)
  finally show ?thesis .
qed

definition ex_delete_req :: request where
  "ex_delete_req = ex_req\<lparr>r_method := ''DELETE'', r_path := ''/api/users/1'', r_cookie := Some ex_token\<rparr>"

theorem viewer_forbidden_witness:
  "serve ex_bc (\<lambda>_. ex_env) (\<lambda>_. resp 200 BEmpty) ex_delete_req ex_srv_in = (writeError 403 msg_admin, ex_srv_in)"
  by (rule viewer_forbidden[where v = ex_token and u = "scanUser ex_viewer" and s = "''1''"])
     (simp_all add: ex_srv_in_user, simp_all add: ex_delete_req_def ex_req_def sameOrigin_def ex_viewer_def
       route_of_def id_segment_def has_prefix_def)

text \<open>A store operation allowed to an admin leaves that admin's own row an active admin.\<close>

lemma upd_row_keeps_admin:
  assumes "is_active_admin q" "\<not> self_harm b \<or> b = only_password pw"
  shows "is_active_admin (upd_row bc e b q)"
  using assms by (auto simp: is_active_admin_def upd_row_def self_harm_def only_password_def split: option.splits)

lemma Update_row:
  assumes "store_ok s"
  shows "find_row (snd (Update bc e s uid b k)) i =
     (if i = uid \<and> (\<exists>x. fst (Update bc e s uid b k) = Inr x)
      then map_option (upd_row bc e b) (find_row s i) else find_row s i)"
proof (cases "Update bc e s uid b k")
  case (Pair res s')
  show ?thesis
  proof (cases res)
    case (Inl er)
    with Pair Update_Inl show ?thesis by fastforce
  next
    case (Inr x)
    obtain ss where "s' = s\<lparr>users := map_if (\<lambda>r. u_id r = uid) (upd_row bc e b) (users s), sessions := ss\<rparr>"
      by (rule Update_InrE[OF Pair[unfolded Inr] store_ok_ids[OF assms]]) blast
    then have "find_row s' i = (if i = uid then map_option (upd_row bc e b) (find_row s i) else find_row s i)"
      by (simp add: find_row_map_if)
    with Pair Inr show ?thesis by simp
  qed
qed

lemma allowed_keeps_self:
  assumes "store_ok s" "find_row s (u_id u) = Some q" "is_active_admin q" "allowed (Some (u, h)) op"
  shows "\<exists>q'. find_row (store_exec bc e op s) (u_id u) = Some q' \<and> is_active_admin q'"
proof (cases op)
  case (OpUpdate uid b k)
  have "is_active_admin (upd_row bc e b q)" if "uid = u_id u"
    using that assms(3,4) OpUpdate by (auto simp: CurrentUser_def intro: upd_row_keeps_admin)
  with assms(2,3) show ?thesis by (auto simp: OpUpdate Update_row[OF assms(1)])
next
  case (OpCreate un pw rl)
  have "find_row (snd (Create bc e s un pw rl)) (u_id u) = Some q"
  proof (cases "Create bc e s un pw rl")
    case (Pair res s')
    then show ?thesis using assms(2)
      by (cases res) (auto dest!: Create_Inl Create_Inr simp: find_row_snoc[of s])
  qed
  with assms(3) show ?thesis by (simp add: OpCreate)
next
  case (OpDelete uid)
  have ne: "uid \<noteq> u_id u" using assms(4) OpDelete by (simp add: CurrentUser_def)
  have "find_row (snd (Delete e s uid)) (u_id u) = Some q"
  proof (cases "Delete e s uid")
    case (Pair res s')
    show ?thesis
    proof (cases res)
      case (Some er)
      with Pair Delete_Some assms(2) show ?thesis by fastforce
    next
      case None
      from Delete_None[OF Pair[unfolded None]] have "s' = delete_user_row uid s" by auto
      then have ok: "store_ok s'" "q \<in> set (users s')"
        using delete_user_row_ok[OF assms(1), of uid] find_row_mem[OF assms(2)] ne
        by (simp_all add: delete_user_row_def)
      with find_row_eq[OF ok] find_row_mem[OF assms(2)] Pair show ?thesis by simp
    qed
  qed
  with assms(3) show ?thesis by (simp add: OpDelete)
qed (use assms in \<open>simp_all add: find_row_def\<close>)


text \<open>C15: an admin cannot lock itself out: whatever request an active admin's session sends, that
  account is still there, active and an admin afterwards.\<close>

theorem own_request_keeps_admin:
  assumes "store_ok (srv_store srv)"
    and "r_cookie r = Some v" and "SessionUser (re 0) (srv_store srv) (HashToken v) = Some u"
    and "u_role u = ''admin''"
  shows "\<exists>q. find_row (srv_store (snd (serve bc re pages r srv))) (u_id u) = Some q
           \<and> u_role q = ''admin'' \<and> u_active q"
proof -
  let ?s = "srv_store srv"
  from assms(3) obtain t :: session_row and q :: user_row where q: "find_row ?s (user_id t) = Some q" "u_active q" "u = scanUser q"
    unfolding SessionUser_char[OF assms(1)] by blast
  then have row: "find_row ?s (u_id u) = Some q" "is_active_admin q"
    using find_row_mem[OF q(1)] assms(4) by (auto simp: is_active_admin_def RoleAdmin_def)
  have "\<exists>q. find_row (srv_store (snd (serve bc re pages r srv))) (u_id u) = Some q \<and> is_active_admin q"
  proof (rule Middleware_cases[of "re 0" "mux bc re pages" r srv])
    assume "Middleware (re 0) (mux bc re pages) r srv = mux bc re pages None r srv" "publicPaths (r_path r)"
    with row public_store[of r bc re pages srv] show ?thesis by (simp add: serve_def find_row_def)
  next
    fix st assume "Middleware (re 0) (mux bc re pages) r srv = (st, srv)"
    with row show ?thesis by (simp add: serve_def)
  next
    fix v' u'
    assume m: "Middleware (re 0) (mux bc re pages) r srv = mux bc re pages (Some (u', HashToken v')) r srv"
      "r_cookie r = Some v'" "SessionUser (re 0) ?s (HashToken v') = Some u'"
    then have u': "v' = v" "u' = u" using assms(2,3) by auto
    from mux_store[of bc re "Some (u', HashToken v')" srv pages r] show ?thesis
      using row allowed_keeps_self[OF assms(1) row] unfolding serve_def m(1) one_op_def u' by metis
  qed
  then show ?thesis by (simp add: is_active_admin_def RoleAdmin_def)
qed

definition ex_admin_session :: session_row where
  "ex_admin_session = \<lparr>token_hash = HashToken ''t'', user_id = 1, expires_at = 5000\<rparr>"

definition ex_srv_admin :: server where
  "ex_srv_admin = ex_srv\<lparr>srv_store := ex_store\<lparr>sessions := [ex_admin_session]\<rparr>\<rparr>"

lemma ex_srv_admin_ok: "store_ok (srv_store ex_srv_admin)"
  using ex_store_ok by (simp add: ex_srv_admin_def store_ok_def ex_admin_session_def) (simp add: ex_store_def ex_admin_def)

lemma ex_srv_admin_user: "SessionUser ex_env (srv_store ex_srv_admin) (HashToken ''t'') = Some (scanUser ex_admin)"
  by (simp add: ex_srv_admin_def SessionUser_def ex_admin_session_def) (simp add: ex_env_def t_unix_def ex_admin_def)

definition ex_self_delete_req :: request where
  "ex_self_delete_req = ex_req\<lparr>r_method := ''DELETE'', r_path := ''/api/users/1'', r_cookie := Some ''t''\<rparr>"

theorem own_request_keeps_admin_witness:
  "\<exists>q. find_row (srv_store (snd (serve ex_bc (\<lambda>_. ex_env) (\<lambda>_. resp 200 BEmpty) ex_self_delete_req ex_srv_admin))) 1
         = Some q \<and> u_role q = ''admin'' \<and> u_active q"
proof -
  have c: "r_cookie ex_self_delete_req = Some ''t''" "u_role (scanUser ex_admin) = ''admin''" "u_id ex_admin = 1"
    by (simp_all add: ex_self_delete_req_def ex_admin_def)
  from own_request_keeps_admin[where re = "\<lambda>_. ex_env", OF ex_srv_admin_ok c(1) ex_srv_admin_user c(2)] c(3)
  show ?thesis by simp
qed

section \<open>The rate limit as the client sees it\<close>

lemma blocked_range:
  assumes "lim_ok t l"
  shows "fst (blocked t key l) \<le> loginWindow"
proof -
  have "d_sub loginWindow (t_sub t f) \<le> loginWindow" if "f \<le> t" for f
    unfolding left_eq[OF that] using that by (simp add: max_dur_def)
  with assms show ?thesis by (auto simp: blocked_fst lim_ok_def loginWindow_eq split: option.split)
qed

text \<open>C14: while a key is blocked, a login attempt is answered 429 without looking at the password and
  without touching the store; \<open>Retry-After\<close> is between 1 and 901 seconds, is never earlier than the
  end of the block and at most one second later.\<close>

theorem login_rate_limited:
  assumes "sameOrigin r" "r_method r = ''POST''" "r_path r = ''/api/auth/login''"
    and "decode_struct login_field \<lparr>lb_username = [], lb_password = []\<rparr> (r_body r) = Some b"
    and "lim_ok (now (re 1)) (srv_limiter srv)"
    and "fst (blocked (now (re 1)) (clientIP r @ ''|'' @ ToLower (lb_username b)) (srv_limiter srv)) = wait"
    and "0 < wait"
  shows "\<exists>rs. serve bc re pages r srv = (rs, srv) \<and> status rs = 429 \<and> cookie rs = NoCookie \<and>
    1 \<le> retry_after rs \<and> retry_after rs \<le> 901 \<and>
    wait < retry_after rs * Second \<and> retry_after rs * Second \<le> wait + Second"
proof -
  let ?k = "login_key r (lb_username b)"
  have w: "fst (blocked (now (re 1)) ?k (srv_limiter srv)) = wait" using assms(6) by (simp add: login_key_def)
  then have bl: "blocked (now (re 1)) ?k (srv_limiter srv) = (wait, srv_limiter srv)"
    using blocked_pos_same[of "now (re 1)" ?k "srv_limiter srv"] assms(7) by (metis prod.collapse)
  have le: "wait \<le> 900000000000" using blocked_range[OF assms(5), of ?k] w by (simp add: loginWindow_eq)
  define rs where "rs = (writeError 429 msg_too_many)\<lparr>retry_after := f_trunc (seconds wait) + 1\<rparr>"
  have "serve bc re pages r srv = (rs, srv)"
    unfolding serve_login[OF assms(1-3)] rs_def
    using login_decoded[where re = re and bc = bc and c = None, OF assms(4) refl bl] assms(7) by simp
  moreover have "f_trunc (seconds wait) = wait div Second" using assms(7) le by (intro f_trunc_seconds) simp_all
  then have "retry_after rs = wait div 1000000000 + 1" by (simp add: rs_def)
  moreover have "status rs = 429" "cookie rs = NoCookie" by (simp_all add: rs_def)
  ultimately show ?thesis using assms(7) le by (intro exI[of _ rs]) (simp, linarith)
qed

definition ex_blocked_srv :: server where
  "ex_blocked_srv = ex_srv\<lparr>srv_limiter := fmupd ''1.2.3.4|carla'' \<lparr>le_fails = 5, le_first = 900000000000\<rparr> fmempty\<rparr>"

theorem login_rate_limited_witness:
  "\<exists>rs. serve ex_bc (\<lambda>_. ex_env) (\<lambda>_. resp 200 BEmpty) ex_login_req ex_blocked_srv = (rs, ex_blocked_srv) \<and> status rs = 429"
proof -
  have o: "sameOrigin ex_login_req" "r_method ex_login_req = ''POST''" "r_path ex_login_req = ''/api/auth/login''"
    by (simp_all add: ex_login_req_def ex_req_def sameOrigin_def)
  have b: "decode_struct login_field \<lparr>lb_username = [], lb_password = []\<rparr> (r_body ex_login_req)
     = Some \<lparr>lb_username = ''Carla'', lb_password = ''carlapass''\<rparr>"
    by (simp add: ex_login_req_def login_field_def ToLower_def lower_char_def)
  have l: "lim_ok (now ex_env) (srv_limiter ex_blocked_srv)"
    by (simp add: lim_ok_def ex_blocked_srv_def ex_env_def)
  have k: "clientIP ex_login_req @ ''|'' @ ToLower (lb_username \<lparr>lb_username = ''Carla'', lb_password = ''carlapass''\<rparr>)
      = ''1.2.3.4|carla''"
    using ex_login_key by (simp add: login_key_def)
  have w: "fst (blocked (now ex_env) (clientIP ex_login_req @ ''|'' @ ToLower (lb_username \<lparr>lb_username = ''Carla'', lb_password = ''carlapass''\<rparr>)) (srv_limiter ex_blocked_srv)) = 800000000000"
  proof -
    have "d_sub loginWindow (t_sub 1000000000000 900000000000) = 800000000000"
      by (subst left_eq) (simp_all add: loginWindow_eq max_dur_def)
    then show ?thesis unfolding k by (simp add: blocked_fst ex_blocked_srv_def maxLoginFails_def ex_env_def)
  qed
  from login_rate_limited[where re = "\<lambda>_. ex_env", OF o b l w] show ?thesis by fastforce
qed


section \<open>An admin deletes an account\<close>

definition ex_admin_delete_req :: request where
  "ex_admin_delete_req = ex_self_delete_req\<lparr>r_path := ''/api/users/2''\<rparr>"

lemma ex_pathID: "pathID ''2'' = Some 2"
  by (simp add: pathID_def ParseInt64_def ParseUint_def digit_val_def)

lemma ex_admin_deletes:
  "users (srv_store (snd (serve ex_bc (\<lambda>_. ex_env) pages ex_admin_delete_req ex_srv_admin))) = [ex_admin]"
proof -
  have o: "sameOrigin ex_admin_delete_req" "\<not> publicPaths (r_path ex_admin_delete_req)"
    "r_cookie ex_admin_delete_req = Some ''t''"
    by (simp_all add: ex_admin_delete_req_def ex_self_delete_req_def ex_req_def sameOrigin_def publicPaths_def)
  have rt: "route_of ''DELETE'' ''/api/users/2'' = RUsersDelete ''2''"
    unfolding route_of_def id_segment_def by (simp add: has_prefix_def)
  have p: "r_method ex_admin_delete_req = ''DELETE''" "r_path ex_admin_delete_req = ''/api/users/2''"
    by (simp_all add: ex_admin_delete_req_def ex_self_delete_req_def)
  have d: "Delete ex_env (ex_store\<lparr>sessions := ss\<rparr>) 2 = (None, delete_user_row 2 (ex_store\<lparr>sessions := ss\<rparr>))" for ss
    by (simp_all add: Delete_def query_user_def ex_defs find_row_def RoleAdmin_def)
  have a: "CurrentUser (Some (scanUser ex_admin, HashToken ''t'')) = (scanUser ex_admin, True)"
    "u_role ex_admin = RoleAdmin" "u_id ex_admin = 1" "ex_admin \<noteq> ex_viewer"
    by (simp_all add: CurrentUser_def ex_admin_def ex_viewer_def RoleAdmin_def)
  have "users (srv_store (snd (serve ex_bc (\<lambda>_. ex_env) pages ex_admin_delete_req ex_srv_admin))) =
      users (delete_user_row 2 (ex_store\<lparr>sessions := [ex_admin_session]\<rparr>))"
    unfolding serve_with_cookie[OF o(1-3)] ex_srv_admin_user option.case mux_def p rt route.case
    by (simp add: RequireAdmin_def a(1,2) api_delete_def ex_pathID a(3) ex_srv_admin_def d)
  then show ?thesis by (simp add: delete_user_row_def) (simp add: ex_store_def ex_admin_def ex_viewer_def)
qed

theorem account_changes_authorized_witness:
  "\<exists>v u. r_cookie ex_admin_delete_req = Some v \<and>
      SessionUser ex_env (srv_store ex_srv_admin) (HashToken v) = Some u \<and> u_active u"
proof -
  have "users (srv_store (snd (serve ex_bc (\<lambda>_. ex_env) (\<lambda>_. resp 200 BEmpty) ex_admin_delete_req ex_srv_admin)))
    \<noteq> users (srv_store ex_srv_admin)"
    unfolding ex_admin_deletes by (simp add: ex_srv_admin_def ex_store_def)
  from account_changes_authorized[where re = "\<lambda>_. ex_env", OF ex_srv_admin_ok this] show ?thesis by blast
qed

end
