(* ===== verification/ProcText.thy ===== *)
theory ProcText
  imports GoStrings GoFloat
begin

text \<open>
  What the parsers of /proc and /sys share: the words of a line laid out with blanks, decimal numbers
  back from their digits, and percentages of machine integers as correctly rounded floats.
\<close>

section \<open>Words laid out with blanks\<close>

definition visible :: "char \<Rightarrow> bool" where
  "visible c = (let n = of_char c :: nat in 33 \<le> n \<and> n \<le> 126)"

definition blank :: "char \<Rightarrow> bool" where
  "blank c = (c = CHR '' '' \<or> c = CHR 0x09 \<or> c = newline)"

definition is_word :: "string \<Rightarrow> bool" where
  "is_word w = (w \<noteq> [] \<and> list_all visible w)"

lemma visible_not_blank: "visible c \<Longrightarrow> \<not> blank c"
  by (auto simp: visible_def blank_def Let_def)

lemma visible_not_newline: "visible c \<Longrightarrow> c \<noteq> newline"
  by (auto simp: visible_def Let_def)

lemma space_len_visible: "33 \<le> n \<Longrightarrow> n \<le> 126 \<Longrightarrow> space_len (n # ns) = 0"
proof -
  assume "33 \<le> n" "n \<le> 126"
  then have "n \<noteq> 32" "\<not> n \<le> 13" "n \<noteq> 194" "n \<noteq> 225" "n \<noteq> 226" "n \<noteq> 227" by linarith+
  then have "\<not> (n = 32 \<or> 9 \<le> n \<and> n \<le> 13)" "n \<noteq> 194" "n \<noteq> 225" "n \<noteq> 226" "n \<noteq> 227" by blast+
  then show ?thesis by (cases "n # ns" rule: space_len.cases) (simp_all only: space_len.simps list.inject simp_thms if_False)
qed

lemma space_len_blank: "n = 32 \<or> n = 9 \<or> n = 10 \<Longrightarrow> space_len (n # ns) = 1"
proof -
  assume "n = 32 \<or> n = 9 \<or> n = 10"
  then have "n = 32 \<or> 9 \<le> n \<and> n \<le> 13" by auto
  then show ?thesis by (cases "n # ns" rule: space_len.cases) (simp_all only: space_len.simps list.inject list.distinct simp_thms if_True)
qed

lemma space_prefix_visible [simp]: "visible c \<Longrightarrow> space_prefix (c # cs) = 0"
  by (simp add: space_prefix_def visible_def Let_def space_len_visible)

lemma space_prefix_blank [simp]: "blank c \<Longrightarrow> space_prefix (c # cs) = Suc 0"
  by (auto simp: space_prefix_def blank_def space_len_blank)

lemma fields_from_word: "list_all visible v \<Longrightarrow> fields_from w (v @ s) = fields_from (w @ v) s"
  by (induction v arbitrary: w) simp_all

lemma fields_from_blank:
  "list_all blank b \<Longrightarrow> b \<noteq> [] \<Longrightarrow> fields_from w (b @ s) = (if w = [] then [] else [w]) @ fields_from [] s"
proof (induction b arbitrary: w)
  case (Cons c b)
  then show ?case by (cases b) auto
qed simp

text \<open>A line as blanks and words in turn; only the first stretch of blanks may be empty.\<close>

definition layout :: "(string \<times> string) list \<Rightarrow> string" where
  "layout xs = concat (map (\<lambda>(b, w). b @ w) xs)"

definition layout_ok :: "(string \<times> string) list \<Rightarrow> bool" where
  "layout_ok xs = (list_all (\<lambda>(b, w). list_all blank b \<and> is_word w) xs \<and> list_all (\<lambda>(b, w). b \<noteq> []) (tl xs))"

lemma fields_from_layout:
  "list_all (\<lambda>(b, w). list_all blank b \<and> is_word w \<and> b \<noteq> []) xs \<Longrightarrow>
     fields_from w (layout xs) = (if w = [] then [] else [w]) @ map snd xs"
proof (induction xs arbitrary: w)
  case (Cons x xs)
  obtain b v where x: "x = (b, v)" by fastforce
  with Cons.prems have "list_all blank b" "b \<noteq> []" "list_all visible v" "v \<noteq> []" by (auto simp: is_word_def)
  with Cons x show ?case by (simp add: layout_def fields_from_blank fields_from_word)
qed (simp add: layout_def)

lemma Fields_layout: "layout_ok xs \<Longrightarrow> Fields (layout xs) = map snd xs"
proof (cases xs)
  case Nil
  then show ?thesis by (simp add: Fields_def layout_def)
next
  case (Cons x ys)
  obtain b v where x: "x = (b, v)" by fastforce
  assume ok: "layout_ok xs"
  with Cons x have bv: "list_all blank b" "list_all visible v" "v \<noteq> []"
    and ys: "list_all (\<lambda>(b, w). list_all blank b \<and> is_word w \<and> b \<noteq> []) ys"
    by (auto simp: layout_ok_def is_word_def list_all_iff)
  have "Fields (layout xs) = fields_from [] (v @ layout ys)"
    using bv(1) Cons x by (cases "b = []") (simp_all add: Fields_def layout_def fields_from_blank)
  also have "\<dots> = v # map snd ys" using bv ys by (simp add: fields_from_word fields_from_layout)
  finally show ?thesis using Cons x by simp
qed

lemma layout_ok_Cons:
  "is_word w \<Longrightarrow> list_all (\<lambda>(b, v). list_all blank b \<and> b \<noteq> [] \<and> is_word v) xs \<Longrightarrow> layout_ok (([], w) # xs)"
  by (auto simp: layout_ok_def list_all_iff)

lemma spaces_ok: "\<forall>x \<in> set xs. is_word (f x) \<Longrightarrow>
    list_all (\<lambda>(b, v). list_all blank b \<and> b \<noteq> [] \<and> is_word v) (map (\<lambda>x. ('' '', f x)) xs)"
  by (induction xs) (simp_all add: blank_def)

text \<open>Words separated by one space.\<close>

definition spaced :: "string list \<Rightarrow> string" where
  "spaced ws = concat (map (\<lambda>w. CHR '' '' # w) ws)"

lemma Fields_spaced:
  assumes "is_word w" "list_all is_word ws"
  shows "Fields (w @ spaced ws) = w # ws"
proof -
  have "layout (([], w) # map (Pair '' '') ws) = w @ spaced ws"
    by (simp add: layout_def spaced_def comp_def)
  moreover have "layout_ok (([], w) # map (Pair '' '') ws)"
    using assms by (auto simp: layout_ok_def list_all_iff blank_def)
  ultimately have "Fields (w @ spaced ws) = map snd (([], w) # map (Pair '' '') ws)" by (metis Fields_layout)
  then show ?thesis by (simp add: comp_def)
qed

lemma Fields_spaced0: "list_all is_word ws \<Longrightarrow> Fields (spaced ws) = ws"
proof -
  assume ws: "list_all is_word ws"
  have "layout (map (Pair '' '') ws) = spaced ws" by (simp add: layout_def spaced_def comp_def)
  moreover have "layout_ok (map (Pair '' '') ws)"
    using ws by (cases ws) (auto simp: layout_ok_def list_all_iff blank_def)
  ultimately have "Fields (spaced ws) = map snd (map (Pair '' '') ws)" by (metis Fields_layout)
  then show ?thesis by (simp add: comp_def)
qed

lemma newline_not_visible [simp]: "\<not> visible newline"
  by (simp add: visible_def)

lemma word_no_newline: "is_word w \<Longrightarrow> newline \<notin> set w"
  by (auto simp: is_word_def list_all_iff)

lemma spaced_no_newline: "list_all is_word ws \<Longrightarrow> newline \<notin> set (spaced ws)"
  by (auto simp: spaced_def list_all_iff word_no_newline)

section \<open>Lines\<close>

text \<open>A file of lines, each ended by a newline: splitting it at newlines gives them back, and an empty rest.\<close>

definition unlines :: "string list \<Rightarrow> string" where
  "unlines ls = concat (map (\<lambda>l. l @ [newline]) ls)"

lemma split_on_line: "sep \<notin> set l \<Longrightarrow> split_on sep (l @ sep # s) = l # split_on sep s"
  by (induction l) auto

lemma split_on_single: "sep \<notin> set l \<Longrightarrow> split_on sep l = [l]"
  by (induction l) auto

lemma split_on_unlines: "\<forall>l \<in> set ls. newline \<notin> set l \<Longrightarrow> split_on newline (unlines ls) = ls @ [[]]"
  by (induction ls) (auto simp: unlines_def split_on_line)

lemma split2_char: "c \<notin> set a \<Longrightarrow> split2 [c] (a @ c # b) = Some (a, b)"
  by (induction a) (auto simp: has_prefix_def)

lemma contains_char: "c \<in> set s \<Longrightarrow> contains s [c]"
  by (induction s) (auto simp: has_prefix_def)

lemma trim_left_blanks: "list_all blank b \<Longrightarrow> trim_left (b @ s) = trim_left s"
  by (induction b) simp_all

lemma trim_left_word: "is_word w \<Longrightarrow> trim_left w = w"
  by (cases w) (simp_all add: is_word_def)

lemma space_suffix_visible:
  assumes "list_all visible r" "r \<noteq> []"
  shows "space_suffix r = 0"
proof -
  have z: "space_prefix v = 0" if "list_all visible v" "v \<noteq> []" for v
    using that by (cases v) simp_all
  have v: "list_all visible (take n r)" "list_all visible (rev (take n r))" for n
    using assms(1) by (auto simp: list_all_iff dest: in_set_takeD)
  show ?thesis using z[OF v(1), of 1] z[OF v(2), of 2] z[OF v(2), of 3] assms(2) by (simp add: space_suffix_def)
qed

lemma trim_right_word: "is_word w \<Longrightarrow> trim_right_rev (rev w) = rev w"
proof -
  assume "is_word w"
  then have "space_suffix (rev w) = 0" by (intro space_suffix_visible) (auto simp: is_word_def list_all_iff)
  then show ?thesis by (cases "rev w") simp_all
qed

lemma TrimSpace_blanks_word: "list_all blank b \<Longrightarrow> is_word w \<Longrightarrow> TrimSpace (b @ w) = w"
  by (simp add: TrimSpace_def trim_left_blanks trim_left_word trim_right_word)

lemma trim_right_blanks: "list_all blank b \<Longrightarrow> trim_right_rev (b @ r) = trim_right_rev r"
proof (induction b)
  case (Cons c b)
  have "space_suffix (c # b @ r) = 1" using Cons.prems by (simp add: space_suffix_def)
  with Cons show ?case by simp
qed simp

lemma TrimSpace_padded: "list_all blank b \<Longrightarrow> is_word w \<Longrightarrow> list_all blank b' \<Longrightarrow> TrimSpace (b @ w @ b') = w"
proof -
  assume b: "list_all blank b" "is_word w" "list_all blank b'"
  have "trim_left (w @ b') = w @ b'" using b(2) by (cases w) (simp_all add: is_word_def)
  moreover have "list_all blank (rev b')" using b(3) by (simp add: list_all_iff)
  ultimately show ?thesis using b by (simp add: TrimSpace_def trim_left_blanks trim_right_blanks trim_right_word)
qed

text \<open>Trimming never eats a visible character.\<close>

lemma space_len_full: "space_len ns = length ns \<Longrightarrow> n \<in> set ns \<Longrightarrow> n < 33 \<or> 126 < n"
  by (cases ns rule: space_len.cases) (auto split: if_splits)

lemma space_prefix_full: "space_prefix s = length s \<Longrightarrow> length s \<le> 3 \<Longrightarrow> c \<in> set s \<Longrightarrow> \<not> visible c"
  using space_len_full[of "map of_char s" "of_char c"] by (auto simp: space_prefix_def visible_def Let_def)

lemma space_suffix_invisible: "c \<in> set (take (space_suffix r) r) \<Longrightarrow> \<not> visible c"
proof -
  assume c: "c \<in> set (take (space_suffix r) r)"
  have le: "space_prefix (take k r) \<le> length (take k r)" "space_prefix (rev (take k r)) \<le> length (take k r)" for k
  proof -
    have "space_len ns \<le> length ns" for ns by (cases ns rule: space_len.cases) auto
    then show "space_prefix (take k r) \<le> length (take k r)" "space_prefix (rev (take k r)) \<le> length (take k r)"
      unfolding space_prefix_def by (metis length_map length_take min.bounded_iff length_rev order_refl)+
  qed
  have "space_suffix r = 0 \<or> space_suffix r = 1 \<and> space_prefix (take 1 r) = 1
    \<or> space_suffix r = 2 \<and> space_prefix (rev (take 2 r)) = 2 \<or> space_suffix r = 3 \<and> space_prefix (rev (take 3 r)) = 3"
    by (simp add: space_suffix_def)
  then consider "space_suffix r = 0" | "space_suffix r = 1" "space_prefix (take 1 r) = 1"
    | "space_suffix r = 2" "space_prefix (rev (take 2 r)) = 2" | "space_suffix r = 3" "space_prefix (rev (take 3 r)) = 3"
    by (elim disjE conjE) simp_all
  then show ?thesis
  proof cases
    case 1
    with c show ?thesis by simp
  next
    case 2
    then show ?thesis using le(1)[of 1] space_prefix_full[of "take 1 r" c] c by auto
  next
    case 3
    then show ?thesis using le(2)[of 2] space_prefix_full[of "rev (take 2 r)" c] c by auto
  next
    case 4
    then show ?thesis using le(2)[of 3] space_prefix_full[of "rev (take 3 r)" c] c by auto
  qed
qed

lemma trim_right_visible: "c \<in> set r \<Longrightarrow> visible c \<Longrightarrow> c \<in> set (trim_right_rev r)"
proof (induction r rule: trim_right_rev.induct)
  case (2 d cs)
  show ?case
  proof (cases "space_suffix (d # cs)")
    case 0
    with "2.prems" show ?thesis by simp
  next
    case (Suc k)
    have "c \<notin> set (take (Suc k) (d # cs))" using space_suffix_invisible[of c "d # cs"] "2.prems"(2) Suc by auto
    then have "c \<in> set (drop k cs)"
      using "2.prems"(1) by (metis Un_iff append_take_drop_id drop_Suc_Cons set_append)
    with 2 Suc show ?thesis by simp
  qed
qed simp

lemma TrimSpace_visible: "list_all blank b \<Longrightarrow> is_word w \<Longrightarrow> TrimSpace (b @ w @ s) \<noteq> []"
proof -
  assume b: "list_all blank b" "is_word w"
  then obtain c w' where w: "w = c # w'" "visible c" by (cases w) (auto simp: is_word_def)
  have "trim_left (w @ s) = w @ s" using w by simp
  then have "c \<in> set (trim_right_rev (rev (trim_left (b @ w @ s))))"
    using w b(1) by (intro trim_right_visible) (simp_all add: trim_left_blanks)
  then show ?thesis unfolding TrimSpace_def by (metis empty_iff list.set(1) rev_is_Nil_conv)
qed

text \<open>Parts joined by a separator that occurs in none of them.\<close>

fun join :: "char \<Rightarrow> string list \<Rightarrow> string" where
  "join sep [] = []"
| "join sep [p] = p"
| "join sep (p # q # ps) = p @ sep # join sep (q # ps)"

lemma split_on_join: "\<forall>p \<in> set ps. sep \<notin> set p \<Longrightarrow> ps \<noteq> [] \<Longrightarrow> split_on sep (join sep ps) = ps"
  by (induction sep ps rule: join.induct) (simp_all add: split_on_single split_on_line)

section \<open>Lists that skip what fails\<close>

lemma map_filter_distinct:
  "distinct (map f xs) \<Longrightarrow> (\<And>x y. g x = Some y \<Longrightarrow> h y = f x) \<Longrightarrow> distinct (map h (List.map_filter g xs))"
proof (induction xs)
  case (Cons x xs)
  have "h y \<notin> h ` set (List.map_filter g xs)" if "g x = Some y" for y
    using Cons.prems that by (auto simp: List.map_filter_def image_iff)
  then show ?case using Cons by (cases "g x") (auto simp: List.map_filter_simps)
qed (simp add: List.map_filter_simps)

section \<open>Decimal numbers\<close>

lemma nat_digits_visible: "list_all visible (nat_digits n)"
proof (induction n rule: nat_digits.induct)
  case (1 n)
  have "visible (char_of (48 + d))" if "d < 10" for d :: nat
    using that by (simp add: visible_def of_char_of Let_def)
  with 1 show ?case by (cases "n < 10") (auto simp: nat_digits.simps[of n])
qed

lemma nat_digits_word [simp]: "is_word (nat_digits n)"
  by (simp add: is_word_def nat_digits_visible)

lemma uint_of_digits [simp]: "n < 2 ^ 64 \<Longrightarrow> uint_of (nat_digits n) = of_nat n"
  by (simp add: uint_of_def ParseUint_def parse_nat_digits)

lemma uint_of_unat [simp]: "uint_of (nat_digits (unat w)) = w"
  using u64_less[of w] by simp

section \<open>Parsing floats\<close>

text \<open>
  \<open>strconv.ParseFloat\<close> for decimal notation: sign, digits with an optional fraction, optional
  exponent. Its other inputs (\<open>inf\<close>, \<open>nan\<close>, hexadecimal) do not occur in the files the code reads
  and count as syntax errors here. On a range error the value is an infinity.
\<close>

definition all_digits :: "string \<Rightarrow> bool" where
  "all_digits s = list_all (\<lambda>c. case digit_val c of Some d \<Rightarrow> d < 10 | None \<Rightarrow> False) s"

definition dec_value :: "string \<Rightarrow> nat" where
  "dec_value s = foldl (\<lambda>n c. 10 * n + (case digit_val c of Some d \<Rightarrow> d | None \<Rightarrow> 0)) 0 s"

definition split_sign :: "string \<Rightarrow> bool \<times> string" where
  "split_sign s = (case s of c # cs \<Rightarrow> if c = CHR ''-'' then (True, cs) else if c = CHR ''+'' then (False, cs) else (False, s)
                   | [] \<Rightarrow> (False, s))"

definition dec_float :: "string \<Rightarrow> f64 option" where
  "dec_float s0 =
     (let (neg, s) = split_sign s0;
          mant = takeWhile (\<lambda>c. c \<noteq> CHR ''e'' \<and> c \<noteq> CHR ''E'') s;
          ex = drop (length mant) s;
          ip = takeWhile (\<lambda>c. c \<noteq> CHR ''.'') mant;
          fp = drop (Suc (length ip)) mant;
          (eneg, es) = split_sign (drop 1 ex);
          ok = (all_digits ip \<and> all_digits fp \<and> ip @ fp \<noteq> [] \<and> (ex \<noteq> [] \<longrightarrow> es \<noteq> [] \<and> all_digits es));
          e = (if eneg then - int (dec_value es) else int (dec_value es));
          x = of_nat (dec_value (ip @ fp)) * (10 :: rat) powi (e - int (length fp))
      in if \<not> ok then None else Some (mkf (if neg then - x else x)))"

text \<open>The value when the error is checked, and when it is dropped (\<open>v, _ := strconv.ParseFloat(s, 64)\<close>).\<close>

definition ParseFloat :: "string \<Rightarrow> f64 option" where
  "ParseFloat s = (case dec_float s of Some (Fin y) \<Rightarrow> Some (Fin y) | _ \<Rightarrow> None)"

definition float_of :: "string \<Rightarrow> f64" where
  "float_of s = (case dec_float s of Some v \<Rightarrow> v | None \<Rightarrow> 0)"

section \<open>Percentages\<close>

lemma mkf_of_nat: "n < 2 ^ 53 \<Longrightarrow> mkf (of_nat n) = Fin (of_nat n)"
  using mkf_int[of "int n"] by simp

text \<open>\<open>100 * float64(a) / float64(b)\<close>, correctly rounded while \<open>100 * a\<close> is a float itself.\<close>

definition pct :: "nat \<Rightarrow> nat \<Rightarrow> rat" where
  "pct a b = rnd (100 * of_nat a / of_nat b)"

lemma pct_bounds: "a \<le> b \<Longrightarrow> 0 < b \<Longrightarrow> 0 \<le> pct a b \<and> pct a b \<le> 100"
proof -
  assume ab: "a \<le> b" "0 < b"
  have "(100 :: rat) * of_nat a / of_nat b \<le> of_int 100" using ab by (simp add: divide_le_eq)
  then have "rnd (100 * of_nat a / of_nat b) \<le> of_int 100" by (intro rnd_le_int) auto
  then show ?thesis by (simp add: pct_def rnd_nonneg)
qed

lemma pct_mono: "a \<le> c \<Longrightarrow> pct a b \<le> pct c b"
  unfolding pct_def by (intro rnd_mono divide_right_mono mult_left_mono) auto

lemma pct_full: "0 < b \<Longrightarrow> pct b b = 100"
  using rnd_int[of 100] by (simp add: pct_def)

lemma pct_float:
  assumes "0 < b" "a \<le> b" "100 * b < 2 ^ 53"
  shows "Fin 100 * Fin (of_nat a) / Fin (of_nat b) = Fin (pct a b)"
proof -
  have "(100 :: rat) * of_nat a = of_nat (100 * a)" by simp
  moreover have "100 * a < 2 ^ 53" using assms by linarith
  ultimately have 1: "mkf (100 * of_nat a) = Fin (100 * of_nat a)" by (metis mkf_of_nat)
  have "(100 :: rat) * of_nat a / of_nat b \<le> 100" using assms by (simp add: divide_le_eq)
  moreover have "(100 :: rat) \<le> 2 ^ 200" by simp
  ultimately have "\<bar>100 * of_nat a / of_nat b :: rat\<bar> \<le> 2 ^ 200" by simp
  then show ?thesis using assms(1) 1 mkf_small by (simp add: pct_def)
qed

lemma f_of_u64_pct:
  assumes "0 < unat b" "unat a \<le> unat b" "100 * unat b < 2 ^ 53"
  shows "Fin 100 * f_of_u64 a / f_of_u64 b = Fin (pct (unat a) (unat b))"
proof -
  have "unat a < 2 ^ 53" "unat b < 2 ^ 53" using assms by linarith+
  then have "f_of_u64 a = Fin (of_nat (unat a))" "f_of_u64 b = Fin (of_nat (unat b))"
    by (simp_all add: f_of_u64_exact)
  with pct_float[OF assms] show ?thesis by simp
qed

end
