(* ===== verification/Startup.thy ===== *)
theory Startup
  imports ServerProps ProcText
begin

text \<open>
  Start-up: the configuration (internal/config/config.go) and the choice and seeding of the access
  control (internal/app/app.go). The environment is a map from names to values, \<open>apply_json\<close> is
  \<open>json.Unmarshal\<close> into the configuration that holds the defaults, \<open>exists\<close> is \<open>os.Stat\<close> without error.
\<close>

section \<open>Configuration\<close>

record config =
  UseInflux :: bool
  InfluxURL :: string
  Token :: string
  Bucket :: string
  Org :: string
  DiskMounts :: "string list"
  DataDir :: string
  DockerEnabled :: bool
  SSHWatchEnabled :: bool
  SSHLogPath :: string
  ConnWatchEnabled :: bool
  ConnWatchAuto :: bool
  ConnWatchPorts :: "int list"
  HostProcPath :: string
  HostRootPath :: string
  AuthMode :: string
  AuthEnabled :: bool
  AuthUser :: string
  AuthPassword :: string

definition default_config :: config where
  "default_config = \<lparr>UseInflux = False, InfluxURL = [], Token = [], Bucket = [], Org = [], DiskMounts = [],
     DataDir = ''./data'', DockerEnabled = True, SSHWatchEnabled = False, SSHLogPath = [], ConnWatchEnabled = False,
     ConnWatchAuto = True, ConnWatchPorts = [], HostProcPath = [], HostRootPath = [], AuthMode = [],
     AuthEnabled = False, AuthUser = [], AuthPassword = []\<rparr>"

type_synonym environ = "string \<Rightarrow> string option"

definition envString :: "environ \<Rightarrow> string \<Rightarrow> string \<Rightarrow> string" where
  "envString en key def = (case en key of Some v \<Rightarrow> v | None \<Rightarrow> def)"

text \<open>\<open>strconv.ParseBool\<close>.\<close>

definition ParseBool :: "string \<Rightarrow> bool option" where
  "ParseBool s =
     (if s \<in> {''1'', ''t'', ''T'', ''TRUE'', ''true'', ''True''} then Some True
      else if s \<in> {''0'', ''f'', ''F'', ''FALSE'', ''false'', ''False''} then Some False else None)"

definition envBool :: "environ \<Rightarrow> string \<Rightarrow> bool \<Rightarrow> bool" where
  "envBool en key def =
     (case en key of None \<Rightarrow> def | Some v \<Rightarrow> (case ParseBool v of None \<Rightarrow> def | Some b \<Rightarrow> b))"

definition envStringList :: "environ \<Rightarrow> string \<Rightarrow> string list \<Rightarrow> string list" where
  "envStringList en key def =
     (case en key of
        None \<Rightarrow> def
      | Some v \<Rightarrow> if TrimSpace v = [] then def
                   else filter (\<lambda>p. p \<noteq> []) (map TrimSpace (split_on CHR '','' v)))"

definition envIntList :: "environ \<Rightarrow> string \<Rightarrow> int list \<Rightarrow> int list" where
  "envIntList en key def =
     (case en key of
        None \<Rightarrow> def
      | Some v \<Rightarrow> if TrimSpace v = [] then def
                   else List.map_filter (\<lambda>part. let p = TrimSpace part in
                          if p = [] then None else (case Atoi p of (n, None) \<Rightarrow> Some n | (_, Some _) \<Rightarrow> None))
                        (split_on CHR '','' v))"

text \<open>The assignments in their three groups.\<close>

definition env_storage :: "environ \<Rightarrow> config \<Rightarrow> config" where
  "env_storage en c = c
     \<lparr>UseInflux := envBool en ''USE_INFLUX'' (UseInflux c),
      InfluxURL := envString en ''INFLUX_URL'' (InfluxURL c),
      Token := envString en ''INFLUX_TOKEN'' (Token c),
      Bucket := envString en ''INFLUX_BUCKET'' (Bucket c),
      Org := envString en ''INFLUX_ORG'' (Org c),
      DiskMounts := envStringList en ''DISK_MOUNTS'' (DiskMounts c),
      DataDir := envString en ''DATA_DIR'' (DataDir c),
      DockerEnabled := envBool en ''DOCKER_ENABLED'' (DockerEnabled c)\<rparr>"

definition env_watchers :: "environ \<Rightarrow> config \<Rightarrow> config" where
  "env_watchers en c = c
     \<lparr>SSHWatchEnabled := envBool en ''SSH_WATCH_ENABLED'' (SSHWatchEnabled c),
      SSHLogPath := envString en ''SSH_LOG_PATH'' (SSHLogPath c),
      ConnWatchEnabled := envBool en ''CONN_WATCH_ENABLED'' (ConnWatchEnabled c),
      ConnWatchAuto := envBool en ''CONN_WATCH_AUTO'' (ConnWatchAuto c),
      ConnWatchPorts := envIntList en ''CONN_WATCH_PORTS'' (ConnWatchPorts c),
      HostProcPath := envString en ''HOST_PROC_PATH'' (HostProcPath c),
      HostRootPath := envString en ''HOST_ROOT_PATH'' (HostRootPath c)\<rparr>"

definition env_auth :: "environ \<Rightarrow> config \<Rightarrow> config" where
  "env_auth en c = c
     \<lparr>AuthMode := ToLower (TrimSpace (envString en ''AUTH_MODE'' (AuthMode c))),
      AuthEnabled := envBool en ''AUTH_ENABLED'' (AuthEnabled c),
      AuthUser := envString en ''AUTH_USER'' (AuthUser c),
      AuthPassword := envString en ''AUTH_PASSWORD'' (AuthPassword c)\<rparr>"

definition auth_default :: "config \<Rightarrow> config" where
  "auth_default c = (if AuthMode c = [] then c\<lparr>AuthMode := if AuthEnabled c then ''basic'' else ''none''\<rparr> else c)"

definition data_default :: "config \<Rightarrow> config" where
  "data_default c = (if DataDir c = [] then c\<lparr>DataDir := ''./data''\<rparr> else c)"

definition proc_default :: "(string \<Rightarrow> bool) \<Rightarrow> config \<Rightarrow> config" where
  "proc_default exists c =
     (if HostProcPath c = [] then c\<lparr>HostProcPath := if exists ''/hostproc'' then ''/hostproc'' else ''/proc''\<rparr> else c)"

definition root_default :: "(string \<Rightarrow> bool) \<Rightarrow> config \<Rightarrow> config" where
  "root_default exists c =
     (if HostRootPath c = [] then (if exists ''/hostfs'' then c\<lparr>HostRootPath := ''/hostfs''\<rparr> else c) else c)"

definition Load :: "(string \<Rightarrow> config \<Rightarrow> config) \<Rightarrow> string option \<Rightarrow> environ \<Rightarrow> (string \<Rightarrow> bool) \<Rightarrow> config" where
  "Load apply_json file en exists =
     root_default exists (proc_default exists (data_default (auth_default (env_auth en (env_watchers en (env_storage en
       (apply_json (case file of Some f \<Rightarrow> f | None \<Rightarrow> []) default_config)))))))"

section \<open>Access control\<close>

text \<open>\<open>log.Fatal\<close> ends the process: \<open>Inl\<close> its message.\<close>

definition openUserStore :: "bcrypt \<Rightarrow> env \<Rightarrow> store option \<Rightarrow> config \<Rightarrow> string + store" where
  "openUserStore bc e opened cfg =
     (case opened of
        None \<Rightarrow> Inl ''open user store''
      | Some st \<Rightarrow>
          (case Count e st of
             Inl _ \<Rightarrow> Inl ''count users''
           | Inr n \<Rightarrow>
               if n > 0 then Inr st
               else if AuthUser cfg = [] \<or> AuthPassword cfg = []
               then Inl ''AUTH_MODE=session with no users yet requires AUTH_USER and AUTH_PASSWORD to create the first admin''
               else (case Create bc e st (AuthUser cfg) (AuthPassword cfg) RoleAdmin of
                  (Inl _, _) \<Rightarrow> Inl ''create initial admin''
                | (Inr _, st') \<Rightarrow> Inr st')))"

text \<open>The three ways the dashboard is served.\<close>

datatype access =
  ServeOpen
| ServeBasic string string
| ServeSessions server

definition build_access :: "bcrypt \<Rightarrow> env \<Rightarrow> store option \<Rightarrow> config \<Rightarrow> string + access" where
  "build_access bc e opened cfg =
     (if AuthMode cfg = ''none'' then Inr ServeOpen
      else if AuthMode cfg = ''basic'' then
        (if AuthUser cfg = [] \<or> AuthPassword cfg = []
         then Inl ''AUTH_MODE=basic requires AUTH_USER and AUTH_PASSWORD to be set''
         else Inr (ServeBasic (AuthUser cfg) (AuthPassword cfg)))
      else if AuthMode cfg = ''session'' then
        (case openUserStore bc e opened cfg of
           Inl msg \<Rightarrow> Inl msg
         | Inr st \<Rightarrow> Inr (ServeSessions (NewSession st)))
      else Inl (''unknown AUTH_MODE '' @ AuthMode cfg))"

text \<open>The mux of the modes without sessions: the data endpoints, the mode endpoint and the files.\<close>

definition plain_mux :: "string \<Rightarrow> (request \<Rightarrow> response) \<Rightarrow> request \<Rightarrow> response" where
  "plain_mux mode pages r =
     (if r_method r \<in> {''GET'', ''HEAD''} \<and> r_path r = ''/api/auth/me'' then ModeInfo mode r else pages r)"

definition answer :: "bcrypt \<Rightarrow> renv \<Rightarrow> (request \<Rightarrow> response) \<Rightarrow> request \<Rightarrow> access \<Rightarrow> response \<times> access" where
  "answer bc re pages r a =
     (case a of
        ServeOpen \<Rightarrow> (plain_mux ''none'' pages r, a)
      | ServeBasic u p \<Rightarrow> (BasicAuth u p (plain_mux ''basic'' pages) r, a)
      | ServeSessions srv \<Rightarrow> (let (rsp, srv') = serve bc re pages r srv in (rsp, ServeSessions srv')))"

definition run_server :: "bcrypt \<Rightarrow> ((renv \<times> (request \<Rightarrow> response)) \<times> request) list \<Rightarrow> access \<Rightarrow> access" where
  "run_server bc traffic a = foldl (\<lambda>a (e, r). snd (answer bc (fst e) (snd e) r a)) a traffic"

section \<open>The first administrator\<close>

lemma run_server_sessions:
  "server_ok srv \<Longrightarrow> \<exists>srv'. run_server bc traffic (ServeSessions srv) = ServeSessions srv' \<and> server_ok srv'"
proof (induction traffic arbitrary: srv)
  case (Cons x traffic)
  obtain e r where x: "x = (e, r)" by fastforce
  have "snd (answer bc (fst e) (snd e) r (ServeSessions srv)) = ServeSessions (snd (serve bc (fst e) (snd e) r srv))"
    by (simp add: answer_def split: prod.split)
  then show ?case using Cons.IH[OF serve_ok[OF Cons.prems]] by (simp add: run_server_def x)
qed (simp add: run_server_def)

lemma Create_first:
  assumes "store_ok st" "Create bc e st name pw RoleAdmin = (Inr u, st')"
  shows "store_ok st' \<and> has_admin st'"
proof -
  from Create_Inr[OF assms(2)] obtain row where
    r: "st' = st\<lparr>users := users st @ [row], next_id := next_id st + 1\<rparr>" "u_role row = RoleAdmin" "u_active row" by auto
  then have "has_admin st'" by (simp add: has_admin_def is_active_admin_def)
  then show ?thesis using Create_ok[OF assms(1), of bc e name pw RoleAdmin] assms(2) by simp
qed

lemma openUserStore_ok:
  assumes "openUserStore bc e (Some st) cfg = Inr st'" "store_ok st" "users st = [] \<or> has_admin st"
  shows "store_ok st' \<and> has_admin st'"
proof (cases "users st = []")
  case True
  with assms(1) obtain u where "Create bc e st (AuthUser cfg) (AuthPassword cfg) RoleAdmin = (Inr u, st')"
    by (auto simp: openUserStore_def Count_def split: if_splits sum.splits prod.splits)
  with Create_first[OF assms(2)] show ?thesis by blast
next
  case False
  with assms(1) have "st' = st" by (auto simp: openUserStore_def Count_def split: if_splits)
  with False assms(2,3) show ?thesis by simp
qed

text \<open>C6: in session mode a server that starts on a fresh database, or on one that has an active admin, has one for
  ever after, whatever requests it gets; on the fresh one exactly the configured name and password log in.\<close>

theorem startup_admin:
  assumes "build_access bc e (Some st) cfg = Inr a" "AuthMode cfg = ''session''"
    and "store_ok st" "users st = [] \<or> has_admin st" "bcrypt_ok bc" "no_faults e'" "length pw \<le> 72"
  shows "(\<exists>srv. run_server bc traffic a = ServeSessions srv \<and> store_ok (srv_store srv)
      \<and> (\<exists>r \<in> set (users (srv_store srv)). u_role r = ''admin'' \<and> u_active r))
    \<and> (users st = [] \<longrightarrow> (\<exists>srv u. a = ServeSessions srv \<and> u_role u = ''admin'' \<and>
         Authenticate bc e' (srv_store srv) name pw = (if nocase_eq (AuthUser cfg) name \<and> pw = AuthPassword cfg then Some u else None)))"
proof -
  obtain st' where st': "openUserStore bc e (Some st) cfg = Inr st'" "a = ServeSessions \<lparr>srv_store = st', srv_limiter = fmempty\<rparr>"
    using assms(1,2) by (auto simp: build_access_def NewSession_def split: sum.splits)
  have ok: "store_ok st' \<and> has_admin st'" by (rule openUserStore_ok[OF st'(1) assms(3,4)])
  then have so: "server_ok \<lparr>srv_store = st', srv_limiter = fmempty\<rparr>" by (simp add: server_ok_def)
  have 1: "\<exists>srv. run_server bc traffic a = ServeSessions srv \<and> store_ok (srv_store srv)
      \<and> (\<exists>r \<in> set (users (srv_store srv)). u_role r = ''admin'' \<and> u_active r)"
    using run_server_sessions[OF so, of bc traffic] st'(2)
    by (auto simp: server_ok_def has_admin_def is_active_admin_def RoleAdmin_def)
  have "\<exists>srv u. a = ServeSessions srv \<and> u_role u = ''admin'' \<and>
         Authenticate bc e' (srv_store srv) name pw = (if nocase_eq (AuthUser cfg) name \<and> pw = AuthPassword cfg then Some u else None)"
    if "users st = []"
  proof -
    from that st'(1) obtain u where c: "Create bc e st (AuthUser cfg) (AuthPassword cfg) RoleAdmin = (Inr u, st')"
      by (auto simp: openUserStore_def Count_def split: if_splits sum.splits prod.splits)
    have none: "Authenticate bc e' st name pw = None" using assms(6) that by (simp add: Authenticate_def)
    from Create_Inr[OF c] have "u_role u = ''admin''" by (auto simp: scanUser_def RoleAdmin_def user.truncate_def)
    with Create_auth[OF assms(5,3,6,7) c] none st'(2) show ?thesis by auto
  qed
  with 1 show ?thesis by blast
qed

definition ex_cfg :: config where
  "ex_cfg = default_config\<lparr>AuthMode := ''session'', AuthUser := ''root'', AuthPassword := ''hunter2hunter2''\<rparr>"

lemma ex_first:
  "build_access ex_bc ex_env (Some empty_store) ex_cfg = Inr (ServeSessions \<lparr>srv_store =
     \<lparr>users = [\<lparr>u_id = 1, u_name = ''root'', u_role = ''admin'', u_active = True, u_created = 1000000000000, password_hash = ''hunter2hunter2''\<rparr>],
      sessions = [], next_id = 2\<rparr>, srv_limiter = fmempty\<rparr>)"
  by (simp add: build_access_def NewSession_def openUserStore_def Count_def ex_cfg_def default_config_def empty_store_def Create_def ex_defs
      usernameRe_def name_char_def Valid_def RoleAdmin_def hashPassword_def nocase_eq_def scanUser_def user.truncate_def
      t_of_unix_def t_unix_def Let_def)

theorem startup_admin_witness:
  "\<exists>srv. run_server ex_bc [((\<lambda>_. ex_env, \<lambda>_. resp 200 BEmpty), ex_req)] (ServeSessions \<lparr>srv_store =
     \<lparr>users = [\<lparr>u_id = 1, u_name = ''root'', u_role = ''admin'', u_active = True, u_created = 1000000000000, password_hash = ''hunter2hunter2''\<rparr>],
      sessions = [], next_id = 2\<rparr>, srv_limiter = fmempty\<rparr>) = ServeSessions srv
     \<and> (\<exists>r \<in> set (users (srv_store srv)). u_role r = ''admin'' \<and> u_active r)"
proof -
  have "store_ok empty_store" "users empty_store = []" "AuthMode ex_cfg = ''session''"
    by (simp_all add: store_ok_def empty_store_def ex_cfg_def)
  from startup_admin[OF ex_first this(3,1) _ ex_bcrypt_ok ex_env_no_faults(1), of "''''"] this(2) show ?thesis by force
qed

section \<open>One password for all\<close>

text \<open>in basic mode the server refuses to start without a name and a password, and no request is answered by the
  dashboard unless it carries exactly that name and that password: every other one gets 401 and a challenge.\<close>

theorem basic_mode_guards:
  assumes "build_access bc e opened cfg = Inr a" "AuthMode cfg = ''basic''"
    and "r_basic r \<noteq> Some (AuthUser cfg, AuthPassword cfg)"
  shows "AuthUser cfg \<noteq> [] \<and> AuthPassword cfg \<noteq> [] \<and> snd (answer bc re pages r a) = a
    \<and> status (fst (answer bc re pages r a)) = 401 \<and> challenge (fst (answer bc re pages r a))
    \<and> fst (answer bc re pages r a) = fst (answer bc re pages' r a)"
proof -
  have a: "a = ServeBasic (AuthUser cfg) (AuthPassword cfg)" "AuthUser cfg \<noteq> []" "AuthPassword cfg \<noteq> []"
    using assms(1,2) by (auto simp: build_access_def split: if_splits)
  have "BasicAuth (AuthUser cfg) (AuthPassword cfg) nxt r = (resp 401 (BError ''Unauthorized''))\<lparr>challenge := True\<rparr>" for nxt
    using assms(3) a(2) by (auto simp: BasicAuth_def split: option.splits)
  then show ?thesis using a by (simp add: answer_def resp_def)
qed

theorem basic_mode_guards_witness:
  "status (fst (answer ex_bc (\<lambda>_. ex_env) (\<lambda>_. resp 200 BEmpty) ex_req (ServeBasic ''root'' ''hunter2hunter2''))) = 401"
proof -
  have "build_access ex_bc ex_env None (ex_cfg\<lparr>AuthMode := ''basic''\<rparr>) = Inr (ServeBasic ''root'' ''hunter2hunter2'')"
    by (simp add: build_access_def ex_cfg_def default_config_def)
  from basic_mode_guards[OF this, where r = ex_req and re = "\<lambda>_. ex_env" and pages = "\<lambda>_. resp 200 BEmpty" and pages' = "\<lambda>_. resp 200 BEmpty"]
  have "status (fst (answer ex_bc (\<lambda>_. ex_env) (\<lambda>_. resp 200 BEmpty) ex_req (ServeBasic ''root'' ''hunter2hunter2''))) = 401"
    by (auto simp: ex_cfg_def default_config_def ex_req_def)
  then show ?thesis .
qed

section \<open>Which mode a deployment gets\<close>

lemma Load_mode:
  "AuthMode (Load apply_json file en exists) =
     (let c0 = apply_json (case file of Some f \<Rightarrow> f | None \<Rightarrow> []) default_config;
          raw = ToLower (TrimSpace (envString en ''AUTH_MODE'' (AuthMode c0)))
      in if raw \<noteq> [] then raw else if envBool en ''AUTH_ENABLED'' (AuthEnabled c0) then ''basic'' else ''none'')"
proof -
  have "AuthMode (root_default exists c) = AuthMode c" "AuthMode (proc_default exists c) = AuthMode c" "AuthMode (data_default c) = AuthMode c" for c
    by (simp_all add: root_default_def proc_default_def data_default_def)
  moreover have "AuthMode (env_watchers en c) = AuthMode c" "AuthMode (env_storage en c) = AuthMode c"
    "AuthEnabled (env_watchers en c) = AuthEnabled c" "AuthEnabled (env_storage en c) = AuthEnabled c" for c
    by (simp_all add: env_watchers_def env_storage_def)
  moreover have "AuthMode (auth_default (env_auth en c)) = (let raw = ToLower (TrimSpace (envString en ''AUTH_MODE'' (AuthMode c)))
      in if raw \<noteq> [] then raw else if envBool en ''AUTH_ENABLED'' (AuthEnabled c) then ''basic'' else ''none'')" for c
    by (simp add: auth_default_def env_auth_def Let_def)
  ultimately show ?thesis by (simp add: Load_def Let_def)
qed

text \<open>an AUTH_MODE that is set but blank does not count as unset: it hides the mode of config.json, and with no
  AUTH_ENABLED the dashboard is served to anyone, whatever mode the file asks for.\<close>

theorem blank_mode_opens:
  assumes "en ''AUTH_MODE'' = Some b" "list_all blank b" "en ''AUTH_ENABLED'' = None"
    and "\<not> AuthEnabled (apply_json (case file of Some f \<Rightarrow> f | None \<Rightarrow> []) default_config)"
  shows "build_access bc e opened (Load apply_json file en exists) = Inr ServeOpen
    \<and> fst (answer bc re pages r ServeOpen) = plain_mux ''none'' pages r"
proof -
  have "TrimSpace b = []" using trim_left_blanks[OF assms(2), of "[]"] by (simp add: TrimSpace_def)
  then have "AuthMode (Load apply_json file en exists) = ''none''"
    using assms by (simp add: Load_mode envString_def envBool_def ToLower_def Let_def)
  then show ?thesis by (simp add: build_access_def answer_def)
qed

theorem blank_mode_opens_witness:
  "build_access ex_bc ex_env (Some empty_store)
     (Load (\<lambda>f c. c\<lparr>AuthMode := ''session''\<rparr>) (Some ''{}'') (\<lambda>k. if k = ''AUTH_MODE'' then Some '''' else None) (\<lambda>_. False)) = Inr ServeOpen"
  by (rule blank_mode_opens[where b = "[]", THEN conjunct1]) (simp_all add: default_config_def)

section \<open>Lists in the environment\<close>

lemma Itoa_word: "is_word (Itoa n)"
  using nat_digits_visible[of "nat (- n)"] nat_digits_visible[of "nat n"] by (simp add: Itoa_def is_word_def visible_def)

lemma Itoa_no_comma: "CHR '','' \<notin> set (Itoa n)"
proof -
  have "CHR '','' \<notin> set (nat_digits m)" for m
  proof (induction m rule: nat_digits.induct)
    case (1 m)
    have "digit_val CHR '','' = None" by (simp add: digit_val_def)
    then have "CHR '','' \<noteq> char_of (48 + d)" if "d < 10" for d :: nat
      using digit_val_char[OF that] by (metis option.distinct(1))
    with 1 show ?case by (cases "m < 10") (auto simp: nat_digits.simps[of m])
  qed
  then show ?thesis by (simp add: Itoa_def)
qed

definition int_parts :: "(string \<times> int \<times> string) list \<Rightarrow> string list" where
  "int_parts ps = map (\<lambda>(b, n, b'). b @ Itoa n @ b') ps"

text \<open>a list of ports written with commas and any blanks around them is read back exactly, in order, with its repetitions.\<close>

theorem envIntList_roundtrip:
  assumes "en key = Some (join CHR '','' (int_parts ps))" "ps \<noteq> []"
    and "\<forall>(b, n, b') \<in> set ps. list_all blank b \<and> list_all blank b' \<and> - (2 ^ 63) \<le> n \<and> n < 2 ^ 63"
  shows "envIntList en key def = map (\<lambda>(b, n, b'). n) ps"
proof -
  let ?v = "join CHR '','' (int_parts ps)"
  let ?f = "\<lambda>part. let p = TrimSpace part in if p = [] then None else (case Atoi p of (n, None) \<Rightarrow> Some n | (_, Some _) \<Rightarrow> None)"
  have nb: "CHR '','' \<notin> set b" if "list_all blank b" for b
    using that by (induction b) (auto simp: blank_def)
  have sp: "split_on CHR '','' ?v = int_parts ps"
    using assms(2,3) Itoa_no_comma nb by (intro split_on_join) (auto simp: int_parts_def)
  have f: "?f (b @ Itoa n @ b') = Some n" if "(b, n, b') \<in> set ps" for b n b'
  proof -
    have b: "list_all blank b" "list_all blank b'" "- (2 ^ 63) \<le> n" "n < 2 ^ 63" using assms(3) that by auto
    have "Itoa n \<noteq> []" using Itoa_word[of n] by (simp add: is_word_def)
    then show ?thesis using TrimSpace_padded[OF b(1) Itoa_word b(2)] Atoi_Itoa[OF b(3,4)] by (simp add: Let_def)
  qed
  have "List.map_filter ?f (int_parts ps) = map (\<lambda>(b, n, b'). n) ps"
    using f unfolding int_parts_def by (induction ps) (auto simp: List.map_filter_simps)
  moreover have "TrimSpace ?v \<noteq> []"
  proof -
    obtain b n b' qs where ps: "ps = (b, n, b') # qs" using assms(2) by (metis list.exhaust prod_cases3)
    then obtain rest where "?v = b @ Itoa n @ rest"
      by (cases "int_parts qs") (auto simp: int_parts_def)
    then show ?thesis using TrimSpace_visible[OF _ Itoa_word, of b n rest] assms(3) ps by simp
  qed
  ultimately show ?thesis by (simp add: envIntList_def assms(1) sp)
qed

theorem envIntList_roundtrip_witness:
  "envIntList (\<lambda>k. if k = ''CONN_WATCH_PORTS'' then Some (join CHR '','' (int_parts [([], 25565, []), ('' '', 7777, '' '')])) else None)
     ''CONN_WATCH_PORTS'' [] = [25565, 7777]"
  by (subst envIntList_roundtrip[where ps = "[([], 25565, []), ('' '', 7777, '' '')]"]) (simp_all add: blank_def)

end
