(* ===== verification/EventLog.thy ===== *)
theory EventLog
  imports GoTime GoStrings
begin

text \<open>
  The capped logs: \<open>EventLog\<close> of package \<open>security\<close> (internal/security/eventlog.go), its file
  included, and the in-memory metric store and its fan-out (internal/storage/memory.go, multi.go).
  Both keep the most recent entries, which the locale below states once for whoever uses them.
\<close>

section \<open>The contract of a capped log\<close>

locale capped_log =
  fixes put :: "'i \<Rightarrow> 'x \<Rightarrow> 's \<Rightarrow> 's"
    and view :: "'s \<Rightarrow> 'x list"
    and ok :: "'s \<Rightarrow> bool"
    and cap :: nat
  assumes put_ok: "ok s \<Longrightarrow> ok (put i x s)"
    and view_put: "ok s \<Longrightarrow> view (put i x s) = lastn cap (view s @ [x])"
begin

lemma run_ok: "ok s \<Longrightarrow> ok (foldl (\<lambda>s (i, x). put i x s) s xs)"
  by (induction xs arbitrary: s) (auto intro: put_ok)

lemma view_run:
  "ok s \<Longrightarrow> xs \<noteq> [] \<Longrightarrow> view (foldl (\<lambda>s (i, x). put i x s) s xs) = lastn cap (view s @ map snd xs)"
proof (induction xs arbitrary: s)
  case (Cons ix xs)
  obtain i x where ix: "ix = (i, x)" by force
  show ?case
  proof (cases "xs = []")
    case True
    with Cons.prems show ?thesis by (simp add: ix view_put)
  next
    case False
    have "view (foldl (\<lambda>s (i, x). put i x s) (put i x s) xs) = lastn cap (lastn cap (view s @ [x]) @ map snd xs)"
      using Cons.IH[OF put_ok[OF Cons.prems(1)] False] Cons.prems(1) by (simp add: view_put)
    then show ?thesis by (simp add: ix lastn_lastn_append)
  qed
qed simp

lemma view_run_length:
  "ok s \<Longrightarrow> xs \<noteq> [] \<Longrightarrow> length (view (foldl (\<lambda>s (i, x). put i x s) s xs)) \<le> cap"
  by (simp add: view_run)

end

section \<open>EventLog\<close>

text \<open>
  The events and the file behind them; \<open>el_file\<close> is what opening the path would read, \<open>None\<close> when it
  cannot be opened. \<open>json.Marshal\<close> and \<open>Unmarshal\<close> at the event's type are the parameters \<open>enc\<close>, \<open>dec\<close>.
  A write can fail at each step: creating the temporary file, writing it (\<open>io_written = Some n\<close>: only
  the first \<open>n\<close> bytes reach it, which the code does not notice), renaming it.
\<close>

record 'a event_log =
  el_file :: "string option"
  el_cap :: nat
  el_events :: "'a list"

record io =
  io_create :: bool
  io_written :: "nat option"
  io_rename :: bool

definition encode_lines :: "('a \<Rightarrow> string option) \<Rightarrow> 'a list \<Rightarrow> string" where
  "encode_lines enc es = concat (map (\<lambda>e. case enc e of None \<Rightarrow> [] | Some b \<Rightarrow> b @ [newline]) es)"

definition persist_file :: "io \<Rightarrow> string \<Rightarrow> string option \<Rightarrow> string option" where
  "persist_file io content old =
     (if \<not> io_create io then old
      else let written = (case io_written io of None \<Rightarrow> content | Some n \<Rightarrow> take n content)
           in if io_rename io then Some written else old)"

definition persist :: "('a \<Rightarrow> string option) \<Rightarrow> io \<Rightarrow> 'a event_log \<Rightarrow> 'a event_log" where
  "persist enc io l = l\<lparr>el_file := persist_file io (encode_lines enc (el_events l)) (el_file l)\<rparr>"

definition load_lines :: "nat \<Rightarrow> (string \<Rightarrow> 'a option) \<Rightarrow> string option \<Rightarrow> 'a list" where
  "load_lines mx dec f = (case f of None \<Rightarrow> [] | Some s \<Rightarrow> List.map_filter dec (scan_lines mx s))"

definition NewEventLog :: "(string \<Rightarrow> 'a option) \<Rightarrow> nat \<Rightarrow> string option \<Rightarrow> 'a event_log" where
  "NewEventLog dec capacity f =
     \<lparr>el_file = f, el_cap = capacity, el_events = load_lines (1024 * 1024) dec f\<rparr>"

definition Append :: "('a \<Rightarrow> string option) \<Rightarrow> io \<Rightarrow> 'a \<Rightarrow> 'a event_log \<Rightarrow> 'a event_log" where
  "Append enc io e l =
     (let es = el_events l @ [e];
          es' = (if length es > el_cap l then drop (length es - el_cap l) es else es)
      in persist enc io (l\<lparr>el_events := es'\<rparr>))"

definition Recent :: "int \<Rightarrow> 'a event_log \<Rightarrow> 'a list" where
  "Recent n l =
     (let len = length (el_events l);
          m = (if n \<le> 0 \<or> n > int len then len else nat n)
      in map (\<lambda>i. el_events l ! (len - 1 - i)) [0..<m])"

lemma Append_events [simp]:
  "el_events (Append enc io e l) = lastn (el_cap l) (el_events l @ [e])"
  "el_cap (Append enc io e l) = el_cap l"
  by (auto simp: Append_def persist_def Let_def lastn_def)

interpretation elog: capped_log "Append enc" el_events "\<lambda>l. el_cap l = n" n for enc n
  by unfold_locales simp_all

lemma Recent_eq:
  "Recent n l = (if n \<le> 0 then rev (el_events l) else take (nat n) (rev (el_events l)))"
proof -
  have "map (\<lambda>i. xs ! (length xs - 1 - i)) [0..<m] = take m (rev xs)" if "m \<le> length xs" for m and xs :: "'a list"
    using that by (intro nth_equalityI) (auto simp: rev_nth)
  then show ?thesis by (auto simp: Recent_def Let_def)
qed

section \<open>Restarting\<close>

text \<open>What the codec of the event type has to give: one line of JSON that parses back.\<close>

definition codec_ok :: "('a \<Rightarrow> string option) \<Rightarrow> (string \<Rightarrow> 'a option) \<Rightarrow> 'a \<Rightarrow> bool" where
  "codec_ok enc dec e \<longleftrightarrow> (\<exists>b. enc e = Some b \<and> dec b = Some e \<and> newline \<notin> set b \<and>
     CHR 0x0D \<notin> set b \<and> length b < 1024 * 1024)"

lemma encode_lines_ok:
  "\<forall>e \<in> set es. codec_ok enc dec e \<Longrightarrow>
   encode_lines enc es = concat (map (\<lambda>l. l @ [newline]) (map (\<lambda>e. the (enc e)) es))"
  by (induction es) (auto simp: encode_lines_def codec_ok_def)

lemma load_encoded:
  assumes "\<forall>e \<in> set es. codec_ok enc dec e"
  shows "load_lines (1024 * 1024) dec (Some (encode_lines enc es)) = es"
proof -
  have "\<forall>l \<in> set (map (\<lambda>e. the (enc e)) es). newline \<notin> set l \<and> CHR 0x0D \<notin> set l \<and> length l < 1024 * 1024"
    using assms by (auto simp: codec_ok_def)
  from scan_lines_concat[OF this] have
    "scan_lines (1024 * 1024) (encode_lines enc es) = map (\<lambda>e. the (enc e)) es"
    by (simp add: encode_lines_ok[OF assms])
  moreover have "List.map_filter dec (map (\<lambda>e. the (enc e)) es) = es"
    using assms by (induction es) (auto simp: codec_ok_def)
  ultimately show ?thesis by (simp add: load_lines_def)
qed

definition io_fine :: "io \<Rightarrow> bool" where
  "io_fine io \<longleftrightarrow> io_create io \<and> io_written io = None \<and> io_rename io"

text \<open>C39: the log keeps the most recent events and survives a restart: after any number of appends,
  whatever became of earlier writes, if the last write went through then loading the file into a
  new log gives the very same log, and \<open>Recent\<close> answers the newest events first, at most \<open>cap\<close>.\<close>

theorem eventlog_survives_restart:
  assumes "0 < capacity" "el_cap l = capacity" "io_fine io"
    and "\<forall>x \<in> set (el_events l @ map snd xs @ [e]). codec_ok enc dec x"
  shows "let l' = Append enc io e (foldl (\<lambda>l (io, e). Append enc io e l) l xs) in
     NewEventLog dec capacity (el_file l') = l' \<and>
     Recent n l' = (let all = rev (lastn capacity (el_events l @ map snd xs @ [e]))
                    in if n \<le> 0 then all else take (nat n) all)"
proof -
  define l' where "l' = Append enc io e (foldl (\<lambda>l (io, e). Append enc io e l) l xs)"
  have l': "l' = foldl (\<lambda>l (io, e). Append enc io e l) l (xs @ [(io, e)])" by (simp add: l'_def)
  have ev: "el_events l' = lastn capacity (el_events l @ map snd xs @ [e])" and cap: "el_cap l' = capacity"
    unfolding l' using elog.view_run[OF assms(2), of "xs @ [(io, e)]" enc]
      elog.run_ok[OF assms(2), of enc "xs @ [(io, e)]"] by simp_all
  have "\<forall>x \<in> set (el_events l'). codec_ok enc dec x"
    unfolding ev using assms(4) set_lastn by fastforce
  note load = load_encoded[OF this]
  have "el_file l' = Some (encode_lines enc (el_events l'))"
    using assms(3) unfolding l'_def
    by (simp add: Append_def persist_def Let_def persist_file_def io_fine_def)
  then have "NewEventLog dec capacity (el_file l') = l'"
    using load cap by (simp add: NewEventLog_def)
  then show ?thesis by (simp add: l'_def[symmetric] Recent_eq ev Let_def)
qed

definition ex_io :: io where
  "ex_io = \<lparr>io_create = True, io_written = None, io_rename = True\<rparr>"

definition ex_io_bad :: io where
  "ex_io_bad = \<lparr>io_create = True, io_written = Some 1, io_rename = True\<rparr>"

theorem eventlog_survives_restart_witness:
  "let l' = Append Some ex_io ''c'' (Append Some ex_io_bad ''b'' (Append Some ex_io ''a'' (NewEventLog Some 2 None)))
   in NewEventLog Some 2 (el_file l') = l' \<and> Recent 0 l' = [''c'', ''b'']"
proof -
  have c: "\<forall>x \<in> set ([] @ map snd [(ex_io, ''a''), (ex_io_bad, ''b'')] @ [''c'']). codec_ok Some Some x"
    by (simp add: codec_ok_def)
  have n: "el_events (NewEventLog Some 2 None :: string event_log) = []" "el_cap (NewEventLog Some 2 None :: string event_log) = 2"
    by (simp_all add: NewEventLog_def load_lines_def)
  from eventlog_survives_restart[of 2 "NewEventLog Some 2 None" ex_io "[(ex_io, ''a''), (ex_io_bad, ''b'')]" "''c''" Some Some 0,
      unfolded n(1), OF _ n(2) _ c]
  show ?thesis by (simp add: Let_def io_fine_def ex_io_def lastn_def)
qed

text \<open>a write that is cut short is not noticed and is renamed over the log: the events that did not
  reach the temporary file are lost at the next restart, although the log had them on disk before.\<close>

theorem eventlog_short_write_loses:
  "let l1 = Append Some ex_io ''b'' (Append Some ex_io ''a'' (NewEventLog Some 500 None));
       l2 = Append Some ex_io_bad ''c'' l1
   in el_events (NewEventLog Some 500 (el_file l1)) = [''a'', ''b''] \<and>
      el_events (NewEventLog Some 500 (el_file l2)) = [''a'']"
  by (simp add: Let_def Append_def persist_def persist_file_def NewEventLog_def load_lines_def encode_lines_def
      scan_lines_def drop_cr_def ex_io_def ex_io_bad_def)

section \<open>MemoryStore and MultiStore\<close>

record 'm mem_store =
  ms_data :: "'m list"
  ms_max :: nat

definition NewMemoryStore :: "'m mem_store" where
  "NewMemoryStore = \<lparr>ms_data = [], ms_max = 300\<rparr>"

definition Save :: "'m \<Rightarrow> 'm mem_store \<Rightarrow> 'm mem_store" where
  "Save p m =
     (let d = (if length (ms_data m) \<ge> ms_max m then drop 1 (ms_data m) else ms_data m)
      in m\<lparr>ms_data := d @ [p]\<rparr>)"

definition GetAll :: "'m mem_store \<Rightarrow> 'm list" where
  "GetAll m = ms_data m"

lemma Save_view:
  assumes "length (ms_data m) \<le> ms_max m" "0 < ms_max m"
  shows "ms_data (Save p m) = lastn (ms_max m) (ms_data m @ [p])"
  using assms by (cases "ms_data m") (auto simp: Save_def Let_def lastn_def)

definition mem_ok :: "nat \<Rightarrow> 'm mem_store \<Rightarrow> bool" where
  "mem_ok n m \<longleftrightarrow> ms_max m = Suc n \<and> length (ms_data m) \<le> Suc n"

interpretation mem: capped_log "\<lambda>(_ :: unit). Save" GetAll "mem_ok n" "Suc n" for n
proof unfold_locales
  fix s :: "'a mem_store" and i :: unit and x
  assume m: "mem_ok n s"
  then show "GetAll (Save x s) = lastn (Suc n) (GetAll s @ [x])"
    using Save_view[of s x] by (simp add: GetAll_def mem_ok_def)
  with m show "mem_ok n (Save x s)" by (simp add: mem_ok_def GetAll_def) (simp add: Save_def Let_def)
qed

text \<open>
  \<open>MultiStore.Save\<close> starts one goroutine per store: the samples still to be saved in the memory store
  are a multiset from which the scheduler takes any one.
\<close>

inductive multi_run :: "'m list \<Rightarrow> 'm multiset \<times> 'm mem_store \<Rightarrow> bool" where
  init: "multi_run [] ({#}, NewMemoryStore)"
| save: "multi_run ps (pend, m) \<Longrightarrow> multi_run (ps @ [p]) (add_mset p pend, m)"
| exec: "multi_run ps (pend, m) \<Longrightarrow> p \<in># pend \<Longrightarrow> multi_run ps (pend - {#p#}, Save p m)"

lemma Save_length: "length (ms_data m) < ms_max m \<Longrightarrow> ms_data (Save p m) = ms_data m @ [p]"
  by (simp add: Save_def Let_def)

lemma multi_run_count:
  "multi_run ps t \<Longrightarrow> t = (pend, m) \<Longrightarrow> mem_ok 299 m \<and> length (ms_data m) + size pend \<le> length ps
     \<and> (length ps \<le> 300 \<longrightarrow> mset (ms_data m) + pend = mset ps)"
proof (induction arbitrary: pend m rule: multi_run.induct)
  case init
  then show ?case by (auto simp: NewMemoryStore_def mem_ok_def)
next
  case (save ps pend m p)
  then show ?case by auto
next
  case (exec ps pend0 m0 p)
  from exec.IH[OF refl] have IH: "mem_ok 299 m0" "length (ms_data m0) + size pend0 \<le> length ps"
    "length ps \<le> 300 \<longrightarrow> mset (ms_data m0) + pend0 = mset ps" by auto
  have p: "pend0 = add_mset p pend" "m = Save p m0" using exec.prems exec.hyps(2) by auto
  have "length (ms_data m) + size pend \<le> length ps"
    using IH(2) p by (cases "ms_data m0") (auto simp: Save_def Let_def)
  moreover have "mem_ok 299 m" using mem.put_ok[OF IH(1)] p by simp
  moreover have "mset (ms_data m) + pend = mset ps" if "length ps \<le> 300"
  proof -
    have "length (ms_data m0) < ms_max m0" using IH(1,2) that p by (simp add: mem_ok_def)
    with IH(3) that p show ?thesis by (simp add: Save_length)
  qed
  ultimately show ?case by blast
qed

lemma multi_run_stored: "multi_run ps (pend, m) \<Longrightarrow> set (ms_data m) \<subseteq> set ps"
proof -
  have "set (ms_data m) \<subseteq> set ps \<and> set_mset pend \<subseteq> set ps" if "multi_run ps (pend, m)"
    using that
  proof (induction ps "(pend, m)" arbitrary: pend m rule: multi_run.induct)
    case (exec ps pend m q)
    then show ?case by (auto simp: Save_def Let_def dest!: in_set_dropD in_diffD)
  qed (auto simp: NewMemoryStore_def)
  then show "multi_run ps (pend, m) \<Longrightarrow> set (ms_data m) \<subseteq> set ps" by blast
qed

text \<open>however the saving goroutines are scheduled, the memory store never holds more than 300
  samples, and until 300 have been collected every sample is either in the store or still waiting:
  none is lost and none is stored twice.\<close>

theorem multi_store_keeps_samples:
  assumes "multi_run ps (pend, m)"
  shows "length (GetAll m) \<le> 300 \<and> (length ps \<le> 300 \<longrightarrow> mset (GetAll m) + pend = mset ps)"
  using multi_run_count[OF assms refl] by (simp add: mem_ok_def GetAll_def)

text \<open>The second sample may be stored before the first one: the order of collection is not kept.\<close>

theorem multi_store_keeps_samples_witness:
  "multi_run [1, 2 :: int] ({#}, Save 1 (Save 2 NewMemoryStore)) \<and> GetAll (Save 1 (Save 2 NewMemoryStore)) = [2, 1 :: int]
   \<and> length (GetAll (Save 1 (Save 2 NewMemoryStore)) :: int list) \<le> 300"
proof -
  have "multi_run [1, 2 :: int] ({#2, 1#}, NewMemoryStore)"
    using multi_run.save[OF multi_run.save[OF multi_run.init, of "1 :: int"], of 2] by simp
  from multi_run.exec[OF multi_run.exec[OF this, of 2], of 1]
  have r: "multi_run [1, 2 :: int] ({#}, Save 1 (Save 2 NewMemoryStore))" by simp
  from multi_store_keeps_samples[OF r] r show ?thesis
    by (simp add: GetAll_def) (simp add: Save_def NewMemoryStore_def)
qed

end
