(* ===== verification/Connections.thy ===== *)
theory Connections
  imports EventLog
begin

text \<open>
  The connection watcher of package \<open>security\<close> (internal/security/connections.go): parsing the
  kernel's TCP tables, the addresses of package \<open>net\<close> it prints, and one poll.
\<close>

section \<open>Addresses (package net)\<close>

type_synonym ip = "nat list"

definition IPv4 :: "nat \<Rightarrow> nat \<Rightarrow> nat \<Rightarrow> nat \<Rightarrow> ip" where
  "IPv4 a b c d = replicate 10 0 @ [255, 255, a, b, c, d]"

definition To4 :: "ip \<Rightarrow> ip option" where
  "To4 p = (if length p = 4 then Some p
            else if length p = 16 \<and> take 12 p = replicate 10 0 @ [255, 255] then Some (drop 12 p)
            else None)"

definition IsLoopback :: "ip \<Rightarrow> bool" where
  "IsLoopback p = (case To4 p of Some q \<Rightarrow> hd q = 127 | None \<Rightarrow> p = replicate 15 0 @ [1])"

fun join_with :: "string \<Rightarrow> string list \<Rightarrow> string" where
  "join_with sep [] = []"
| "join_with sep [s] = s"
| "join_with sep (s # t # r) = s @ sep @ join_with sep (t # r)"

fun hex_nat :: "nat \<Rightarrow> string" where
  "hex_nat n = (if n < 16 then [hex_digit n] else hex_nat (n div 16) @ [hex_digit (n mod 16)])"

declare hex_nat.simps [simp del]

fun groups16 :: "ip \<Rightarrow> nat list" where
  "groups16 (a # b # r) = (256 * a + b) # groups16 r"
| "groups16 _ = []"

text \<open>The longest run of at least two zero groups, the first of several, is written as a double colon.\<close>

definition zero_run :: "nat list \<Rightarrow> nat \<Rightarrow> nat" where
  "zero_run gs i = length (takeWhile (\<lambda>g. g = 0) (drop i gs))"

definition longest_zeros :: "nat list \<Rightarrow> nat \<times> nat" where
  "longest_zeros gs =
     foldl (\<lambda>(s, e) i. let l = zero_run gs i in if l \<ge> 2 \<and> l > e - s then (i, i + l) else (s, e))
       (8, 8) [0..<8]"

definition ip_string :: "ip \<Rightarrow> string" where
  "ip_string p =
     (case To4 p of
        Some q \<Rightarrow> join_with ''.'' (map nat_digits q)
      | None \<Rightarrow>
          let gs = groups16 p; (s, e) = longest_zeros gs
          in if s = e then join_with '':'' (map hex_nat gs)
             else join_with '':'' (map hex_nat (take s gs)) @ ''::'' @ join_with '':'' (map hex_nat (drop e gs)))"

section \<open>Parsing\<close>

definition tcpStateEstablished :: string where "tcpStateEstablished = ''01''"
definition tcpStateListen :: string where "tcpStateListen = ''0A''"

record tcp_entry =
  localIP :: ip
  localPort :: int
  remoteIP :: string
  conn_state :: string

definition decodeHexPort :: "string \<Rightarrow> int" where
  "decodeHexPort h = (case ParseUint h 16 32 of (v, None) \<Rightarrow> int v | (v, Some er) \<Rightarrow> 0)"

text \<open>One 8-character chunk after the other, the four bytes of each in reverse.\<close>

function decode_chunks :: "string \<Rightarrow> nat list option" where
  "decode_chunks [] = Some []"
| "decode_chunks (c # cs) =
     (case hex_decode (take 8 (c # cs)) of
        Some [x0, x1, x2, x3] \<Rightarrow>
          map_option (\<lambda>r. x3 # x2 # x1 # x0 # r) (decode_chunks (drop 7 cs))
      | _ \<Rightarrow> None)"
  by pat_completeness auto
termination by (relation "measure length") auto

definition decodeHexAddr :: "string \<Rightarrow> ip option" where
  "decodeHexAddr h =
     (if length h \<noteq> 8 \<and> length h \<noteq> 32 then None
      else case decode_chunks h of
        None \<Rightarrow> None
      | Some raw \<Rightarrow> if length raw = 4 then Some (IPv4 (raw ! 0) (raw ! 1) (raw ! 2) (raw ! 3)) else Some raw)"

definition parse_tcp_line :: "string \<Rightarrow> tcp_entry option" where
  "parse_tcp_line line =
     (let fields = Fields line in
      if length fields < 4 then None
      else case (split2 '':'' (fields ! 1), split2 '':'' (fields ! 2)) of
        (Some (la, lp), Some (ra, rp)) \<Rightarrow>
          (case (decodeHexAddr la, decodeHexAddr ra) of
             (Some lip, Some rip) \<Rightarrow>
               if decodeHexPort lp = 0 then None
               else Some \<lparr>localIP = lip, localPort = decodeHexPort lp, remoteIP = ip_string rip,
                          conn_state = ToUpper (fields ! 3)\<rparr>
           | _ \<Rightarrow> None)
      | _ \<Rightarrow> None)"

definition readTCPEntries :: "string option \<Rightarrow> tcp_entry list" where
  "readTCPEntries f =
     (case f of None \<Rightarrow> []
      | Some content \<Rightarrow> List.map_filter parse_tcp_line (drop 1 (scan_lines default_scan content)))"

section \<open>Polling\<close>

record conn_event =
  ce_time :: time
  ce_ip :: string
  ce_port :: int

record conn_watcher =
  explicitPorts :: "int list"
  auto_ports :: bool
  conn_proc :: string
  conn_log :: "conn_event event_log"
  prevActive :: "string set"

definition NewConnWatcher :: "(string \<Rightarrow> conn_event option) \<Rightarrow> int list \<Rightarrow> bool \<Rightarrow> string \<Rightarrow> string option \<Rightarrow> conn_watcher" where
  "NewConnWatcher dec ports aut proc file =
     \<lparr>explicitPorts = ports, auto_ports = aut, conn_proc = proc, conn_log = NewEventLog dec 500 file, prevActive = {}\<rparr>"

definition conn_key :: "tcp_entry \<Rightarrow> string" where
  "conn_key e = remoteIP e @ ''|'' @ Itoa (localPort e)"

definition watched_ports :: "conn_watcher \<Rightarrow> tcp_entry list \<Rightarrow> int list" where
  "watched_ports w entries =
     explicitPorts w @
     (if auto_ports w
      then map localPort (filter (\<lambda>e. conn_state e = tcpStateListen \<and> \<not> IsLoopback (localIP e)) entries)
      else [])"

text \<open>The loop over the entries; the clock and the file system are read once per logged event.\<close>

fun poll_loop :: "(conn_event \<Rightarrow> string option) \<Rightarrow> (nat \<Rightarrow> time \<times> io) \<Rightarrow> nat \<Rightarrow> string set \<Rightarrow> int list
    \<Rightarrow> tcp_entry list \<Rightarrow> string set \<times> conn_event event_log \<Rightarrow> string set \<times> conn_event event_log" where
  "poll_loop enc env i prev ports [] st = st"
| "poll_loop enc env i prev ports (e # es) (active, l) =
     (if conn_state e \<noteq> tcpStateEstablished \<or> localPort e \<notin> set ports
      then poll_loop enc env (Suc i) prev ports es (active, l)
      else let key = conn_key e;
               l' = (if key \<notin> prev
                     then Append enc (snd (env i)) \<lparr>ce_time = fst (env i), ce_ip = remoteIP e, ce_port = localPort e\<rparr> l
                     else l)
           in poll_loop enc env (Suc i) prev ports es (insert key active, l'))"

definition poll_entries :: "(conn_event \<Rightarrow> string option) \<Rightarrow> (nat \<Rightarrow> time \<times> io) \<Rightarrow> tcp_entry list \<Rightarrow> conn_watcher \<Rightarrow> conn_watcher" where
  "poll_entries enc env entries w =
     (let (active, l) = poll_loop enc env 0 (prevActive w) (watched_ports w entries) entries ({}, conn_log w)
      in w\<lparr>conn_log := l, prevActive := active\<rparr>)"

text \<open>One poll, on what the two tables of the process with id 1 hold.\<close>

definition conn_poll :: "(conn_event \<Rightarrow> string option) \<Rightarrow> (nat \<Rightarrow> time \<times> io) \<Rightarrow> string option \<Rightarrow> string option
    \<Rightarrow> conn_watcher \<Rightarrow> conn_watcher" where
  "conn_poll enc env tcp tcp6 w = poll_entries enc env (readTCPEntries tcp @ readTCPEntries tcp6) w"

definition tcpFiles :: "conn_watcher \<Rightarrow> string list" where
  "tcpFiles w = (let base = path_join [conn_proc w, ''1'', ''net''] in [path_join [base, ''tcp''], path_join [base, ''tcp6'']])"

definition poll_files :: "(conn_event \<Rightarrow> string option) \<Rightarrow> (nat \<Rightarrow> time \<times> io) \<Rightarrow> (string \<Rightarrow> string option) \<Rightarrow> conn_watcher \<Rightarrow> conn_watcher" where
  "poll_files enc env fs w = conn_poll enc env (fs (tcpFiles w ! 0)) (fs (tcpFiles w ! 1)) w"

section \<open>The keys of connections\<close>

lemma nat_digits_chars: "c \<in> set (nat_digits n) \<Longrightarrow> digit_val c \<noteq> None"
proof (induction n rule: nat_digits.induct)
  case (1 n)
  then show ?case by (cases "n < 10") (auto simp: nat_digits.simps[of n])
qed

lemma bar_notin_Itoa: "CHR ''|'' \<notin> set (Itoa n)"
proof -
  have "digit_val CHR ''|'' = None" by (simp add: digit_val_def)
  then have "CHR ''|'' \<notin> set (nat_digits m)" for m using nat_digits_chars by metis
  then show ?thesis by (simp add: Itoa_def)
qed

lemma split_last_unique:
  assumes "a @ c # b = a' @ c # b'" "c \<notin> set b" "c \<notin> set b'"
  shows "a = a' \<and> b = b'"
proof -
  have "rev b @ c # rev a = rev b' @ c # rev a'"
    using arg_cong[OF assms(1), of rev] by simp
  then have "takeWhile (\<lambda>x. x \<noteq> c) (rev b @ c # rev a) = takeWhile (\<lambda>x. x \<noteq> c) (rev b' @ c # rev a')"
    by simp
  moreover have "takeWhile (\<lambda>x. x \<noteq> c) (rev d @ c # r) = rev d" if "c \<notin> set d" for d r
    using that by (subst takeWhile_append2) auto
  ultimately have "b = b'" using assms(2,3) by simp
  with assms(1) show ?thesis by simp
qed

definition conn_pair :: "tcp_entry \<Rightarrow> string \<times> int" where
  "conn_pair e = (remoteIP e, localPort e)"

definition port_ok :: "tcp_entry \<Rightarrow> bool" where
  "port_ok e \<longleftrightarrow> 0 < localPort e \<and> localPort e < 2 ^ 32"

lemma conn_key_inj:
  assumes "port_ok d" "port_ok e"
  shows "conn_key d = conn_key e \<longleftrightarrow> conn_pair d = conn_pair e"
proof
  assume "conn_key d = conn_key e"
  then have k: "remoteIP d @ CHR ''|'' # Itoa (localPort d) = remoteIP e @ CHR ''|'' # Itoa (localPort e)"
    by (simp add: conn_key_def)
  from split_last_unique[OF k bar_notin_Itoa bar_notin_Itoa]
  show "conn_pair d = conn_pair e" using assms by (auto simp: conn_pair_def port_ok_def intro: Itoa_inj)
qed (simp add: conn_pair_def conn_key_def)


lemma digit_val_lt: "parse_digits base mx n s = (v, None) \<Longrightarrow> n \<le> mx \<Longrightarrow> v \<le> mx"
  by (induction s arbitrary: n) (auto split: option.splits if_splits)

lemma decodeHexPort_range: "0 \<le> decodeHexPort h \<and> decodeHexPort h < 2 ^ 32"
proof -
  have "v \<le> 2 ^ 32 - 1" if "ParseUint h 16 32 = (v, None)" for v
    using that digit_val_lt[of 16 "2 ^ 32 - 1" 0 h v] by (auto simp: ParseUint_def split: if_splits)
  then show ?thesis by (fastforce simp: decodeHexPort_def split: prod.splits option.splits)
qed

lemma parse_tcp_line_port: "parse_tcp_line l = Some e \<Longrightarrow> port_ok e"
  using decodeHexPort_range
  by (auto simp: parse_tcp_line_def port_ok_def Let_def order.not_eq_order_implies_strict
      split: if_splits option.splits prod.splits)

lemma readTCPEntries_port: "e \<in> set (readTCPEntries f) \<Longrightarrow> port_ok e"
  using parse_tcp_line_port by (auto simp: readTCPEntries_def split: option.splits simp: map_filter_mem)

section \<open>What one poll logs\<close>

definition est_watched :: "int list \<Rightarrow> tcp_entry \<Rightarrow> bool" where
  "est_watched ports e \<longleftrightarrow> conn_state e = tcpStateEstablished \<and> localPort e \<in> set ports"

text \<open>The pairs of remote address and port one poll reports, in the order of the table.\<close>

definition fresh :: "string set \<Rightarrow> int list \<Rightarrow> tcp_entry list \<Rightarrow> (string \<times> int) list" where
  "fresh prev ports es = map conn_pair (filter (\<lambda>e. est_watched ports e \<and> conn_key e \<notin> prev) es)"

definition ev_pair :: "conn_event \<Rightarrow> string \<times> int" where
  "ev_pair v = (ce_ip v, ce_port v)"

definition logged :: "conn_event event_log \<Rightarrow> (string \<times> int) list" where
  "logged l = map ev_pair (el_events l)"

lemma logged_Append: "logged (Append enc io e l) = lastn (el_cap l) (logged l @ [ev_pair e])"
  by (simp add: logged_def lastn_def flip: drop_map)

lemma poll_loop_spec:
  "poll_loop enc env i prev ports es (active, l) = (active', l') \<Longrightarrow>
   active' = active \<union> conn_key ` {e \<in> set es. est_watched ports e} \<and> el_cap l' = el_cap l \<and>
   (length (logged l) \<le> el_cap l \<longrightarrow> logged l' = lastn (el_cap l) (logged l @ fresh prev ports es))"
proof (induction es arbitrary: i active l)
  case Nil
  then show ?case by (simp add: fresh_def)
next
  case (Cons e es)
  show ?case
  proof (cases "est_watched ports e")
    case False
    with Cons.prems have "poll_loop enc env (Suc i) prev ports es (active, l) = (active', l')"
      by (auto simp: est_watched_def)
    from Cons.IH[OF this] False show ?thesis by (auto simp: fresh_def)
  next
    case w: True
    show ?thesis
    proof (cases "conn_key e \<in> prev")
      case True
      with w Cons.prems have "poll_loop enc env (Suc i) prev ports es (insert (conn_key e) active, l) = (active', l')"
        by (auto simp: est_watched_def Let_def)
      from Cons.IH[OF this] w True show ?thesis by (auto simp: fresh_def)
    next
      case False
      let ?l = "Append enc (snd (env i)) \<lparr>ce_time = fst (env i), ce_ip = remoteIP e, ce_port = localPort e\<rparr> l"
      from False w Cons.prems have "poll_loop enc env (Suc i) prev ports es (insert (conn_key e) active, ?l) = (active', l')"
        by (auto simp: est_watched_def Let_def)
      note IH = Cons.IH[OF this]
      have "logged ?l = lastn (el_cap l) (logged l @ [conn_pair e])"
        by (simp add: logged_Append ev_pair_def conn_pair_def)
      with IH w False show ?thesis by (auto simp: fresh_def lastn_lastn_append)
    qed
  qed
qed

definition conn_ok :: "conn_watcher \<Rightarrow> bool" where
  "conn_ok w \<longleftrightarrow> el_cap (conn_log w) = 500 \<and> length (el_events (conn_log w)) \<le> 500"

lemma poll_entries_spec:
  assumes "conn_ok w"
  shows "conn_ok (poll_entries enc env es w)"
    and "logged (conn_log (poll_entries enc env es w)) =
       lastn 500 (logged (conn_log w) @ fresh (prevActive w) (watched_ports w es) es)"
    and "prevActive (poll_entries enc env es w) = conn_key ` {e \<in> set es. est_watched (watched_ports w es) e}"
    and "explicitPorts (poll_entries enc env es w) = explicitPorts w" "auto_ports (poll_entries enc env es w) = auto_ports w"
proof -
  obtain active l where pl: "poll_loop enc env 0 (prevActive w) (watched_ports w es) es ({}, conn_log w) = (active, l)"
    by force
  note s = poll_loop_spec[OF pl]
  have l: "logged l = lastn 500 (logged (conn_log w) @ fresh (prevActive w) (watched_ports w es) es)"
    using s assms by (simp add: conn_ok_def logged_def)
  then have "length (logged l) \<le> 500" by simp
  then show "conn_ok (poll_entries enc env es w)"
    using pl s assms by (simp add: poll_entries_def conn_ok_def logged_def)
  show "logged (conn_log (poll_entries enc env es w)) =
       lastn 500 (logged (conn_log w) @ fresh (prevActive w) (watched_ports w es) es)"
    using l pl by (simp add: poll_entries_def)
  show "prevActive (poll_entries enc env es w) = conn_key ` {e \<in> set es. est_watched (watched_ports w es) e}"
    using s pl by (simp add: poll_entries_def)
  show "explicitPorts (poll_entries enc env es w) = explicitPorts w" "auto_ports (poll_entries enc env es w) = auto_ports w"
    using pl by (simp_all add: poll_entries_def)
qed


text \<open>The established connections to watched ports that a watcher sees in a pair of tables.\<close>

definition seen :: "conn_watcher \<Rightarrow> string option \<times> string option \<Rightarrow> (string \<times> int) list" where
  "seen w t = (let es = readTCPEntries (fst t) @ readTCPEntries (snd t)
               in map conn_pair (filter (est_watched (watched_ports w es)) es))"

lemma fresh_after:
  assumes "\<forall>e \<in> set es. port_ok e" "\<forall>e \<in> set ds. port_ok e"
  shows "fresh (conn_key ` {e \<in> set ds. est_watched ps e}) ports es =
    filter (\<lambda>p. p \<notin> set (map conn_pair (filter (est_watched ps) ds))) (map conn_pair (filter (est_watched ports) es))"
proof -
  have "conn_key e \<in> conn_key ` {e \<in> set ds. est_watched ps e} \<longleftrightarrow>
        conn_pair e \<in> set (map conn_pair (filter (est_watched ps) ds))" if "e \<in> set es" for e
    using that assms conn_key_inj by (auto simp: image_iff)
  then have "filter (\<lambda>e. est_watched ports e \<and> conn_key e \<notin> conn_key ` {e \<in> set ds. est_watched ps e}) es =
     filter (\<lambda>e. conn_pair e \<notin> set (map conn_pair (filter (est_watched ps) ds))) (filter (est_watched ports) es)"
    by (simp add: filter_filter) (metis (mono_tags, lifting) filter_cong)
  then show ?thesis by (simp add: fresh_def filter_map comp_def)
qed

lemma conn_poll_spec:
  assumes "conn_ok w" and w1_def: "w1 = conn_poll enc env (fst t) (snd t) w"
  shows "conn_ok w1 \<and> logged (conn_log (conn_poll enc env' (fst u) (snd u) w1)) =
      lastn 500 (logged (conn_log w1) @ filter (\<lambda>p. p \<notin> set (seen w t)) (seen w u))"
proof -
  let ?es = "readTCPEntries (fst t) @ readTCPEntries (snd t)"
  let ?us = "readTCPEntries (fst u) @ readTCPEntries (snd u)"
  note s = poll_entries_spec[OF assms(1), of enc env ?es]
  have ok: "conn_ok w1" unfolding w1_def conn_poll_def by (rule s(1))
  have ports: "watched_ports w1 es = watched_ports w es" for es
    by (simp add: watched_ports_def w1_def conn_poll_def s(4,5))
  have prev: "prevActive w1 = conn_key ` {e \<in> set ?es. est_watched (watched_ports w ?es) e}"
    unfolding w1_def conn_poll_def by (rule s(3))
  have p: "\<forall>e \<in> set ?us. port_ok e" "\<forall>e \<in> set ?es. port_ok e" using readTCPEntries_port by auto
  have "logged (conn_log (conn_poll enc env' (fst u) (snd u) w1)) =
      lastn 500 (logged (conn_log w1) @ fresh (prevActive w1) (watched_ports w1 ?us) ?us)"
    unfolding conn_poll_def by (rule poll_entries_spec(2)[OF ok])
  with ok show ?thesis unfolding prev ports fresh_after[OF p] seen_def Let_def by blast
qed

text \<open>C35: a poll logs exactly the connections that were not there at the poll before: one event for each
  established entry on a watched port whose remote address and port the previous poll did not see,
  in the order of the tables; what stayed connected is not logged again, what dropped and came back is.
  The log keeps the last 500.\<close>

theorem conn_poll_logs_new:
  assumes "conn_ok w" and "w1 = conn_poll enc env (fst t) (snd t) w" and "w2 = conn_poll enc env' (fst u) (snd u) w1"
  shows "logged (conn_log w2) = lastn 500 (logged (conn_log w1) @ filter (\<lambda>p. p \<notin> set (seen w t)) (seen w u))
    \<and> (t = u \<longrightarrow> logged (conn_log w2) = logged (conn_log w1)) \<and> length (el_events (conn_log w2)) \<le> 500"
proof -
  have c: "conn_ok w1" "logged (conn_log w2) = lastn 500 (logged (conn_log w1) @ filter (\<lambda>p. p \<notin> set (seen w t)) (seen w u))"
    using conn_poll_spec[OF assms(1,2), of env' u] unfolding assms(3) by auto
  have len: "length (logged (conn_log w1)) \<le> 500" using c(1) by (simp add: conn_ok_def logged_def)
  have "conn_ok w2" unfolding assms(3) conn_poll_def by (rule poll_entries_spec(1)[OF c(1)])
  then show ?thesis using c(2) len by (auto simp: conn_ok_def filter_False)
qed

text \<open>in automatic mode with no ports configured, a service bound to the loopback address only is never
  watched: every connection a poll adds to the log is on a port with a listener on another address
  in the same tables.\<close>

theorem conn_loopback_not_logged:
  assumes "conn_ok w" "explicitPorts w = []"
    and "p \<in> set (logged (conn_log (conn_poll enc env tcp tcp6 w)))" "p \<notin> set (logged (conn_log w))"
  shows "auto_ports w \<and> (\<exists>l \<in> set (readTCPEntries tcp @ readTCPEntries tcp6).
     conn_state l = ''0A'' \<and> localPort l = snd p \<and> \<not> IsLoopback (localIP l))"
proof -
  let ?es = "readTCPEntries tcp @ readTCPEntries tcp6"
  have "p \<in> set (fresh (prevActive w) (watched_ports w ?es) ?es)"
    using assms(3,4) set_lastn[of 500 "logged (conn_log w) @ fresh (prevActive w) (watched_ports w ?es) ?es"]
    unfolding conn_poll_def poll_entries_spec(2)[OF assms(1)] by auto
  then have "snd p \<in> set (watched_ports w ?es)" by (auto simp: fresh_def est_watched_def conn_pair_def)
  then show ?thesis using assms(2) by (auto simp: watched_ports_def tcpStateListen_def split: if_splits)
qed


section \<open>A table for the witnesses\<close>

text \<open>A public listener on port 25565, a local one on 5432, two connections from one address to the former.\<close>

definition ex_tcp :: string where
  "ex_tcp = ''sl local_address'' @ [newline]
     @ ''0: 00000000:63DD 00000000:0000 0A'' @ [newline]
     @ ''1: 0100007F:1538 00000000:0000 0A'' @ [newline]
     @ ''2: 00000000:63DD 04030201:D431 01'' @ [newline]
     @ ''3: 0100007F:1538 0100007F:C350 01'' @ [newline]
     @ ''4: 00000000:63DD 04030201:D432 01'' @ [newline]"

lemma ex_fields:
  "Fields ''0: 00000000:63DD 00000000:0000 0A'' = [''0:'', ''00000000:63DD'', ''00000000:0000'', ''0A'']"
  "Fields ''1: 0100007F:1538 00000000:0000 0A'' = [''1:'', ''0100007F:1538'', ''00000000:0000'', ''0A'']"
  "Fields ''2: 00000000:63DD 04030201:D431 01'' = [''2:'', ''00000000:63DD'', ''04030201:D431'', ''01'']"
  "Fields ''3: 0100007F:1538 0100007F:C350 01'' = [''3:'', ''0100007F:1538'', ''0100007F:C350'', ''01'']"
  "Fields ''4: 00000000:63DD 04030201:D432 01'' = [''4:'', ''00000000:63DD'', ''04030201:D432'', ''01'']"
  by code_simp+

lemma ex_ports: "decodeHexPort ''63DD'' = 25565" "decodeHexPort ''1538'' = 5432"
  by (simp_all add: decodeHexPort_def ParseUint_def digit_val_def)

lemma ex_addrs:
  "decodeHexAddr ''00000000'' = Some (IPv4 0 0 0 0)" "decodeHexAddr ''0100007F'' = Some (IPv4 127 0 0 1)"
  "decodeHexAddr ''04030201'' = Some (IPv4 1 2 3 4)"
  by (simp_all add: decodeHexAddr_def hex_val_def digit_val_def IPv4_def)

lemma ex_ip_strings:
  "ip_string (IPv4 0 0 0 0) = ''0.0.0.0''" "ip_string (IPv4 127 0 0 1) = ''127.0.0.1''"
  "ip_string (IPv4 1 2 3 4) = ''1.2.3.4''"
  by (simp_all add: ip_string_def To4_def IPv4_def nat_digits.simps) code_simp+

lemma ex_split:
  "split2 '':'' ''00000000:63DD'' = Some (''00000000'', ''63DD'')"
  "split2 '':'' ''00000000:0000'' = Some (''00000000'', ''0000'')"
  "split2 '':'' ''0100007F:1538'' = Some (''0100007F'', ''1538'')"
  "split2 '':'' ''04030201:D431'' = Some (''04030201'', ''D431'')"
  "split2 '':'' ''04030201:D432'' = Some (''04030201'', ''D432'')"
  "split2 '':'' ''0100007F:C350'' = Some (''0100007F'', ''C350'')"
  by (simp_all add: has_prefix_def)

lemma ex_upper: "ToUpper ''0A'' = ''0A''" "ToUpper ''01'' = ''01''"
  by code_simp+

lemma ex_lines:
  "parse_tcp_line ''0: 00000000:63DD 00000000:0000 0A'' =
     Some \<lparr>localIP = IPv4 0 0 0 0, localPort = 25565, remoteIP = ''0.0.0.0'', conn_state = ''0A''\<rparr>"
  "parse_tcp_line ''1: 0100007F:1538 00000000:0000 0A'' =
     Some \<lparr>localIP = IPv4 127 0 0 1, localPort = 5432, remoteIP = ''0.0.0.0'', conn_state = ''0A''\<rparr>"
  "parse_tcp_line ''2: 00000000:63DD 04030201:D431 01'' =
     Some \<lparr>localIP = IPv4 0 0 0 0, localPort = 25565, remoteIP = ''1.2.3.4'', conn_state = ''01''\<rparr>"
  "parse_tcp_line ''3: 0100007F:1538 0100007F:C350 01'' =
     Some \<lparr>localIP = IPv4 127 0 0 1, localPort = 5432, remoteIP = ''127.0.0.1'', conn_state = ''01''\<rparr>"
  "parse_tcp_line ''4: 00000000:63DD 04030201:D432 01'' =
     Some \<lparr>localIP = IPv4 0 0 0 0, localPort = 25565, remoteIP = ''1.2.3.4'', conn_state = ''01''\<rparr>"
  unfolding parse_tcp_line_def Let_def ex_fields
  by (simp_all add: ex_split ex_addrs ex_ports ex_ip_strings ex_upper del: split2.simps One_nat_def)

lemma ex_scan: "drop 1 (scan_lines default_scan ex_tcp) =
    [''0: 00000000:63DD 00000000:0000 0A'', ''1: 0100007F:1538 00000000:0000 0A'', ''2: 00000000:63DD 04030201:D431 01'',
     ''3: 0100007F:1538 0100007F:C350 01'', ''4: 00000000:63DD 04030201:D432 01'']"
  by (simp add: scan_lines_def default_scan_def ex_tcp_def drop_cr_def)

lemma ex_entries:
  "readTCPEntries (Some ex_tcp) =
   [\<lparr>localIP = IPv4 0 0 0 0, localPort = 25565, remoteIP = ''0.0.0.0'', conn_state = ''0A''\<rparr>,
    \<lparr>localIP = IPv4 127 0 0 1, localPort = 5432, remoteIP = ''0.0.0.0'', conn_state = ''0A''\<rparr>,
    \<lparr>localIP = IPv4 0 0 0 0, localPort = 25565, remoteIP = ''1.2.3.4'', conn_state = ''01''\<rparr>,
    \<lparr>localIP = IPv4 127 0 0 1, localPort = 5432, remoteIP = ''127.0.0.1'', conn_state = ''01''\<rparr>,
    \<lparr>localIP = IPv4 0 0 0 0, localPort = 25565, remoteIP = ''1.2.3.4'', conn_state = ''01''\<rparr>]"
  unfolding readTCPEntries_def option.case ex_scan
  by (simp only: map_filter_simps ex_lines option.case)


definition ex_enc :: "conn_event \<Rightarrow> string option" where
  "ex_enc v = Some (ce_ip v)"

definition ex_conn :: conn_watcher where
  "ex_conn = NewConnWatcher (\<lambda>_. None) [] True ''/proc'' None"

definition ex_conn_env :: "nat \<Rightarrow> time \<times> io" where
  "ex_conn_env i = (int i, ex_io)"

lemma ex_conn_ok: "conn_ok ex_conn" "explicitPorts ex_conn = []" "logged (conn_log ex_conn) = []" "prevActive ex_conn = {}"
  by (simp_all add: ex_conn_def NewConnWatcher_def NewEventLog_def conn_ok_def load_lines_def logged_def)

lemma ex_none: "readTCPEntries None = []"
  by (simp add: readTCPEntries_def)

lemma ex_loopback: "\<not> IsLoopback (IPv4 0 0 0 0)" "IsLoopback (IPv4 127 0 0 1)"
  by (simp_all add: IsLoopback_def To4_def IPv4_def)

lemma ex_watched: "watched_ports ex_conn (readTCPEntries (Some ex_tcp)) = [25565]"
  using ex_loopback
  by (simp add: watched_ports_def ex_entries tcpStateListen_def) (simp add: ex_conn_def NewConnWatcher_def)

lemma ex_seen: "seen ex_conn (Some ex_tcp, None) = [(''1.2.3.4'', 25565), (''1.2.3.4'', 25565)]"
  by (simp add: seen_def ex_none ex_watched)
     (simp add: ex_entries est_watched_def tcpStateEstablished_def conn_pair_def)

lemma ex_first_poll:
  "logged (conn_log (conn_poll ex_enc ex_conn_env (Some ex_tcp) None ex_conn)) = [(''1.2.3.4'', 25565), (''1.2.3.4'', 25565)]"
proof -
  have "fresh {} [25565] (readTCPEntries (Some ex_tcp)) = [(''1.2.3.4'', 25565), (''1.2.3.4'', 25565)]"
    by (simp add: fresh_def ex_entries est_watched_def tcpStateEstablished_def conn_pair_def)
  then show ?thesis
    unfolding conn_poll_def poll_entries_spec(2)[OF ex_conn_ok(1)] ex_conn_ok ex_none append_Nil2 ex_watched by simp
qed

theorem conn_poll_logs_new_witness:
  "logged (conn_log (conn_poll ex_enc ex_conn_env (Some ex_tcp) None
      (conn_poll ex_enc ex_conn_env (Some ex_tcp) None ex_conn))) = [(''1.2.3.4'', 25565), (''1.2.3.4'', 25565)]"
  using conn_poll_logs_new[of ex_conn _ ex_enc ex_conn_env "(Some ex_tcp, None)" _ ex_conn_env "(Some ex_tcp, None)",
      OF ex_conn_ok(1) refl refl]
  by (simp add: ex_first_poll)

theorem conn_loopback_not_logged_witness:
  "\<exists>l \<in> set (readTCPEntries (Some ex_tcp) @ readTCPEntries None). localPort l = 25565 \<and> \<not> IsLoopback (localIP l)"
  using conn_loopback_not_logged[OF ex_conn_ok(1,2), of "(''1.2.3.4'', 25565)" ex_enc ex_conn_env "Some ex_tcp" None]
  by (auto simp: ex_first_poll ex_conn_ok(3))

text \<open>two connections of one address to one port in the same table are logged as two events, although
  the log is meant to hold the first time an address is seen: the set of earlier connections is only
  replaced after the loop.\<close>

theorem conn_same_poll_duplicates:
  "logged (conn_log (conn_poll ex_enc ex_conn_env (Some ex_tcp) None ex_conn)) = [(''1.2.3.4'', 25565), (''1.2.3.4'', 25565)]"
  by (rule ex_first_poll)

section \<open>Decoding the kernel's addresses\<close>

text \<open>How the kernel prints an address: every four bytes reversed, in upper-case hexadecimal.\<close>

fun kernel_order :: "nat list \<Rightarrow> nat list" where
  "kernel_order (a # b # c # d # r) = [d, c, b, a] @ kernel_order r"
| "kernel_order r = r"

definition kernel_addr :: "nat list \<Rightarrow> string" where
  "kernel_addr bs = ToUpper (hex_encode (kernel_order bs))"

lemma hex_val_upper: "d < 16 \<Longrightarrow> hex_val (upper_char (hex_digit d)) = Some d"
  by (simp add: hex_val_def hex_digit_def digit_val_def upper_char_def of_char_of Let_def)

lemma dvd_4_Suc: "4 dvd Suc (Suc (Suc (Suc n))) \<longleftrightarrow> 4 dvd n"
  by presburger

lemma not_dvd_4: "\<not> 4 dvd Suc 0" "\<not> 4 dvd Suc (Suc 0)" "\<not> 4 dvd Suc (Suc (Suc 0))"
  by presburger+

lemma decode_chunks_kernel:
  "4 dvd length bs \<Longrightarrow> \<forall>b \<in> set bs. b < 256 \<Longrightarrow> decode_chunks (kernel_addr bs) = Some bs"
proof (induction bs rule: kernel_order.induct)
  case (1 a b c d r)
  then have "a div 16 < 16" "b div 16 < 16" "c div 16 < 16" "d div 16 < 16" by auto
  moreover have "4 dvd length r" using 1(2) by (simp add: dvd_4_Suc)
  ultimately show ?case
    using 1 by (simp add: kernel_addr_def ToUpper_def hex_val_upper)
qed (simp_all add: kernel_addr_def ToUpper_def not_dvd_4)

lemma length_kernel_order: "4 dvd length bs \<Longrightarrow> length (kernel_order bs) = length bs"
proof (induction bs rule: kernel_order.induct)
  case (1 a b c d r)
  then show ?case by (simp add: dvd_4_Suc)
qed auto

text \<open>decoding inverts the kernel's encoding: for the four bytes of an IPv4 address or the sixteen of an
  IPv6 one, \<open>decodeHexAddr\<close> gives that address, and an IPv4 one prints as its dotted quad.\<close>

theorem decodeHexAddr_kernel:
  assumes "length bs = 4 \<or> length bs = 16" and "\<forall>b \<in> set bs. b < 256"
  shows "\<exists>p. decodeHexAddr (kernel_addr bs) = Some p \<and> length p = 16 \<and>
    (length bs = 16 \<longrightarrow> p = bs) \<and>
    (length bs = 4 \<longrightarrow> ip_string p = join_with ''.'' (map nat_digits bs) \<and> (IsLoopback p \<longleftrightarrow> hd bs = 127))"
proof -
  have d: "4 dvd length bs" using assms(1) by auto
  have len: "length (kernel_addr bs) = 2 * length bs"
    using length_kernel_order[OF d] by (simp add: kernel_addr_def ToUpper_def)
  note dec = decode_chunks_kernel[OF d assms(2)]
  show ?thesis
  proof (cases "length bs = 4")
    case True
    then obtain a b c e where bs: "bs = [a, b, c, e]"
      by (auto simp: eval_nat_numeral length_Suc_conv)
    then have "decodeHexAddr (kernel_addr bs) = Some (IPv4 a b c e)"
      using dec len by (simp add: decodeHexAddr_def numeral_2_eq_2 numeral_3_eq_3)
    then show ?thesis using bs by (simp add: ip_string_def IsLoopback_def To4_def IPv4_def)
  next
    case False
    then have "decodeHexAddr (kernel_addr bs) = Some bs"
      using assms(1) dec len by (auto simp: decodeHexAddr_def)
    with False assms(1) show ?thesis by simp
  qed
qed

theorem decodeHexAddr_kernel_witness:
  "\<exists>p. decodeHexAddr (kernel_addr [127, 0, 0, 1]) = Some p \<and> IsLoopback p \<and>
     ip_string p = join_with ''.'' (map nat_digits [127, 0, 0, 1])"
  using decodeHexAddr_kernel[of "[127, 0, 0, 1]"] by auto

end
