(* ===== verification/SshLog.thy ===== *)
theory SshLog
  imports EventLog
begin

text \<open>
  The SSH watcher of package \<open>security\<close> (internal/security/ssh.go, inode.go): matching a line
  of the auth log against the four patterns, and the polling of a log file that grows, is rotated,
  truncated, removed or not there yet.
\<close>

section \<open>Patterns\<close>

text \<open>
  The constructs of package \<open>regexp\<close> the four patterns use. A match is the list of its captures and
  the rest of the string; the alternatives of a backtracking matcher come in its order of preference
  (greedy repetition first), so the first one is the match Go reports, and the search takes the
  leftmost position that has one.
\<close>

datatype rx_class = NonSpace | AddrChar | Digit

definition in_class :: "rx_class \<Rightarrow> char \<Rightarrow> bool" where
  "in_class k c = (let n = of_char c :: nat in
     case k of
       NonSpace \<Rightarrow> n \<notin> {9, 10, 12, 13, 32}
     | AddrChar \<Rightarrow> (48 \<le> n \<and> n \<le> 57) \<or> (97 \<le> n \<and> n \<le> 102) \<or> (65 \<le> n \<and> n \<le> 70) \<or> n = 46 \<or> n = 58
     | Digit \<Rightarrow> 48 \<le> n \<and> n \<le> 57)"

datatype rx = Lit string | OneOf "string list" | Plus rx_class | Group rx | Opt "rx list"

fun rx_match :: "rx \<Rightarrow> string \<Rightarrow> (string list \<times> string) list"
and rx_seq :: "rx list \<Rightarrow> string \<Rightarrow> (string list \<times> string) list" where
  "rx_match (Lit l) s = (if has_prefix s l then [([], drop (length l) s)] else [])"
| "rx_match (OneOf ls) s = concat (map (\<lambda>l. if has_prefix s l then [([], drop (length l) s)] else []) ls)"
| "rx_match (Plus k) s = map (\<lambda>j. ([], drop j s)) (rev [1..<Suc (length (takeWhile (in_class k) s))])"
| "rx_match (Group r) s = map (\<lambda>(cs, t). (take (length s - length t) s # cs, t)) (rx_match r s)"
| "rx_match (Opt rs) s = rx_seq rs s @ [([], s)]"
| "rx_seq [] s = [([], s)]"
| "rx_seq (r # rs) s = concat (map (\<lambda>(cs, t). map (\<lambda>(ds, u). (cs @ ds, u)) (rx_seq rs t)) (rx_match r s))"

text \<open>\<open>FindStringSubmatch\<close>: the captures of the leftmost match.\<close>

fun rx_find :: "rx list \<Rightarrow> string \<Rightarrow> string list option" where
  "rx_find rs [] = (case rx_seq rs [] of [] \<Rightarrow> None | m # ms \<Rightarrow> Some (fst m))"
| "rx_find rs (c # cs) =
     (case rx_seq rs (c # cs) of [] \<Rightarrow> rx_find rs cs | m # ms \<Rightarrow> Some (fst m))"

definition rx_from_addr :: "rx list" where
  "rx_from_addr = [Lit '' from '', Group (Plus AddrChar), Lit '' port '', Plus Digit]"

definition reFailed :: "rx list" where
  "reFailed = [Lit ''Failed password for '', Opt [Lit ''invalid user ''], Group (Plus NonSpace)] @ rx_from_addr"

definition reAccepted :: "rx list" where
  "reAccepted = [Lit ''Accepted '', Plus NonSpace, Lit '' for '', Group (Plus NonSpace)] @ rx_from_addr"

definition reInvalidUser :: "rx list" where
  "reInvalidUser = [Lit ''Invalid user '', Group (Plus NonSpace)] @ rx_from_addr"

definition reClosed :: "rx list" where
  "reClosed = [Lit ''Connection closed by '',
     Opt [OneOf [''invalid'', ''authenticating''], Lit '' user '', Plus NonSpace, Lit '' ''],
     Group (Plus AddrChar), Lit '' port '', Plus Digit, Opt [Lit '' [preauth]'']]"

section \<open>One line\<close>

record ssh_event =
  se_time :: time
  se_ip :: string
  se_user :: string
  se_action :: string
  se_success :: bool
  se_detail :: string

definition parseSSHLine :: "time \<Rightarrow> string \<Rightarrow> ssh_event option" where
  "parseSSHLine t line =
     (if \<not> contains line ''sshd['' then None
      else case rx_find reAccepted line of
        Some m \<Rightarrow> Some \<lparr>se_time = t, se_ip = m ! 1, se_user = m ! 0, se_action = ''accepted'', se_success = True, se_detail = line\<rparr>
      | None \<Rightarrow>
      (case rx_find reFailed line of
        Some m \<Rightarrow> Some \<lparr>se_time = t, se_ip = m ! 1, se_user = m ! 0, se_action = ''failed'', se_success = False, se_detail = line\<rparr>
      | None \<Rightarrow>
      (case rx_find reInvalidUser line of
        Some m \<Rightarrow> Some \<lparr>se_time = t, se_ip = m ! 1, se_user = m ! 0, se_action = ''invalid_user'', se_success = False, se_detail = line\<rparr>
      | None \<Rightarrow>
      (case rx_find reClosed line of
        Some m \<Rightarrow> Some \<lparr>se_time = t, se_ip = m ! 0, se_user = [], se_action = ''closed'', se_success = False, se_detail = line\<rparr>
      | None \<Rightarrow> None))))"

section \<open>The watcher\<close>

text \<open>
  A file is its inode and its bytes; a file system maps paths to files. Between the calls of one
  poll the file system may change: \<open>fs 0\<close> is what the candidate search sees, \<open>fs 1\<close> what \<open>Stat\<close> in
  \<open>resolvePath\<close> sees, \<open>fs 2\<close> what \<open>Stat\<close> in \<open>poll\<close> sees, \<open>fs 3\<close> what is opened and read. \<open>short\<close>
  bounds the bytes one \<open>Read\<close> returns.
\<close>

record log_file =
  f_inode :: nat
  f_bytes :: string

type_synonym fsys = "string \<Rightarrow> log_file option"

record ssh_watcher =
  explicitPath :: string
  ssh_path :: string
  ssh_log :: "ssh_event event_log"
  ssh_offset :: nat
  ssh_inode :: nat

definition candidateLogPaths :: "string list" where
  "candidateLogPaths = [''/var/log/auth.log'', ''/var/log/secure'']"

definition NewSSHWatcher :: "(string \<Rightarrow> ssh_event option) \<Rightarrow> string \<Rightarrow> string option \<Rightarrow> ssh_watcher" where
  "NewSSHWatcher dec path disk =
     \<lparr>explicitPath = path, ssh_path = [], ssh_log = NewEventLog dec 500 disk, ssh_offset = 0, ssh_inode = 0\<rparr>"

definition resolvePath :: "(nat \<Rightarrow> fsys) \<Rightarrow> ssh_watcher \<Rightarrow> bool \<times> ssh_watcher" where
  "resolvePath fs w =
     (let path = (if explicitPath w = []
                  then (case find (\<lambda>c. fs 0 c \<noteq> None) candidateLogPaths of Some c \<Rightarrow> c | None \<Rightarrow> [])
                  else explicitPath w)
      in case fs 1 path of
           None \<Rightarrow> (False, w)
         | Some info \<Rightarrow>
             if path = [] then (False, w)
             else (True, w\<lparr>ssh_path := path, ssh_offset := length (f_bytes info), ssh_inode := f_inode info\<rparr>))"

fun append_lines :: "(ssh_event \<Rightarrow> string option) \<Rightarrow> (nat \<Rightarrow> time \<times> io) \<Rightarrow> nat \<Rightarrow> string list
    \<Rightarrow> ssh_event event_log \<Rightarrow> ssh_event event_log" where
  "append_lines enc env i [] l = l"
| "append_lines enc env i (line # lines) l =
     append_lines enc env (Suc i) lines
       (case parseSSHLine (fst (env i)) line of
          Some e \<Rightarrow> Append enc (snd (env i)) e l
        | None \<Rightarrow> l)"

definition read_new :: "(ssh_event \<Rightarrow> string option) \<Rightarrow> (nat \<Rightarrow> time \<times> io) \<Rightarrow> nat option \<Rightarrow> (nat \<Rightarrow> fsys)
    \<Rightarrow> nat \<Rightarrow> ssh_watcher \<Rightarrow> ssh_watcher" where
  "read_new enc env short fs sz w =
     (case fs 3 (ssh_path w) of
        None \<Rightarrow> w
      | Some f \<Rightarrow>
          let avail = take (sz - ssh_offset w) (drop (ssh_offset w) (f_bytes f));
              buf = (case short of None \<Rightarrow> avail | Some n \<Rightarrow> take n avail)
          in w\<lparr>ssh_offset := ssh_offset w + length buf,
               ssh_log := append_lines enc env 0 (split_on newline buf) (ssh_log w)\<rparr>)"

definition poll_file :: "(ssh_event \<Rightarrow> string option) \<Rightarrow> (nat \<Rightarrow> time \<times> io) \<Rightarrow> nat option \<Rightarrow> (nat \<Rightarrow> fsys)
    \<Rightarrow> ssh_watcher \<Rightarrow> ssh_watcher" where
  "poll_file enc env short fs w =
     (case fs 2 (ssh_path w) of
        None \<Rightarrow> w\<lparr>ssh_path := []\<rparr>
      | Some info \<Rightarrow>
          let sz = length (f_bytes info);
              w1 = (if f_inode info \<noteq> 0 \<and> f_inode info \<noteq> ssh_inode w
                    then w\<lparr>ssh_offset := 0, ssh_inode := f_inode info\<rparr>
                    else if sz < ssh_offset w then w\<lparr>ssh_offset := 0\<rparr> else w)
          in if sz \<le> ssh_offset w1 then w1 else read_new enc env short fs sz w1)"

definition ssh_poll :: "(ssh_event \<Rightarrow> string option) \<Rightarrow> (nat \<Rightarrow> time \<times> io) \<Rightarrow> nat option \<Rightarrow> (nat \<Rightarrow> fsys)
    \<Rightarrow> ssh_watcher \<Rightarrow> ssh_watcher" where
  "ssh_poll enc env short fs w =
     (if ssh_path w = []
      then (let (ok, w1) = resolvePath fs w in if \<not> ok then w1 else poll_file enc env short fs w1)
      else poll_file enc env short fs w)"

section \<open>Facts on the patterns\<close>

lemma rx_seq_hd:
  assumes "rx_match r s = (cs, t) # ms" "rx_seq rs t = (ds, u) # ns"
  shows "\<exists>ks. rx_seq (r # rs) s = (cs @ ds, u) # ks"
  using assms by simp

lemma rx_plus_hd:
  assumes "t \<noteq> []" "list_all (in_class k) t" "rest = [] \<or> \<not> in_class k (hd rest)"
  shows "\<exists>ms. rx_match (Plus k) (t @ rest) = ([], rest) # ms"
proof -
  have "takeWhile (in_class k) (t @ rest) = t"
    using assms(2,3) by (cases rest) (auto simp: list_all_iff takeWhile_append)
  moreover have "rev [1..<Suc (length t)] = length t # rev [1..<length t]"
    using assms(1) by (cases t) auto
  ultimately show ?thesis by simp
qed

lemma rx_group_hd:
  assumes "t \<noteq> []" "list_all (in_class k) t" "rest = [] \<or> \<not> in_class k (hd rest)"
  shows "\<exists>ms. rx_match (Group (Plus k)) (t @ rest) = ([t], rest) # ms"
proof -
  obtain ms where "rx_match (Plus k) (t @ rest) = ([], rest) # ms" using rx_plus_hd[OF assms] by blast
  then show ?thesis by (simp del: rx_match.simps(3))
qed

lemma rx_find_skip:
  assumes "\<And>a b. pre = a @ b \<Longrightarrow> b \<noteq> [] \<Longrightarrow> rx_seq rs (b @ s) = []"
  shows "rx_find rs (pre @ s) = rx_find rs s"
  using assms
proof (induction pre)
  case (Cons c cs)
  have "rx_seq rs (c # cs @ s) = []" using Cons.prems[of "[]"] by simp
  moreover have "rx_find rs (cs @ s) = rx_find rs s"
    using Cons.IH Cons.prems by (metis append_Cons)
  ultimately show ?case by simp
qed simp

lemma rx_find_here: "rx_seq rs s = (cs, t) # ms \<Longrightarrow> rx_find rs s = Some cs"
  by (cases s) simp_all


lemma rx_lit_hd: "rx_match (Lit l) (l @ s) = ([], s) # []"
  by simp

lemma rx_find_absent: "\<not> contains s l \<Longrightarrow> l \<noteq> [] \<Longrightarrow> rx_find (Lit l # rs) s = None"
  by (induction s) (auto simp: has_prefix_def)

lemma rx_find_first:
  assumes "\<not> contains (pre @ butlast l) l" "l \<noteq> []"
  shows "rx_find (Lit l # rs) (pre @ l @ s) = rx_find (Lit l # rs) (l @ s)"
proof (rule rx_find_skip)
  fix a b assume ab: "pre = a @ b" "b \<noteq> []"
  have "\<not> has_prefix (b @ l @ s) l"
  proof
    assume h: "has_prefix (b @ l @ s) l"
    have len: "length l \<le> length (b @ butlast l)" using ab(2) assms(2) by (cases b) auto
    have "take (length l) (b @ l @ s) = take (length l) (b @ butlast l)"
      using ab(2) assms(2) len by (cases l rule: rev_cases) auto
    then have "take (length l) (b @ butlast l) = l" using h by (simp add: has_prefix_def)
    then have "\<exists>c. b @ butlast l = l @ c" by (metis append_take_drop_id)
    then have "contains (a @ b @ butlast l) l" by (auto simp: contains_iff)
    with assms(1) ab(1) show False by simp
  qed
  then show "rx_seq (Lit l # rs) (b @ l @ s) = []" by simp
qed

abbreviation nonspace :: "string \<Rightarrow> bool" where "nonspace t \<equiv> t \<noteq> [] \<and> list_all (in_class NonSpace) t"
abbreviation addr_chars :: "string \<Rightarrow> bool" where "addr_chars t \<equiv> t \<noteq> [] \<and> list_all (in_class AddrChar) t"
abbreviation digits :: "string \<Rightarrow> bool" where "digits t \<equiv> t \<noteq> [] \<and> list_all (in_class Digit) t"

text \<open>The common tail of a message: the address and the port.\<close>

definition from_addr :: "string \<Rightarrow> string \<Rightarrow> string" where
  "from_addr addr dport = '' from '' @ addr @ '' port '' @ dport"

lemma space_classes: "\<not> in_class NonSpace CHR '' ''" "\<not> in_class AddrChar CHR '' ''"
  by (simp_all add: in_class_def)

lemma rx_from_addr_hd:
  assumes "addr_chars addr" "digits dport"
  shows "\<exists>u ms. rx_seq rx_from_addr (from_addr addr dport @ rest) = ([addr], u) # ms"
proof -
  obtain d u where d: "d \<noteq> []" "list_all (in_class Digit) d" "dport @ rest = d @ u" "u = [] \<or> \<not> in_class Digit (hd u)"
  proof
    let ?k = "in_class Digit"
    show "dport @ rest = takeWhile ?k (dport @ rest) @ dropWhile ?k (dport @ rest)" by simp
    show "takeWhile ?k (dport @ rest) \<noteq> []" using assms(2) by (cases dport) auto
    show "list_all ?k (takeWhile ?k (dport @ rest))" by (metis list_all_iff set_takeWhileD)
    show "dropWhile ?k (dport @ rest) = [] \<or> \<not> ?k (hd (dropWhile ?k (dport @ rest)))"
      using hd_dropWhile by blast
  qed
  obtain m1 where m1: "rx_match (Plus Digit) (d @ u) = ([], u) # m1" using rx_plus_hd[OF d(1,2,4)] by blast
  have "\<exists>ks. rx_seq [Plus Digit] (d @ u) = ([] @ [], u) # ks" by (rule rx_seq_hd[OF m1]) simp
  then obtain k1 where k1: "rx_seq [Plus Digit] (d @ u) = ([], u) # k1" by auto
  have "\<exists>ks. rx_seq [Lit '' port '', Plus Digit] ('' port '' @ d @ u) = ([] @ [], u) # ks"
    by (rule rx_seq_hd[OF rx_lit_hd k1])
  then obtain k2 where k2: "rx_seq [Lit '' port '', Plus Digit] ('' port '' @ d @ u) = ([], u) # k2" by auto
  have "\<exists>ms. rx_match (Group (Plus AddrChar)) (addr @ '' port '' @ d @ u) = ([addr], '' port '' @ d @ u) # ms"
    using assms(1) by (intro rx_group_hd) (auto simp: space_classes)
  then obtain m3 where m3: "rx_match (Group (Plus AddrChar)) (addr @ '' port '' @ d @ u) = ([addr], '' port '' @ d @ u) # m3" by auto
  have "\<exists>ks. rx_seq [Group (Plus AddrChar), Lit '' port '', Plus Digit] (addr @ '' port '' @ d @ u) = ([addr] @ [], u) # ks"
    by (rule rx_seq_hd[OF m3 k2])
  then obtain k3 where k3: "rx_seq [Group (Plus AddrChar), Lit '' port '', Plus Digit] (addr @ '' port '' @ d @ u) = ([addr], u) # k3" by auto
  have "\<exists>ks. rx_seq rx_from_addr ('' from '' @ addr @ '' port '' @ d @ u) = ([] @ [addr], u) # ks"
    unfolding rx_from_addr_def by (rule rx_seq_hd[OF rx_lit_hd k3])
  then show ?thesis using d(3) by (auto simp: from_addr_def)
qed

lemma rx_user_hd:
  assumes "nonspace user" "addr_chars addr" "digits dport"
  shows "\<exists>u ms. rx_seq (Group (Plus NonSpace) # rx_from_addr) (user @ from_addr addr dport @ rest) = ([user, addr], u) # ms"
proof -
  have "\<exists>ms. rx_match (Group (Plus NonSpace)) (user @ from_addr addr dport @ rest) = ([user], from_addr addr dport @ rest) # ms"
    using assms(1) by (intro rx_group_hd) (auto simp: space_classes from_addr_def)
  then obtain m where m: "rx_match (Group (Plus NonSpace)) (user @ from_addr addr dport @ rest) = ([user], from_addr addr dport @ rest) # m" by auto
  obtain u ms where t: "rx_seq rx_from_addr (from_addr addr dport @ rest) = ([addr], u) # ms"
    using rx_from_addr_hd[OF assms(2,3)] by blast
  show ?thesis using rx_seq_hd[OF m t] unfolding append_Cons append_Nil by blast
qed


lemma rx_accepted_here:
  assumes "nonspace meth" "nonspace user" "addr_chars addr" "digits dport"
  shows "rx_find reAccepted (''Accepted '' @ meth @ '' for '' @ user @ from_addr addr dport @ rest) = Some [user, addr]"
proof -
  obtain u ms where us: "rx_seq (Group (Plus NonSpace) # rx_from_addr) (user @ from_addr addr dport @ rest) = ([user, addr], u) # ms"
    using rx_user_hd[OF assms(2-4)] by blast
  obtain k1 where k1: "rx_seq (Lit '' for '' # Group (Plus NonSpace) # rx_from_addr) ('' for '' @ user @ from_addr addr dport @ rest)
      = ([user, addr], u) # k1"
    using rx_seq_hd[OF rx_lit_hd us] unfolding append_Nil by blast
  have "\<exists>ms. rx_match (Plus NonSpace) (meth @ '' for '' @ user @ from_addr addr dport @ rest)
      = ([], '' for '' @ user @ from_addr addr dport @ rest) # ms"
    using assms(1) by (intro rx_plus_hd) (auto simp: space_classes)
  then obtain m2 where m2: "rx_match (Plus NonSpace) (meth @ '' for '' @ user @ from_addr addr dport @ rest)
      = ([], '' for '' @ user @ from_addr addr dport @ rest) # m2" by blast
  obtain k2 where k2: "rx_seq (Plus NonSpace # Lit '' for '' # Group (Plus NonSpace) # rx_from_addr)
      (meth @ '' for '' @ user @ from_addr addr dport @ rest) = ([user, addr], u) # k2"
    using rx_seq_hd[OF m2 k1] unfolding append_Nil by blast
  obtain k3 where "rx_seq reAccepted (''Accepted '' @ meth @ '' for '' @ user @ from_addr addr dport @ rest) = ([user, addr], u) # k3"
    using rx_seq_hd[OF rx_lit_hd[of "''Accepted ''"] k2]
    by (auto simp: reAccepted_def simp del: rx_seq.simps rx_match.simps)
  then show ?thesis by (rule rx_find_here)
qed

lemma not_invalid_prefix:
  assumes "list_all (in_class NonSpace) user"
  shows "\<not> has_prefix (user @ from_addr addr dport @ rest) ''invalid user ''"
proof
  assume "has_prefix (user @ from_addr addr dport @ rest) ''invalid user ''"
  then obtain t where t: "user @ from_addr addr dport @ rest = ''invalid'' @ '' user '' @ t"
    by (auto simp: has_prefix_iff)
  have tw: "takeWhile (in_class NonSpace) (w @ CHR '' '' # z) = w" if "list_all (in_class NonSpace) w" for w z
    using that space_classes by (subst takeWhile_append2) (auto simp: list_all_iff)
  have "list_all (in_class NonSpace) ''invalid''" by (simp add: in_class_def)
  from tw[OF this, of "''user '' @ t"] tw[OF assms, of "''from '' @ addr @ '' port '' @ dport @ rest"] t
  have "user = ''invalid''" by (simp add: from_addr_def)
  with t show False by (simp add: from_addr_def)
qed

lemma rx_failed_here:
  assumes "iu = [] \<or> iu = ''invalid user ''" "nonspace user" "addr_chars addr" "digits dport"
  shows "rx_find reFailed (''Failed password for '' @ iu @ user @ from_addr addr dport @ rest) = Some [user, addr]"
proof -
  let ?tail = "user @ from_addr addr dport @ rest"
  obtain u ms where us: "rx_seq (Group (Plus NonSpace) # rx_from_addr) ?tail = ([user, addr], u) # ms"
    using rx_user_hd[OF assms(2-4)] by blast
  have "\<exists>ms. rx_match (Opt [Lit ''invalid user '']) (iu @ ?tail) = ([], ?tail) # ms"
  proof (cases "iu = []")
    case True
    then show ?thesis using not_invalid_prefix[of user addr dport rest] assms(2) by simp
  next
    case False
    then have "iu = ''invalid user ''" using assms(1) by blast
    then show ?thesis by (simp add: has_prefix_def)
  qed
  then obtain m1 where m1: "rx_match (Opt [Lit ''invalid user '']) (iu @ ?tail) = ([], ?tail) # m1" by blast
  obtain k1 where k1: "rx_seq (Opt [Lit ''invalid user ''] # Group (Plus NonSpace) # rx_from_addr) (iu @ ?tail) = ([user, addr], u) # k1"
    using rx_seq_hd[OF m1 us] unfolding append_Nil by blast
  obtain k2 where "rx_seq reFailed (''Failed password for '' @ iu @ ?tail) = ([user, addr], u) # k2"
    using rx_seq_hd[OF rx_lit_hd[of "''Failed password for ''"] k1]
    by (auto simp: reFailed_def simp del: rx_seq.simps rx_match.simps)
  then show ?thesis by (rule rx_find_here)
qed

text \<open>sshd's own messages are read as they are meant: an "Accepted" line gives a successful event with
  the user and address it names, a "Failed password" line, for a known or an invalid user, a failed
  one, whatever comes before the message and after the port.\<close>

theorem ssh_messages_parsed:
  assumes "nonspace user" "addr_chars addr" "digits dport" "contains pre ''sshd[''"
    and "nonspace meth" "\<not> contains (pre @ ''Accepted'') ''Accepted ''"
    and "iu = [] \<or> iu = ''invalid user ''" "\<not> contains (pre @ ''Failed password for'') ''Failed password for ''"
    and "acc = pre @ ''Accepted '' @ meth @ '' for '' @ user @ from_addr addr dport @ rest"
    and "bad = pre @ ''Failed password for '' @ iu @ user @ from_addr addr dport @ rest"
    and "\<not> contains bad ''Accepted ''"
  shows "parseSSHLine t acc = Some \<lparr>se_time = t, se_ip = addr, se_user = user, se_action = ''accepted'',
        se_success = True, se_detail = acc\<rparr>
    \<and> parseSSHLine t bad = Some \<lparr>se_time = t, se_ip = addr, se_user = user, se_action = ''failed'',
        se_success = False, se_detail = bad\<rparr>"
proof -
  have c: "contains (pre @ x) ''sshd[''" for x using assms(4) by (auto simp: contains_iff) (metis append.assoc)
  have "rx_find reAccepted acc = Some [user, addr]"
    unfolding assms(9) reAccepted_def append_Cons
    using rx_find_first[of pre "''Accepted ''"] assms(6) rx_accepted_here[OF assms(5,1-3), of rest]
    by (simp add: reAccepted_def)
  moreover have "rx_find reAccepted bad = None"
    unfolding reAccepted_def append_Cons by (rule rx_find_absent[OF assms(11)]) simp
  moreover have "rx_find reFailed bad = Some [user, addr]"
    unfolding assms(10) reFailed_def append_Cons
    using rx_find_first[of pre "''Failed password for ''"] assms(8) rx_failed_here[OF assms(7,1-3), of rest]
    by (simp add: reFailed_def)
  ultimately show ?thesis using c by (simp add: parseSSHLine_def assms(9,10))
qed


definition ex_pre :: string where "ex_pre = ''Aug 1 host sshd[7]: ''"

theorem ssh_messages_parsed_witness:
  "parseSSHLine 5 (ex_pre @ ''Accepted password for root from 1.2.3.4 port 22 ssh2'') =
     Some \<lparr>se_time = 5, se_ip = ''1.2.3.4'', se_user = ''root'', se_action = ''accepted'', se_success = True,
       se_detail = ex_pre @ ''Accepted password for root from 1.2.3.4 port 22 ssh2''\<rparr>"
proof -
  have n: "nonspace ''root''" "addr_chars ''1.2.3.4''" "digits ''22''" "nonspace ''password''"
    by (simp_all add: in_class_def)
  have c: "contains ex_pre ''sshd[''" "\<not> contains (ex_pre @ ''Accepted'') ''Accepted ''"
    "\<not> contains (ex_pre @ ''Failed password for'') ''Failed password for ''"
    "\<not> contains (ex_pre @ ''Failed password for '' @ [] @ ''root'' @ from_addr ''1.2.3.4'' ''22'' @ '' ssh2'') ''Accepted ''"
    by code_simp+
  from ssh_messages_parsed[OF n(1-3) c(1) n(4) c(2) disjI1[OF refl] c(3) refl refl c(4), of 5]
  show ?thesis by (simp add: from_addr_def)
qed

lemma rx_find_later: "rx_seq rs s \<noteq> [] \<Longrightarrow> \<exists>cs. rx_find rs (pre @ s) = Some cs"
proof (induction pre)
  case Nil
  then show ?case by (cases s) (auto simp: neq_Nil_conv simp del: rx_seq.simps)
next
  case (Cons c pre)
  then show ?case by (auto split: list.split simp del: rx_seq.simps)
qed

lemma rx_find_Some_seq: "rx_find rs s = Some cs \<Longrightarrow> \<exists>p t. s = p @ t \<and> rx_seq rs t \<noteq> []"
proof (induction s)
  case Nil
  then show ?case by (intro exI[of _ "[]"]) (auto split: list.splits simp del: rx_seq.simps)
next
  case (Cons c s)
  show ?case
  proof (cases "rx_seq rs (c # s) = []")
    case True
    then have "rx_find rs s = Some cs" using Cons.prems by (simp del: rx_seq.simps)
    from Cons.IH[OF this] obtain p t where "s = p @ t" "rx_seq rs t \<noteq> []" by blast
    then show ?thesis by (intro exI[of _ "c # p"] exI[of _ t]) simp
  next
    case False
    then show ?thesis by (intro exI[of _ "[]"] exI[of _ "c # s"]) (simp del: rx_seq.simps)
  qed
qed

text \<open>C37: the patterns are not anchored and "Accepted" is tried first: whenever sshd logs a failed attempt for a user name
  that contains the text of an "Accepted" message, of any method, user, address and port, with anything before and
  after it, the attempt is reported as a successful login; and if that text is the first in the line, as a login of
  the very user and from the very address the attacker wrote into the name, not of the peer's.\<close>

theorem ssh_forged_success:
  assumes "contains pre ''sshd[''"
    and "kind \<in> {''Invalid user '', ''Failed password for '', ''Failed password for invalid user ''}"
    and "name = before @ ''Accepted '' @ meth @ '' for '' @ user @ '' from '' @ addr @ '' port '' @ dport @ after"
    and "nonspace meth" "nonspace user" "addr_chars addr" "digits dport"
    and "line = pre @ kind @ name @ '' from '' @ peer @ '' port '' @ peer_port @ rest"
  shows "(\<exists>ev. parseSSHLine t line = Some ev \<and> se_success ev \<and> se_action ev = ''accepted'')
    \<and> (\<not> contains (pre @ kind @ before @ ''Accepted'') ''Accepted '' \<longrightarrow>
        parseSSHLine t line = Some \<lparr>se_time = t, se_ip = addr, se_user = user, se_action = ''accepted'',
          se_success = True, se_detail = line\<rparr>)"
proof -
  let ?tail = "after @ '' from '' @ peer @ '' port '' @ peer_port @ rest"
  let ?msg = "''Accepted '' @ meth @ '' for '' @ user @ from_addr addr dport @ ?tail"
  have l: "line = (pre @ kind @ before) @ ?msg" by (simp add: assms(3,8) from_addr_def)
  note here = rx_accepted_here[OF assms(4-7), of ?tail]
  have c: "contains line ''sshd[''" using assms(1) unfolding assms(8) by (auto simp: contains_iff) (metis append.assoc)
  obtain p m where "?msg = p @ m" "rx_seq reAccepted m \<noteq> []" using rx_find_Some_seq[OF here] by blast
  then obtain cs where "rx_find reAccepted line = Some cs"
    using rx_find_later[of reAccepted m "(pre @ kind @ before) @ p"] unfolding l by auto
  with c have 1: "\<exists>ev. parseSSHLine t line = Some ev \<and> se_success ev \<and> se_action ev = ''accepted''"
    by (simp add: parseSSHLine_def)
  have "rx_find reAccepted line = Some [user, addr]" if "\<not> contains (pre @ kind @ before @ ''Accepted'') ''Accepted ''"
    using rx_find_first[of "pre @ kind @ before" "''Accepted ''"] that here
    unfolding l reAccepted_def append_Cons by simp
  with c 1 show ?thesis by (simp add: parseSSHLine_def)
qed

theorem ssh_forged_success_witness:
  "parseSSHLine 0 (ex_pre @ ''Failed password for invalid user a Accepted publickey for root from fe80::1 port 22 b from 6.6.6.6 port 999 ssh2'')
   = Some \<lparr>se_time = 0, se_ip = ''fe80::1'', se_user = ''root'', se_action = ''accepted'', se_success = True,
       se_detail = ex_pre @ ''Failed password for invalid user a Accepted publickey for root from fe80::1 port 22 b from 6.6.6.6 port 999 ssh2''\<rparr>"
proof -
  have n: "nonspace ''publickey''" "nonspace ''root''" "addr_chars ''fe80::1''" "digits ''22''"
    by (simp_all add: in_class_def)
  have c: "contains ex_pre ''sshd[''"
    "\<not> contains (ex_pre @ ''Failed password for invalid user '' @ ''a '' @ ''Accepted'') ''Accepted ''"
    by code_simp+
  have k: "''Failed password for invalid user '' \<in> {''Invalid user '', ''Failed password for '', ''Failed password for invalid user ''}"
    by blast
  from ssh_forged_success[where before = "''a ''" and t = 0 and after = "'' b''" and peer = "''6.6.6.6''" and peer_port = "''999''" and rest = "'' ssh2''",
      OF c(1) k refl n refl] c(2)
  show ?thesis by simp
qed

section \<open>Tailing the file\<close>

text \<open>The event of a line up to its time, which is that of the clock when the line is parsed.\<close>

definition line_event :: "string \<Rightarrow> ssh_event option" where
  "line_event line = parseSSHLine 0 line"

definition untimed :: "ssh_event event_log \<Rightarrow> ssh_event list" where
  "untimed l = map (se_time_update (\<lambda>_. 0)) (el_events l)"

lemma parse_untimed: "map_option (se_time_update (\<lambda>_. 0)) (parseSSHLine t line) = line_event line"
  by (auto simp: line_event_def parseSSHLine_def split: option.split)

lemma untimed_Append:
  "untimed (Append enc io e l) = lastn (el_cap l) (untimed l @ [e\<lparr>se_time := 0\<rparr>])"
  by (simp add: untimed_def lastn_def flip: drop_map)

lemma append_lines_spec:
  "el_cap (append_lines enc env i lines l) = el_cap l \<and>
   (length (el_events l) \<le> el_cap l \<longrightarrow>
      untimed (append_lines enc env i lines l) = lastn (el_cap l) (untimed l @ List.map_filter line_event lines) \<and>
      length (el_events (append_lines enc env i lines l)) \<le> el_cap l)"
proof (induction lines arbitrary: i l)
  case Nil
  then show ?case by (simp add: untimed_def map_filter_simps)
next
  case (Cons line lines)
  show ?case
  proof (cases "parseSSHLine (fst (env i)) line")
    case None
    then have "line_event line = None" using parse_untimed[of "fst (env i)" line] by simp
    with None Cons show ?thesis by (simp add: map_filter_simps)
  next
    case (Some e)
    then have "line_event line = Some (e\<lparr>se_time := 0\<rparr>)" using parse_untimed[of "fst (env i)" line] by simp
    with Some Cons[of "Suc i" "Append enc (snd (env i)) e l"] show ?thesis
      by (simp add: map_filter_simps untimed_Append lastn_lastn_append)
  qed
qed

definition ssh_ok :: "ssh_watcher \<Rightarrow> bool" where
  "ssh_ok w \<longleftrightarrow> el_cap (ssh_log w) = 500 \<and> length (el_events (ssh_log w)) \<le> 500"

text \<open>A file that stays the same during one poll.\<close>

definition one_file :: "string \<Rightarrow> log_file \<Rightarrow> nat \<Rightarrow> fsys" where
  "one_file p f i q = (if q = p then Some f else None)"

definition start_of :: "ssh_watcher \<Rightarrow> log_file \<Rightarrow> nat" where
  "start_of w f =
     (if f_inode f \<noteq> 0 \<and> f_inode f \<noteq> ssh_inode w then 0
      else if length (f_bytes f) < ssh_offset w then 0 else ssh_offset w)"

lemma line_event_Nil [simp]: "line_event [] = None"
  by (simp add: line_event_def parseSSHLine_def)

lemma read_new_spec:
  assumes "ssh_ok w" "fs 3 (ssh_path w) = Some f" "ssh_offset w \<le> length (f_bytes f)"
  shows "ssh_ok (read_new enc env None fs (length (f_bytes f)) w) \<and>
    untimed (ssh_log (read_new enc env None fs (length (f_bytes f)) w)) =
      lastn 500 (untimed (ssh_log w) @ List.map_filter line_event (split_on newline (drop (ssh_offset w) (f_bytes f)))) \<and>
    ssh_offset (read_new enc env None fs (length (f_bytes f)) w) = length (f_bytes f) \<and>
    ssh_path (read_new enc env None fs (length (f_bytes f)) w) = ssh_path w \<and>
    ssh_inode (read_new enc env None fs (length (f_bytes f)) w) = ssh_inode w"
  using assms append_lines_spec[of enc env 0 _ "ssh_log w"]
  by (simp add: read_new_def Let_def ssh_ok_def)

lemma ssh_poll_spec:
  assumes "ssh_ok w" "ssh_path w = p" "p \<noteq> []" and w'_def: "w' = ssh_poll enc env None (one_file p f) w"
  shows "ssh_ok w' \<and> ssh_path w' = p \<and> ssh_offset w' = length (f_bytes f) \<and>
    (f_inode f \<noteq> 0 \<longrightarrow> ssh_inode w' = f_inode f) \<and>
    untimed (ssh_log w') = lastn 500 (untimed (ssh_log w) @
      List.map_filter line_event (split_on newline (drop (start_of w f) (f_bytes f))))"
proof -
  define w1 where "w1 = (if f_inode f \<noteq> 0 \<and> f_inode f \<noteq> ssh_inode w
                    then w\<lparr>ssh_offset := 0, ssh_inode := f_inode f\<rparr>
                    else if length (f_bytes f) < ssh_offset w then w\<lparr>ssh_offset := 0\<rparr> else w)"
  have w1: "ssh_ok w1" "ssh_path w1 = p" "ssh_offset w1 = start_of w f" "ssh_log w1 = ssh_log w"
    "f_inode f \<noteq> 0 \<longrightarrow> ssh_inode w1 = f_inode f" "start_of w f \<le> length (f_bytes f)"
    using assms(1,2) by (auto simp: w1_def start_of_def ssh_ok_def)
  have fs: "one_file p f i p = Some f" for i by (simp add: one_file_def)
  have w': "w' = (if length (f_bytes f) \<le> ssh_offset w1 then w1 else read_new enc env None (one_file p f) (length (f_bytes f)) w1)"
    unfolding w'_def ssh_poll_def poll_file_def assms(2) fs option.case Let_def w1_def[symmetric] if_not_P[OF assms(3)]
    by (rule refl)
  show ?thesis
  proof (cases "length (f_bytes f) \<le> ssh_offset w1")
    case True
    then have "drop (start_of w f) (f_bytes f) = []" using w1(3) by simp
    with True w1 w' show ?thesis by (simp add: map_filter_simps ssh_ok_def untimed_def)
  next
    case False
    have o: "one_file p f 3 (ssh_path w1) = Some f" by (simp add: w1(2) fs)
    have "ssh_offset w1 \<le> length (f_bytes f)" using False by simp
    from read_new_spec[where fs = "one_file p f" and enc = enc and env = env, OF w1(1) o this] w1 w' False show ?thesis by simp
  qed
qed


definition unlines :: "string list \<Rightarrow> string" where
  "unlines ls = concat (map (\<lambda>l. l @ [newline]) ls)"

lemma split_unlines: "\<forall>l \<in> set ls. newline \<notin> set l \<Longrightarrow> split_on newline (unlines ls) = ls @ [[]]"
proof (induction ls)
  case (Cons l ls)
  have "split_on newline (l @ newline # s) = l # split_on newline s" if "newline \<notin> set l" for s
    using that by (induction l) auto
  with Cons show ?case by (simp add: unlines_def)
qed (simp add: unlines_def)

lemma map_filter_append: "List.map_filter f (xs @ ys) = List.map_filter f xs @ List.map_filter f ys"
  by (simp add: List.map_filter_def)

text \<open>Polling a log that grows by whole lines: before each poll some lines are appended.\<close>

fun grow :: "(ssh_event \<Rightarrow> string option) \<Rightarrow> (nat \<Rightarrow> time \<times> io) \<Rightarrow> string \<Rightarrow> nat \<Rightarrow> string \<Rightarrow> string list list
    \<Rightarrow> ssh_watcher \<Rightarrow> ssh_watcher" where
  "grow enc env p i base [] w = w"
| "grow enc env p i base (ls # lss) w =
     (let c = base @ unlines ls
      in grow enc env p i c lss (ssh_poll enc env None (one_file p \<lparr>f_inode = i, f_bytes = c\<rparr>) w))"

lemma grow_spec:
  assumes "ssh_ok w" "ssh_path w = p" "p \<noteq> []" "ssh_inode w = i" "ssh_offset w = length base"
    and "\<forall>ls \<in> set lss. \<forall>l \<in> set ls. newline \<notin> set l"
  shows "ssh_ok (grow enc env p i base lss w) \<and>
    untimed (ssh_log (grow enc env p i base lss w)) =
      lastn 500 (untimed (ssh_log w) @ List.map_filter line_event (concat lss))"
  using assms
proof (induction lss arbitrary: base w)
  case Nil
  then show ?case by (simp add: map_filter_simps ssh_ok_def untimed_def)
next
  case (Cons ls lss)
  let ?c = "base @ unlines ls"
  let ?f = "\<lparr>f_inode = i, f_bytes = ?c\<rparr>"
  let ?w = "ssh_poll enc env None (one_file p ?f) w"
  have "start_of w ?f = length base" using Cons.prems by (simp add: start_of_def)
  then have rd: "List.map_filter line_event (split_on newline (drop (start_of w ?f) (f_bytes ?f))) =
      List.map_filter line_event ls"
    using Cons.prems(6) by (simp add: split_unlines map_filter_append map_filter_simps)
  note s = ssh_poll_spec[OF Cons.prems(1-3) refl, where enc = enc and env = env and f = ?f, unfolded rd]
  have i: "ssh_inode ?w = i"
  proof (cases "i = 0")
    case True
    then show ?thesis using Cons.prems(2,3,4)
      by (auto simp: ssh_poll_def poll_file_def one_file_def read_new_def Let_def)
  next
    case False
    then show ?thesis using s by simp
  qed
  have "ssh_ok (grow enc env p i ?c lss ?w) \<and> untimed (ssh_log (grow enc env p i ?c lss ?w)) =
      lastn 500 (untimed (ssh_log ?w) @ List.map_filter line_event (concat lss))"
    by (rule Cons.IH) (use s i Cons.prems(3,6) in simp_all)
  then show ?case using s by (simp add: Let_def lastn_lastn_append map_filter_append)
qed

text \<open>C36: while the log is appended to by whole lines, every line is read once and in order: after any
  number of polls the events are those of the lines written since the file was found, whatever was
  in it before, and nothing is replayed (the last 500 are kept).\<close>

theorem ssh_tail_exact:
  assumes "ssh_ok w" "ssh_path w = []" "explicitPath w = p" "p \<noteq> []"
    and "\<forall>ls \<in> set lss. \<forall>l \<in> set ls. newline \<notin> set l"
    and "w1 = ssh_poll enc env None (one_file p \<lparr>f_inode = i, f_bytes = base\<rparr>) w"
  shows "untimed (ssh_log (grow enc env p i base lss w1)) =
    lastn 500 (untimed (ssh_log w) @ List.map_filter line_event (concat lss))"
proof -
  have w1: "w1 = w\<lparr>ssh_path := p, ssh_offset := length base, ssh_inode := i\<rparr>"
    using assms(2,3,4) unfolding assms(6)
    by (simp add: ssh_poll_def resolvePath_def one_file_def poll_file_def Let_def)
  have "ssh_ok w1" using assms(1) by (simp add: w1 ssh_ok_def)
  from grow_spec[OF this _ assms(4) _ _ assms(5), of i base enc env] show ?thesis
    by (simp add: w1)
qed

definition ex_ssh_enc :: "ssh_event \<Rightarrow> string option" where "ex_ssh_enc e = Some (se_ip e)"
definition ex_ssh_env :: "nat \<Rightarrow> time \<times> io" where "ex_ssh_env i = (0, ex_io)"
definition ex_ssh :: ssh_watcher where "ex_ssh = NewSSHWatcher (\<lambda>_. None) ''l'' None"

lemma ex_ssh_ok: "ssh_ok ex_ssh" "ssh_path ex_ssh = []" "explicitPath ex_ssh = ''l''" "untimed (ssh_log ex_ssh) = []"
  by (simp_all add: ex_ssh_def NewSSHWatcher_def ssh_ok_def NewEventLog_def load_lines_def untimed_def)

definition ex_line :: string where "ex_line = ''sshd[1]: Accepted publickey for root from 5.6.7.8 port 22 ssh2''"

lemma ex_line_event:
  "line_event ex_line = Some \<lparr>se_time = 0, se_ip = ''5.6.7.8'', se_user = ''root'', se_action = ''accepted'',
     se_success = True, se_detail = ex_line\<rparr>"
  by code_simp

theorem ssh_tail_exact_witness:
  "untimed (ssh_log (grow ex_ssh_enc ex_ssh_env ''l'' 9 ''old'' [[''x''], [ex_line]]
      (ssh_poll ex_ssh_enc ex_ssh_env None (one_file ''l'' \<lparr>f_inode = 9, f_bytes = ''old''\<rparr>) ex_ssh))) =
   [\<lparr>se_time = 0, se_ip = ''5.6.7.8'', se_user = ''root'', se_action = ''accepted'', se_success = True, se_detail = ex_line\<rparr>]"
proof -
  have x: "line_event ''x'' = None" by code_simp
  have n: "\<forall>ls \<in> set [[''x''], [ex_line]]. \<forall>l \<in> set ls. newline \<notin> set l" by (simp add: ex_line_def)
  from ssh_tail_exact[OF ex_ssh_ok(1-3) _ n refl, of ex_ssh_enc ex_ssh_env 9 "''old''"] show ?thesis
    by (simp add: ex_ssh_ok(4) map_filter_simps x ex_line_event)
qed


section \<open>Rotation, and what the tail misses\<close>

text \<open>a rotated or truncated log is read from its start: when the inode changed, or the file is shorter
  than what was read, one poll logs the events of all lines of the new file, and none of them twice.\<close>

theorem ssh_rotation:
  assumes "ssh_ok w" "ssh_path w = p" "p \<noteq> []"
    and "f_inode f \<noteq> 0 \<and> f_inode f \<noteq> ssh_inode w \<or> length (f_bytes f) < ssh_offset w"
    and "f_bytes f = unlines ls" "\<forall>l \<in> set ls. newline \<notin> set l"
    and "w1 = ssh_poll enc env None (one_file p f) w"
  shows "untimed (ssh_log w1) = lastn 500 (untimed (ssh_log w) @ List.map_filter line_event ls)
    \<and> (f_inode f \<noteq> 0 \<longrightarrow> untimed (ssh_log (ssh_poll enc env' None (one_file p f) w1)) = untimed (ssh_log w1))"
proof -
  have s0: "start_of w f = 0" using assms(4) by (auto simp: start_of_def)
  note s = ssh_poll_spec[OF assms(1-3,7)]
  have ev: "List.map_filter line_event (split_on newline (f_bytes f)) = List.map_filter line_event ls"
    using assms(5,6) by (simp add: split_unlines map_filter_append map_filter_simps)
  have ok: "ssh_ok w1" "ssh_path w1 = p" using s by auto
  have "start_of w1 f = length (f_bytes f)" if "f_inode f \<noteq> 0"
    using s that by (simp add: start_of_def)
  then have "untimed (ssh_log (ssh_poll enc env' None (one_file p f) w1)) = untimed (ssh_log w1)" if "f_inode f \<noteq> 0"
    using that ssh_poll_spec[OF ok assms(3) refl, of enc env' f] ok(1)
    by (simp add: map_filter_simps ssh_ok_def untimed_def)
  with s s0 ev show ?thesis by simp
qed

lemma ex_unlines: "''x'' @ newline # ex_line @ [newline] = unlines [''x'', ex_line]"
  by (simp add: unlines_def)

theorem ssh_rotation_witness:
  "length (untimed (ssh_log (ssh_poll ex_ssh_enc ex_ssh_env None (one_file ''l'' \<lparr>f_inode = 4, f_bytes = unlines [''x'', ex_line]\<rparr>)
     (ex_ssh\<lparr>ssh_path := ''l'', ssh_inode := 3, ssh_offset := 7\<rparr>)))) = 1"
proof -
  have x: "line_event ''x'' = None" by code_simp
  let ?w = "ex_ssh\<lparr>ssh_path := ''l'', ssh_inode := 3, ssh_offset := 7\<rparr>"
  have o: "ssh_ok ?w" "untimed (ssh_log ?w) = []" using ex_ssh_ok by (simp_all add: ssh_ok_def)
  have n: "\<forall>l \<in> set [''x'', ex_line]. newline \<notin> set l" by (simp add: ex_line_def)
  from ssh_rotation[OF o(1) _ _ _ _ n refl, of "''l''" "\<lparr>f_inode = 4, f_bytes = unlines [''x'', ex_line]\<rparr>" ex_ssh_enc ex_ssh_env] o(2)
  show ?thesis by (simp add: map_filter_simps x ex_line_event)
qed

text \<open>two ways the tail misses an event. A line that is caught half written is parsed in two parts and
  reported by neither poll. A log that is absent at one poll is looked up again at the next and then
  read from its end, so what was written to the new file in between is skipped, although a rotated log is
  meant to be read from its start.\<close>

theorem ssh_tail_misses:
  "let poll = ssh_poll ex_ssh_enc ex_ssh_env None;
       lf = (\<lambda>i c. one_file ''l'' \<lparr>f_inode = i, f_bytes = c\<rparr>);
       found = poll (lf 1 []) ex_ssh;
       half = poll (lf 1 (ex_line @ [newline])) (poll (lf 1 (take 40 ex_line)) found);
       gone = poll (lf 2 (ex_line @ [newline])) (poll (\<lambda>_ _. None) found)
   in untimed (ssh_log half) = [] \<and> untimed (ssh_log gone) = [] \<and>
      length (untimed (ssh_log (poll (lf 2 (ex_line @ [newline])) found))) = 1"
proof -
  let ?poll = "ssh_poll ex_ssh_enc ex_ssh_env None" and ?lf = "\<lambda>i c. one_file ''l'' \<lparr>f_inode = i, f_bytes = c\<rparr>"
  define full where "full = ex_line @ [newline]"
  define found where "found = ?poll (?lf 1 []) ex_ssh"
  have found: "found = ex_ssh\<lparr>ssh_path := ''l'', ssh_offset := 0, ssh_inode := 1\<rparr>"
    using ex_ssh_ok unfolding found_def
    by (simp add: ssh_poll_def resolvePath_def poll_file_def one_file_def Let_def)
  have f: "ssh_ok found" "ssh_path found = ''l''" "untimed (ssh_log found) = []" "ssh_offset found = 0" "ssh_inode found = 1"
    using ex_ssh_ok by (simp_all add: found ssh_ok_def)
  have ev: "List.map_filter line_event (split_on newline (take 40 ex_line)) = []"
    "List.map_filter line_event (split_on newline (drop 40 full)) = []"
    "length (List.map_filter line_event (split_on newline full)) = 1"
    unfolding full_def by code_simp+
  have len: "length (take 40 ex_line) = 40" "40 \<le> length full" by (simp_all add: full_def ex_line_def)
  define w1 where "w1 = ?poll (?lf 1 (take 40 ex_line)) found"
  have w1: "ssh_ok w1" "ssh_path w1 = ''l''" "untimed (ssh_log w1) = []" "ssh_offset w1 = 40" "ssh_inode w1 = 1"
    using ssh_poll_spec[OF f(1,2) _ w1_def] ev(1) len(1) f by (simp_all add: start_of_def)
  have half: "untimed (ssh_log (?poll (?lf 1 full) w1)) = []"
    using ssh_poll_spec[OF w1(1,2) _ refl, of ex_ssh_enc ex_ssh_env "\<lparr>f_inode = 1, f_bytes = full\<rparr>"] ev(2) len(2) w1
    by (simp add: start_of_def)
  have "?poll (\<lambda>_ _. None) found = found\<lparr>ssh_path := []\<rparr>"
    by (simp add: found ssh_poll_def poll_file_def)
  moreover have "?poll (?lf 2 full) (found\<lparr>ssh_path := []\<rparr>) = found\<lparr>ssh_path := ''l'', ssh_offset := length full, ssh_inode := 2\<rparr>"
    using ex_ssh_ok(3) by (simp add: found ssh_poll_def resolvePath_def poll_file_def one_file_def Let_def)
  ultimately have gone: "untimed (ssh_log (?poll (?lf 2 full) (?poll (\<lambda>_ _. None) found))) = []"
    using f(3) by simp
  have all: "length (untimed (ssh_log (?poll (?lf 2 full) found))) = 1"
    using ssh_poll_spec[OF f(1,2) _ refl, of ex_ssh_enc ex_ssh_env "\<lparr>f_inode = 2, f_bytes = full\<rparr>"] ev(3) f
    by (simp add: start_of_def)
  show ?thesis
    using half gone all unfolding Let_def found_def[symmetric] full_def[symmetric] w1_def[symmetric] by blast
qed

end
