(* ===== verification/Uptime.thy ===== *)
theory Uptime
  imports EventLog ProcText
begin

text \<open>
  The log of host sessions (internal/uptime/log.go) and its endpoint (internal/api/handler_uptime.go):
  the boot time read from the host, the detection of reboots, the file and the response.
\<close>

section \<open>Reading the boot time\<close>

definition ReadBootTime :: "string option \<Rightarrow> time \<Rightarrow> time" where
  "ReadBootTime proc_uptime t =
     (case proc_uptime of
        None \<Rightarrow> t
      | Some content \<Rightarrow>
          (case Fields content of
             [] \<Rightarrow> t
           | f # _ \<Rightarrow>
               (case ParseFloat f of
                  None \<Rightarrow> t
                | Some secs \<Rightarrow> t - f_trunc (secs * Fin (of_int Second)))))"

section \<open>Sessions\<close>

definition maxSessions :: nat where "maxSessions = 200"

record up_session =
  s_start :: time
  s_end :: "time option"

definition Ongoing :: "up_session \<Rightarrow> bool" where
  "Ongoing s = (s_end s = None)"

definition Duration :: "up_session \<Rightarrow> time \<Rightarrow> duration" where
  "Duration s t = (case s_end s of Some e \<Rightarrow> t_sub e (s_start s) | None \<Rightarrow> t_sub t (s_start s))"

record up_log =
  ul_file :: "string option"
  ul_sessions :: "up_session list"
  ul_last :: time

definition zero_time :: time where "zero_time = -62135596800 * Second"

definition up_load :: "(string \<Rightarrow> up_session option) \<Rightarrow> string option \<Rightarrow> up_session list" where
  "up_load dec disk = load_lines default_scan dec disk"

definition NewLog :: "(string \<Rightarrow> up_session option) \<Rightarrow> string option \<Rightarrow> up_log" where
  "NewLog dec disk =
     (let ss = up_load dec disk
      in \<lparr>ul_file = disk, ul_sessions = ss, ul_last = (if ss = [] then zero_time else s_start (last ss))\<rparr>)"

definition up_persist :: "(up_session \<Rightarrow> string option) \<Rightarrow> io \<Rightarrow> up_log \<Rightarrow> up_log" where
  "up_persist enc io l = l\<lparr>ul_file := persist_file io (encode_lines enc (ul_sessions l)) (ul_file l)\<rparr>"

definition Observe :: "(up_session \<Rightarrow> string option) \<Rightarrow> io \<Rightarrow> time \<Rightarrow> time \<Rightarrow> up_log \<Rightarrow> up_log" where
  "Observe enc io t boot0 l =
     (let boot = round_sec boot0 in
      if length (ul_sessions l) = 0 then
        up_persist enc io (l\<lparr>ul_sessions := ul_sessions l @ [\<lparr>s_start = boot, s_end = None\<rparr>], ul_last := boot\<rparr>)
      else if boot = ul_last l then l
      else
        let n = length (ul_sessions l);
            closed = (ul_sessions l)[n - 1 := (ul_sessions l ! (n - 1))\<lparr>s_end := Some t\<rparr>];
            ss = closed @ [\<lparr>s_start = boot, s_end = None\<rparr>];
            ss' = (if length ss > maxSessions then drop (length ss - maxSessions) ss else ss)
        in up_persist enc io (l\<lparr>ul_sessions := ss', ul_last := boot\<rparr>))"

definition Sessions :: "up_log \<Rightarrow> up_session list" where
  "Sessions l = rev (ul_sessions l)"

record session_response =
  sr_start :: time
  sr_end :: "time option"
  sr_seconds :: f64
  sr_ongoing :: bool

definition UptimeSessions :: "time \<Rightarrow> up_log \<Rightarrow> session_response list" where
  "UptimeSessions t l = map (\<lambda>s. \<lparr>sr_start = s_start s, sr_end = s_end s,
     sr_seconds = seconds (Duration s t), sr_ongoing = Ongoing s\<rparr>) (Sessions l)"

section \<open>Invariant\<close>

text \<open>Exactly the last session is open, its start is the last boot time, starts are whole seconds.\<close>

definition up_ok :: "up_log \<Rightarrow> bool" where
  "up_ok l \<longleftrightarrow> length (ul_sessions l) \<le> maxSessions \<and>
     (ul_sessions l \<noteq> [] \<longrightarrow>
        (\<exists>ss. ul_sessions l = ss @ [\<lparr>s_start = ul_last l, s_end = None\<rparr>] \<and> (\<forall>s \<in> set ss. s_end s \<noteq> None)))"

lemma Observe_first:
  "ul_sessions l = [] \<Longrightarrow> ul_sessions (Observe enc io t b l) = [\<lparr>s_start = round_sec b, s_end = None\<rparr>]
     \<and> ul_last (Observe enc io t b l) = round_sec b"
  by (simp add: Observe_def up_persist_def Let_def)

lemma Observe_same: "ul_sessions l \<noteq> [] \<Longrightarrow> round_sec b = ul_last l \<Longrightarrow> Observe enc io t b l = l"
  by (simp add: Observe_def Let_def)

lemma Observe_reboot:
  assumes "ul_sessions l = ss @ [s]" "round_sec b \<noteq> ul_last l"
  shows "ul_sessions (Observe enc io t b l) =
      lastn maxSessions (ss @ [s\<lparr>s_end := Some t\<rparr>, \<lparr>s_start = round_sec b, s_end = None\<rparr>])
     \<and> ul_last (Observe enc io t b l) = round_sec b"
  using assms by (auto simp: Observe_def up_persist_def Let_def lastn_def list_update_append)

lemma lastn_snoc: "0 < n \<Longrightarrow> lastn n (xs @ [x]) = lastn (n - 1) xs @ [x]"
  by (cases n) (auto simp: lastn_def)

lemma Observe_ok: "up_ok l \<Longrightarrow> up_ok (Observe enc io t b l)"
proof (cases "ul_sessions l = []")
  case True
  then show ?thesis using Observe_first[OF True, of enc io t b] by (simp add: up_ok_def maxSessions_def)
next
  case False
  assume ok: "up_ok l"
  then obtain ss where ss: "ul_sessions l = ss @ [\<lparr>s_start = ul_last l, s_end = None\<rparr>]" "\<forall>s \<in> set ss. s_end s \<noteq> None"
    using False by (auto simp: up_ok_def)
  show ?thesis
  proof (cases "round_sec b = ul_last l")
    case True
    with ok Observe_same[OF False True] show ?thesis by simp
  next
    case new: False
    let ?old = "ss @ [\<lparr>s_start = ul_last l, s_end = Some t\<rparr>]"
    have "ul_sessions (Observe enc io t b l) = lastn 199 ?old @ [\<lparr>s_start = round_sec b, s_end = None\<rparr>]"
      using Observe_reboot[OF ss(1) new, of enc io t] lastn_snoc[of maxSessions ?old]
      by (simp add: maxSessions_def)
    moreover have "\<forall>s \<in> set (lastn 199 ?old). s_end s \<noteq> None"
      using ss(2) set_lastn[of 199 ?old] by auto
    ultimately show ?thesis
      using Observe_reboot[OF ss(1) new, of enc io t] by (auto simp: up_ok_def maxSessions_def)
  qed
qed

interpretation up: invariant_ops "\<lambda>io (t, b). Observe enc io t b" up_ok for enc
  by unfold_locales (auto simp: Observe_ok)

definition observe_all :: "(up_session \<Rightarrow> string option) \<Rightarrow> (io \<times> time \<times> time) list \<Rightarrow> up_log \<Rightarrow> up_log" where
  "observe_all enc obs l = foldl (\<lambda>l (io, tb). (case tb of (t, b) \<Rightarrow> Observe enc io t b) l) l obs"

lemma observe_all_simps [simp]:
  "observe_all enc [] l = l"
  "observe_all enc ((io, t, b) # obs) l = observe_all enc obs (Observe enc io t b l)"
  by (simp_all add: observe_all_def)

lemma observe_all_ok: "up_ok l \<Longrightarrow> up_ok (observe_all enc obs l)"
  unfolding observe_all_def using up.run_inv[of l enc obs] by (simp add: split_def)

text \<open>The starts of the sessions, as a capped log of the distinct boot times.\<close>

definition starts :: "up_log \<Rightarrow> time list" where
  "starts l = map s_start (ul_sessions l)"

lemma starts_Observe:
  assumes "up_ok l"
  shows "starts (Observe enc io t b l) =
    (if starts l \<noteq> [] \<and> last (starts l) = round_sec b then starts l else lastn maxSessions (starts l @ [round_sec b]))"
proof (cases "ul_sessions l = []")
  case True
  then show ?thesis using Observe_first[OF True, of enc io t b] by (simp add: starts_def maxSessions_def lastn_def)
next
  case False
  then obtain ss where ss: "ul_sessions l = ss @ [\<lparr>s_start = ul_last l, s_end = None\<rparr>]"
    using assms by (auto simp: up_ok_def)
  show ?thesis
  proof (cases "round_sec b = ul_last l")
    case True
    with Observe_same[OF False True] ss show ?thesis by (simp add: starts_def)
  next
    case new: False
    with Observe_reboot[OF ss(1) new, of enc io t] ss show ?thesis
      by (auto simp: starts_def lastn_def simp flip: drop_map)
  qed
qed

lemma remdups_adj_snoc:
  "remdups_adj (xs @ [x]) = (if xs \<noteq> [] \<and> last xs = x then remdups_adj xs else remdups_adj xs @ [x])"
  by (induction xs rule: remdups_adj.induct) auto

lemma last_lastn: "0 < n \<Longrightarrow> xs \<noteq> [] \<Longrightarrow> last (lastn n xs) = last xs"
  by (simp add: lastn_def last_drop)

lemma lastn_eq_Nil: "0 < n \<Longrightarrow> lastn n xs = [] \<longleftrightarrow> xs = []"
  by (cases xs) (auto simp: lastn_def)

lemma starts_run:
  assumes "up_ok l" "starts l = lastn maxSessions (remdups_adj ys)"
  shows "starts (observe_all enc obs l) = lastn maxSessions (remdups_adj (ys @ map (\<lambda>(io, t, b). round_sec b) obs))"
  using assms
proof (induction obs arbitrary: l ys)
  case (Cons ob obs)
  obtain io t b where o': "ob = (io, t, b)" by (metis surj_pair)
  have m: "0 < maxSessions" by (simp add: maxSessions_def)
  have "starts (Observe enc io t b l) = lastn maxSessions (remdups_adj (ys @ [round_sec b]))"
    unfolding starts_Observe[OF Cons.prems(1)] Cons.prems(2) remdups_adj_snoc
    using m by (auto simp: lastn_eq_Nil last_lastn lastn_lastn_append)
  from Cons.IH[OF Observe_ok[OF Cons.prems(1)] this] show ?case by (simp add: o')
qed simp

section \<open>Properties\<close>

definition empty_up :: up_log where
  "empty_up = \<lparr>ul_file = None, ul_sessions = [], ul_last = zero_time\<rparr>"

lemma empty_up_ok [simp]: "up_ok empty_up" "starts empty_up = []"
  by (simp_all add: empty_up_def up_ok_def starts_def)

lemma up_ok_hd:
  "up_ok l \<Longrightarrow> ul_sessions l \<noteq> [] \<Longrightarrow> Ongoing (hd (Sessions l)) \<and> (\<forall>s \<in> set (tl (Sessions l)). \<not> Ongoing s)"
  by (auto simp: up_ok_def Sessions_def Ongoing_def)

text \<open>C38: the sessions are the distinct boot times: after any sequence of observations the log holds,
  newest first, the last 200 of the boot times (to the second) that differ from the one before, and exactly
  the newest session is ongoing.\<close>

theorem uptime_sessions_spec:
  assumes "obs \<noteq> []"
  shows "map s_start (Sessions (observe_all enc obs empty_up)) =
      rev (lastn 200 (remdups_adj (map (\<lambda>(io, t, b). round_sec b) obs))) \<and>
    Ongoing (hd (Sessions (observe_all enc obs empty_up))) \<and>
    (\<forall>s \<in> set (tl (Sessions (observe_all enc obs empty_up))). \<not> Ongoing s)"
proof -
  let ?l = "observe_all enc obs empty_up"
  have st: "starts ?l = lastn 200 (remdups_adj (map (\<lambda>(io, t, b). round_sec b) obs))"
    using starts_run[of empty_up "[]" enc obs] by (simp add: maxSessions_def)
  have "starts ?l \<noteq> []" unfolding st using assms by (simp add: lastn_eq_Nil)
  then have "ul_sessions ?l \<noteq> []" by (simp add: starts_def)
  from up_ok_hd[OF observe_all_ok[OF empty_up_ok(1)] this] st show ?thesis
    by (simp add: Sessions_def starts_def flip: rev_map)
qed

theorem uptime_sessions_spec_witness:
  "map s_start (Sessions (observe_all (\<lambda>_. None) [(ex_io, 5, 1000000000), (ex_io, 6, 1000000001), (ex_io, 7, 3000000000)] empty_up))
     = [3000000000, 1000000000]"
  using uptime_sessions_spec[of "[(ex_io, 5, 1000000000), (ex_io, 6, 1000000001), (ex_io, 7, 3000000000)]" "\<lambda>_. None"]
  by (simp add: round_sec_def lastn_def)

lemma observe_same_all:
  assumes "ul_sessions l \<noteq> []" "\<forall>(io, t, b) \<in> set obs. round_sec b = ul_last l"
  shows "observe_all enc obs l = l"
  using assms(2) Observe_same[OF assms(1)] by (induction obs) auto

text \<open>a boot is one session: however often the boot time is read, and with a measuring error below half a
  second around the true whole second, the host that booted at \<open>s1\<close> and then at \<open>s2\<close> has two sessions, and the first
  one ends when the second boot was first noticed.\<close>

theorem uptime_reboot:
  assumes "s1 mod Second = 0" "s2 mod Second = 0" "s1 \<noteq> s2" "obs1 \<noteq> []"
    and "\<forall>(io, t, b) \<in> set obs1. s1 - 500000000 \<le> b \<and> b < s1 + 500000000"
    and "\<forall>(io, t, b) \<in> set ((io2, t2, b2) # obs2). s2 - 500000000 \<le> b \<and> b < s2 + 500000000"
  shows "Sessions (observe_all enc obs1 empty_up) = [\<lparr>s_start = s1, s_end = None\<rparr>] \<and>
    Sessions (observe_all enc ((io2, t2, b2) # obs2) (observe_all enc obs1 empty_up)) =
      [\<lparr>s_start = s2, s_end = None\<rparr>, \<lparr>s_start = s1, s_end = Some t2\<rparr>]"
proof -
  obtain io1 t1 b1 r where obs1: "obs1 = (io1, t1, b1) # r" using assms(4) by (metis neq_Nil_conv surj_pair)
  have r1: "round_sec b = s1" if "s1 - 500000000 \<le> b" "b < s1 + 500000000" for b
    using that assms(1) by (intro round_sec_eqI)
  have r2: "round_sec b = s2" if "s2 - 500000000 \<le> b" "b < s2 + 500000000" for b
    using that assms(2) by (intro round_sec_eqI)
  let ?l1 = "Observe enc io1 t1 b1 empty_up"
  have b1: "round_sec b1 = s1" using assms(5) r1 by (simp add: obs1)
  have l1: "ul_sessions ?l1 = [\<lparr>s_start = s1, s_end = None\<rparr>]" "ul_last ?l1 = s1"
    using Observe_first[of empty_up enc io1 t1 b1] b1 by (simp_all add: empty_up_def)
  have run1: "observe_all enc obs1 empty_up = ?l1"
    using observe_same_all[of ?l1 r enc] l1 assms(5) r1 by (fastforce simp: obs1)
  let ?l2 = "Observe enc io2 t2 b2 ?l1"
  have b2: "round_sec b2 = s2" using assms(6) r2 by simp
  have l2: "ul_sessions ?l2 = [\<lparr>s_start = s1, s_end = Some t2\<rparr>, \<lparr>s_start = s2, s_end = None\<rparr>]" "ul_last ?l2 = s2"
    using Observe_reboot[of ?l1 "[]" "\<lparr>s_start = s1, s_end = None\<rparr>" b2 enc io2 t2] l1 b2 assms(3)
    by (simp_all add: maxSessions_def)
  have "observe_all enc obs2 ?l2 = ?l2"
    using observe_same_all[of ?l2 obs2 enc] l2 assms(6) r2 by fastforce
  then show ?thesis by (simp add: run1 Sessions_def l1 l2)
qed

theorem uptime_reboot_witness:
  "Sessions (observe_all (\<lambda>_. None) [(ex_io, 9, 7000000000)] (observe_all (\<lambda>_. None) [(ex_io, 5, 1400000000)] empty_up)) =
     [\<lparr>s_start = 7000000000, s_end = None\<rparr>, \<lparr>s_start = 1000000000, s_end = Some 9\<rparr>]"
  using uptime_reboot[of 1000000000 7000000000 "[(ex_io, 5, 1400000000)]" ex_io 9 7000000000 "[]" "\<lambda>_. None"] by simp

text \<open>a boot time that falls near the middle of a second makes reboots out of jitter: readings two
  nanoseconds apart, around half a second, open a new session at each of them.\<close>

theorem uptime_jitter_sessions:
  "length (Sessions (observe_all (\<lambda>_. None)
     [(ex_io, 1, 499999999), (ex_io, 2, 500000001), (ex_io, 3, 499999999), (ex_io, 4, 500000001)] empty_up)) = 4"
  by (simp add: Observe_def up_persist_def empty_up_def round_sec_def Let_def Sessions_def maxSessions_def)

section \<open>Restarting\<close>

definition up_codec_ok :: "(up_session \<Rightarrow> string option) \<Rightarrow> (string \<Rightarrow> up_session option) \<Rightarrow> up_session \<Rightarrow> bool" where
  "up_codec_ok enc dec s \<longleftrightarrow> (\<exists>b. enc s = Some b \<and> dec b = Some s \<and> newline \<notin> set b \<and>
     CHR 0x0D \<notin> set b \<and> length b < default_scan)"

lemma up_load_encoded:
  assumes "\<forall>e \<in> set es. up_codec_ok enc dec e"
  shows "load_lines default_scan dec (Some (encode_lines enc es)) = es"
proof -
  have c: "codec_ok enc dec e" if "e \<in> set es" for e
    using assms that by (fastforce simp: up_codec_ok_def codec_ok_def default_scan_def)
  have l: "\<forall>l \<in> set (map (\<lambda>e. the (enc e)) es). newline \<notin> set l \<and> CHR 0x0D \<notin> set l \<and> length l < default_scan"
    using assms by (auto simp: up_codec_ok_def)
  have "scan_lines default_scan (encode_lines enc es) = map (\<lambda>e. the (enc e)) es"
    using scan_lines_concat[OF l] encode_lines_ok[of es enc dec] c by simp
  moreover have "List.map_filter dec (map (\<lambda>e. the (enc e)) es) = es"
    using assms by (induction es) (auto simp: up_codec_ok_def)
  ultimately show ?thesis by (simp add: load_lines_def)
qed

text \<open>a restart of the monitor is not a reboot: when the file was written at the last change, loading it
  gives the same log, and observing the same boot time again opens no session.\<close>

theorem uptime_restart:
  assumes "up_ok l" "round_sec b \<noteq> ul_last l \<or> ul_sessions l = []" "io_fine io"
    and "l' = Observe enc io t b l" "\<forall>s \<in> set (ul_sessions l'). up_codec_ok enc dec s"
    and "round_sec b' = round_sec b"
  shows "NewLog dec (ul_file l') = l' \<and> Observe enc io' t' b' (NewLog dec (ul_file l')) = l'"
proof -
  have ok: "up_ok l'" using Observe_ok[OF assms(1)] assms(4) by simp
  have ne: "ul_sessions l' \<noteq> []" and lb: "ul_last l' = round_sec b"
    using assms(2) unfolding assms(4) by (auto simp: Observe_def up_persist_def Let_def maxSessions_def)
  have f: "ul_file l' = Some (encode_lines enc (ul_sessions l'))"
    using assms(2,3) unfolding assms(4)
    by (auto simp: Observe_def up_persist_def persist_file_def io_fine_def Let_def)
  from ok ne have "s_start (last (ul_sessions l')) = ul_last l'" by (auto simp: up_ok_def)
  then have n: "NewLog dec (ul_file l') = l'"
    using up_load_encoded[OF assms(5)] ne by (simp add: NewLog_def up_load_def f Let_def)
  with Observe_same[OF ne] lb assms(6) show ?thesis by simp
qed

definition ex_up_enc :: "up_session \<Rightarrow> string option" where "ex_up_enc s = Some ''x''"
definition ex_up_dec :: "string \<Rightarrow> up_session option" where
  "ex_up_dec b = Some \<lparr>s_start = 1000000000, s_end = None\<rparr>"

theorem uptime_restart_witness:
  "NewLog ex_up_dec (ul_file (Observe ex_up_enc ex_io 5 1000000003 empty_up)) = Observe ex_up_enc ex_io 5 1000000003 empty_up"
proof -
  have c: "\<forall>s \<in> set (ul_sessions (Observe ex_up_enc ex_io 5 1000000003 empty_up)). up_codec_ok ex_up_enc ex_up_dec s"
    by (simp add: Observe_def empty_up_def up_persist_def round_sec_def up_codec_ok_def ex_up_enc_def ex_up_dec_def default_scan_def)
  have "round_sec 1000000003 \<noteq> ul_last empty_up \<or> ul_sessions empty_up = []" "io_fine ex_io"
    by (simp_all add: empty_up_def io_fine_def ex_io_def)
  from uptime_restart[OF empty_up_ok(1) this refl c refl] show ?thesis by blast
qed

end
