(* ===== verification/Metrics.thy ===== *)
theory Metrics
  imports GoTime GoStrings "HOL-Library.AList"
begin

text \<open>
  The snapshot types of package \<open>domain\<close> (internal/domain/metrics.go), as the collectors fill and the
  alarms and the history read them. A Go map is an association list with distinct keys, in the order
  a \<open>range\<close> over it happens to take: properties are stated for every such order.
\<close>

record cpu =
  usage_pct :: f64
  user_pct :: f64
  system_pct :: f64
  iowait_pct :: f64
  steal_pct :: f64
  idle_pct :: f64
  per_core :: "f64 list"

record ram =
  ram_total_kb :: u64
  ram_used_kb :: u64
  ram_available_kb :: u64
  ram_free_kb :: u64
  ram_cached_kb :: u64
  ram_buffers_kb :: u64
  ram_used_pct :: f64
  ram_available_pct :: f64
  ram_free_pct :: f64
  ram_cache_pct :: f64

record swap =
  swap_total_kb :: u64
  swap_used_kb :: u64
  swap_used_pct :: f64
  swap_present :: bool

record load =
  load1 :: f64
  load5 :: f64
  load15 :: f64
  normalized_pct :: f64

record disk =
  d_mount :: string
  d_device :: string
  d_fs_type :: string
  d_total :: u64
  d_used :: u64
  d_avail :: u64
  d_used_pct :: f64

record disk_io =
  io_device :: string
  read_bps :: f64
  write_bps :: f64
  read_iops :: f64
  write_iops :: f64
  latency_ms :: f64

record net_iface =
  if_name :: string
  rx_bps :: f64
  tx_bps :: f64
  packets_ps :: f64
  errors_ps :: f64
  drops_ps :: f64

record temp =
  zone :: string
  label :: string
  celsius :: f64
  is_primary_cpu :: bool

record sockets =
  tcp_in_use :: int
  tcp_orphan :: int
  tcp_time_wait :: int
  udp_in_use :: int
  total_used :: int

record process_info =
  p_pid :: int
  p_name :: string
  cpu_pct :: f64

record metrics =
  m_time :: time
  m_cpu :: cpu
  m_ram :: ram
  m_swap :: swap
  m_load :: load
  m_disks :: "disk list"
  m_disk_io :: "disk_io list"
  m_net :: "net_iface list"
  m_temp :: "temp list"
  m_sockets :: sockets
  m_processes :: "process_info list"

section \<open>Zero values\<close>

definition zero_cpu :: cpu where
  "zero_cpu = \<lparr>usage_pct = 0, user_pct = 0, system_pct = 0, iowait_pct = 0, steal_pct = 0, idle_pct = 0, per_core = []\<rparr>"

definition zero_ram :: ram where
  "zero_ram = \<lparr>ram_total_kb = 0, ram_used_kb = 0, ram_available_kb = 0, ram_free_kb = 0, ram_cached_kb = 0,
     ram_buffers_kb = 0, ram_used_pct = 0, ram_available_pct = 0, ram_free_pct = 0, ram_cache_pct = 0\<rparr>"

definition zero_swap :: swap where
  "zero_swap = \<lparr>swap_total_kb = 0, swap_used_kb = 0, swap_used_pct = 0, swap_present = False\<rparr>"

definition zero_load :: load where
  "zero_load = \<lparr>load1 = 0, load5 = 0, load15 = 0, normalized_pct = 0\<rparr>"

definition zero_sockets :: sockets where
  "zero_sockets = \<lparr>tcp_in_use = 0, tcp_orphan = 0, tcp_time_wait = 0, udp_in_use = 0, total_used = 0\<rparr>"

definition zero_metrics :: metrics where
  "zero_metrics = \<lparr>m_time = -62135596800000000000, m_cpu = zero_cpu, m_ram = zero_ram, m_swap = zero_swap, m_load = zero_load,
     m_disks = [], m_disk_io = [], m_net = [], m_temp = [], m_sockets = zero_sockets, m_processes = []\<rparr>"

end
