(* ===== verification/Sampling.thy ===== *)
theory Sampling
  imports ProcText Metrics
begin

text \<open>
  Processor, memory and load (internal/collector/cpu.go, memory.go and the pure part of system.go): the
  parsers of /proc/stat, /proc/meminfo and /proc/loadavg and the percentages computed from them. A file
  is an optional string, \<open>None\<close> when reading it fails. Counters are 64-bit words that wrap.
\<close>

section \<open>Processor time\<close>

record cpu_sample =
  c_user :: u64
  c_nice :: u64
  c_system :: u64
  c_idle :: u64
  c_iowait :: u64
  c_irq :: u64
  c_softirq :: u64
  c_steal :: u64

definition zero_cpu_sample :: cpu_sample where
  "zero_cpu_sample = \<lparr>c_user = 0, c_nice = 0, c_system = 0, c_idle = 0, c_iowait = 0, c_irq = 0, c_softirq = 0, c_steal = 0\<rparr>"

definition cpu_total :: "cpu_sample \<Rightarrow> u64" where
  "cpu_total s = c_user s + c_nice s + c_system s + c_idle s + c_iowait s + c_irq s + c_softirq s + c_steal s"

definition get_uint :: "string list \<Rightarrow> nat \<Rightarrow> u64" where
  "get_uint f i = (if i \<ge> length f then 0 else uint_of (f ! i))"

definition parseCPUFields :: "string list \<Rightarrow> cpu_sample" where
  "parseCPUFields f =
     \<lparr>c_user = get_uint f 0, c_nice = get_uint f 1, c_system = get_uint f 2, c_idle = get_uint f 3,
      c_iowait = get_uint f 4, c_irq = get_uint f 5, c_softirq = get_uint f 6, c_steal = get_uint f 7\<rparr>"

text \<open>One line of /proc/stat, and the whole file: the last \<open>cpu\<close> line is the aggregate.\<close>

definition cpu_step :: "string \<Rightarrow> cpu_sample \<times> cpu_sample list \<times> bool \<Rightarrow> cpu_sample \<times> cpu_sample list \<times> bool" where
  "cpu_step l = (\<lambda>(aggregate, perCore, ok).
     let fields = Fields l in
     if length fields < 8 \<or> \<not> has_prefix (hd fields) ''cpu'' then (aggregate, perCore, ok)
     else let s = parseCPUFields (tl fields) in
       if hd fields = ''cpu'' then (s, perCore, True) else (aggregate, perCore @ [s], ok))"

definition readCPUSamples :: "string option \<Rightarrow> cpu_sample \<times> cpu_sample list \<times> bool" where
  "readCPUSamples proc_stat =
     (case proc_stat of
        None \<Rightarrow> (zero_cpu_sample, [], False)
      | Some data \<Rightarrow> fold cpu_step (split_on newline data) (zero_cpu_sample, [], False))"

definition cpuDeltaPct :: "cpu_sample \<Rightarrow> cpu_sample \<Rightarrow> cpu" where
  "cpuDeltaPct prev cur =
     (let dTotal = f_of_u64 (cpu_total cur - cpu_total prev) in
      if dTotal \<le> 0 then zero_cpu
      else let dUser = f_of_u64 (c_user cur - c_user prev);
               dSystem = f_of_u64 (c_system cur - c_system prev);
               dIOWait = f_of_u64 (c_iowait cur - c_iowait prev);
               dSteal = f_of_u64 (c_steal cur - c_steal prev);
               dIdle = f_of_u64 (c_idle cur - c_idle prev)
           in \<lparr>usage_pct = Fin 100 * (1 - (dIdle + dIOWait) / dTotal), user_pct = Fin 100 * dUser / dTotal,
               system_pct = Fin 100 * dSystem / dTotal, iowait_pct = Fin 100 * dIOWait / dTotal,
               steal_pct = Fin 100 * dSteal / dTotal, idle_pct = Fin 100 * dIdle / dTotal, per_core = []\<rparr>)"

definition perCoreDeltaPct :: "cpu_sample list \<Rightarrow> cpu_sample list \<Rightarrow> f64 list" where
  "perCoreDeltaPct prev cur =
     (let n = (if length prev < length cur then length prev else length cur)
      in map (\<lambda>i. usage_pct (cpuDeltaPct (prev ! i) (cur ! i))) [0..<n])"

definition readCoreCount :: "string option \<Rightarrow> int" where
  "readCoreCount proc_stat =
     (let (_, perCore, ok) = readCPUSamples proc_stat
      in if \<not> ok \<or> length perCore = 0 then 1 else int (length perCore))"

definition readLoad :: "string option \<Rightarrow> int \<Rightarrow> load" where
  "readLoad loadavg cores =
     (case loadavg of
        None \<Rightarrow> zero_load
      | Some data \<Rightarrow>
          let fields = Fields data in
          if length fields < 3 then zero_load
          else let l1 = float_of (fields ! 0); l5 = float_of (fields ! 1); l15 = float_of (fields ! 2);
                   ld = \<lparr>load1 = l1, load5 = l5, load15 = l15, normalized_pct = 0\<rparr>
               in if cores > 0 then ld\<lparr>normalized_pct := Fin 100 * l1 / f_of_int cores\<rparr> else ld)"

section \<open>Memory\<close>

definition trim_suffix :: "string \<Rightarrow> string \<Rightarrow> string" where
  "trim_suffix s p = (if length p \<le> length s \<and> drop (length s - length p) s = p then take (length s - length p) s else s)"

text \<open>The map the file is read into; an absent key reads as 0.\<close>

definition mem_step :: "string \<Rightarrow> (string \<Rightarrow> u64) \<Rightarrow> string \<Rightarrow> u64" where
  "mem_step l vals =
     (let fields = Fields l in
      if length fields < 2 then vals else vals(trim_suffix (fields ! 0) '':'' := uint_of (fields ! 1)))"

definition mem_vals :: "string \<Rightarrow> string \<Rightarrow> u64" where
  "mem_vals data = fold mem_step (split_on newline data) (\<lambda>_. 0)"

definition mem_cache :: "(string \<Rightarrow> u64) \<Rightarrow> u64" where
  "mem_cache vals =
     (let cached = vals ''Cached''; sreclaimable = vals ''SReclaimable''; shmem = vals ''Shmem''
      in if cached + sreclaimable > shmem then cached + sreclaimable - shmem else 0)"

definition mem_available :: "(string \<Rightarrow> u64) \<Rightarrow> u64" where
  "mem_available vals =
     (let total = vals ''MemTotal''; available0 = vals ''MemAvailable'';
          available = (if available0 = 0 then vals ''MemFree'' + vals ''Buffers'' + mem_cache vals else available0)
      in if available > total then total else available)"

definition mem_ram :: "(string \<Rightarrow> u64) \<Rightarrow> ram" where
  "mem_ram vals =
     (let total = vals ''MemTotal''; free = vals ''MemFree''; buffers = vals ''Buffers''; cache = mem_cache vals;
          available = mem_available vals; used = total - available;
          rm = \<lparr>ram_total_kb = total, ram_used_kb = used, ram_available_kb = available, ram_free_kb = free,
                 ram_cached_kb = cache, ram_buffers_kb = buffers, ram_used_pct = 0, ram_available_pct = 0,
                 ram_free_pct = 0, ram_cache_pct = 0\<rparr>
      in if total > 0
         then rm\<lparr>ram_used_pct := Fin 100 * f_of_u64 used / f_of_u64 total,
                 ram_available_pct := Fin 100 * f_of_u64 available / f_of_u64 total,
                 ram_free_pct := Fin 100 * f_of_u64 free / f_of_u64 total,
                 ram_cache_pct := Fin 100 * f_of_u64 cache / f_of_u64 total\<rparr>
         else rm)"

definition mem_swap :: "(string \<Rightarrow> u64) \<Rightarrow> swap" where
  "mem_swap vals =
     (let swapTotal = vals ''SwapTotal''; swapFree = vals ''SwapFree''; swapUsed = swapTotal - swapFree;
          sw = \<lparr>swap_total_kb = swapTotal, swap_used_kb = swapUsed, swap_used_pct = 0, swap_present = swapTotal > 0\<rparr>
      in if swapTotal > 0 then sw\<lparr>swap_used_pct := Fin 100 * f_of_u64 swapUsed / f_of_u64 swapTotal\<rparr> else sw)"

definition readMemInfo :: "string option \<Rightarrow> ram \<times> swap" where
  "readMemInfo meminfo =
     (case meminfo of
        None \<Rightarrow> (zero_ram, zero_swap)
      | Some data \<Rightarrow> (mem_ram (mem_vals data), mem_swap (mem_vals data)))"

section \<open>Processor percentages\<close>

text \<open>How far one counter moved between two samples, wrap-around included, and all of them together.\<close>

definition ticks :: "(cpu_sample \<Rightarrow> u64) \<Rightarrow> cpu_sample \<Rightarrow> cpu_sample \<Rightarrow> nat" where
  "ticks f prev cur = unat (f cur - f prev)"

definition all_ticks :: "cpu_sample \<Rightarrow> cpu_sample \<Rightarrow> nat" where
  "all_ticks prev cur = ticks c_user prev cur + ticks c_nice prev cur + ticks c_system prev cur + ticks c_idle prev cur
     + ticks c_iowait prev cur + ticks c_irq prev cur + ticks c_softirq prev cur + ticks c_steal prev cur"

lemma total_ticks: "all_ticks prev cur < 2 ^ 64 \<Longrightarrow> unat (cpu_total cur - cpu_total prev) = all_ticks prev cur"
proof -
  assume lt: "all_ticks prev cur < 2 ^ 64"
  have "cpu_total cur - cpu_total prev = of_nat (all_ticks prev cur)"
    by (simp add: cpu_total_def all_ticks_def ticks_def)
  with lt show ?thesis by (simp add: unat_of_nat take_bit_nat_eq_self)
qed

lemma unit_quotient:
  assumes "a \<le> b" "0 < b"
  shows "\<exists>q. Fin (of_nat a) / Fin (of_nat b) = Fin q \<and> 0 \<le> q \<and> q \<le> 1"
proof -
  have le: "(of_nat a :: rat) / of_nat b \<le> of_int 1" using assms by (simp add: divide_le_eq)
  then have "\<bar>of_nat a / of_nat b :: rat\<bar> \<le> 2 ^ 200"
    using power_increasing[of 0 200 "2 :: rat"] by simp
  then have "Fin (of_nat a) / Fin (of_nat b) = Fin (rnd (of_nat a / of_nat b))"
    using assms(2) by (simp add: mkf_small)
  moreover have "rnd (of_nat a / of_nat b) \<le> 1" using rnd_le_int[OF _ le] by simp
  ultimately show ?thesis using rnd_nonneg[of "of_nat a / of_nat b"] by simp
qed

lemma one_minus_unit: "0 \<le> q \<Longrightarrow> q \<le> 1 \<Longrightarrow> \<exists>u. 1 - Fin q = Fin u \<and> 0 \<le> u \<and> u \<le> 1"
proof -
  assume q: "0 \<le> q" "q \<le> 1"
  then have le: "1 - q \<le> of_int 1" "\<bar>1 - q\<bar> \<le> 2 ^ 200"
    using power_increasing[of 0 200 "2 :: rat"] by simp_all
  then have "1 - Fin q = Fin (rnd (1 - q))" using mkf_small[of "1 - q"] by simp
  moreover have "rnd (1 - q) \<le> 1" using rnd_le_int[OF _ le(1)] by simp
  ultimately show ?thesis using rnd_nonneg[of "1 - q"] q by simp
qed

lemma hundred_unit: "0 \<le> u \<Longrightarrow> u \<le> 1 \<Longrightarrow> \<exists>p. Fin 100 * Fin u = Fin p \<and> 0 \<le> p \<and> p \<le> 100"
proof -
  assume u: "0 \<le> u" "u \<le> 1"
  then have le: "100 * u \<le> of_int 100" by simp
  have "(100 :: rat) \<le> 2 ^ 200" by simp
  then have "\<bar>100 * u\<bar> \<le> 2 ^ 200" using u by (simp add: abs_of_nonneg)
  then have "Fin 100 * Fin u = Fin (rnd (100 * u))" by (simp add: mkf_small)
  moreover have "rnd (100 * u) \<le> 100" using rnd_le_int[OF _ le] by simp
  ultimately show ?thesis using rnd_nonneg[of "100 * u"] u by simp
qed

text \<open>The usage as the code computes it, three roundings, and how far it is from the share of the busy ticks.\<close>

definition usage_of :: "nat \<Rightarrow> nat \<Rightarrow> rat" where
  "usage_of i n = rnd (100 * rnd (1 - rnd (of_nat i / of_nat n)))"

lemma usage_float:
  assumes "i + w \<le> t" "0 < t" "t < 2 ^ 53"
  shows "Fin 100 * (1 - (Fin (of_nat i) + Fin (of_nat w)) / Fin (of_nat t)) = Fin (usage_of (i + w) t)"
    and "0 \<le> usage_of (i + w) t \<and> usage_of (i + w) t \<le> 100"
proof -
  have s: "Fin (of_nat i) + Fin (of_nat w) = Fin (of_nat (i + w))"
    using mkf_of_nat[of "i + w"] assms by simp
  define y where "y = rnd (of_nat (i + w) / of_nat t)"
  have y: "Fin (of_nat (i + w)) / Fin (of_nat t) = Fin y" "0 \<le> y" "y \<le> 1"
    using unit_quotient[OF assms(1,2)] assms(2) by (auto simp: y_def mkf_def Let_def split: if_splits)
  define z where "z = rnd (1 - y)"
  have z: "1 - Fin y = Fin z" "0 \<le> z" "z \<le> 1"
    using one_minus_unit[OF y(2,3)] by (auto simp: z_def mkf_def Let_def split: if_splits)
  have "Fin 100 * Fin z = Fin (rnd (100 * z))" "0 \<le> rnd (100 * z)" "rnd (100 * z) \<le> 100"
    using hundred_unit[OF z(2,3)] by (auto simp: mkf_def Let_def split: if_splits)
  then show "Fin 100 * (1 - (Fin (of_nat i) + Fin (of_nat w)) / Fin (of_nat t)) = Fin (usage_of (i + w) t)"
    "0 \<le> usage_of (i + w) t \<and> usage_of (i + w) t \<le> 100"
    unfolding s y(1) z(1) usage_of_def y_def[symmetric] z_def[symmetric] by simp_all
qed

lemma rnd_error_unit: "0 \<le> x \<Longrightarrow> x \<le> 1 \<Longrightarrow> \<bar>rnd x - x\<bar> \<le> 1 / 2 ^ 53"
  using rnd_error_abs[of x 0] by (simp add: power_int_def power_divide)

lemma usage_near:
  assumes "i \<le> t" "0 < t"
  shows "\<bar>usage_of i t - 100 * of_nat (t - i) / of_nat t\<bar> \<le> 1 / 2 ^ 44"
proof -
  define x y z :: rat where "x = of_nat i / of_nat t" and "y = rnd x" and "z = rnd (1 - y)"
  define d :: rat where "d = 1 / 2 ^ 53"
  have x: "0 \<le> x" "x \<le> 1" using assms by (simp_all add: x_def)
  have y: "0 \<le> y" "y \<le> 1" using rnd_nonneg[OF x(1)] rnd_le_int[of 1 x] x(2) by (simp_all add: y_def)
  have z: "0 \<le> z" "z \<le> 1" using rnd_nonneg[of "1 - y"] rnd_le_int[of 1 "1 - y"] y by (simp_all add: z_def)
  have e: "\<bar>y - x\<bar> \<le> d" "\<bar>z - (1 - y)\<bar> \<le> d"
    using rnd_error_unit[OF x] rnd_error_unit[of "1 - y"] y by (simp_all add: y_def z_def d_def)
  have "\<bar>100 * z\<bar> \<le> 2 powi 7" using z by (simp add: power_int_def)
  then have "\<bar>rnd (100 * z) - 100 * z\<bar> \<le> 2 powi (-46)" using rnd_error_abs[of "100 * z" 7] by simp
  also have "(2 :: rat) powi (-46) = 128 * d" by (simp add: power_int_def power_divide d_def)
  finally have r: "\<bar>rnd (100 * z) - 100 * z\<bar> \<le> 128 * d" .
  have "usage_of i t - 100 * (1 - x) = (rnd (100 * z) - 100 * z) + (100 * (z - (1 - y)) - 100 * (y - x))"
    by (simp add: usage_of_def x_def y_def z_def algebra_simps)
  also have "\<bar>\<dots>\<bar> \<le> \<bar>rnd (100 * z) - 100 * z\<bar> + (100 * \<bar>z - (1 - y)\<bar> + 100 * \<bar>y - x\<bar>)"
    by (rule order.trans[OF abs_triangle_ineq]) (intro add_left_mono order.trans[OF abs_triangle_ineq4], simp only: abs_mult abs_numeral order.refl)
  also have "\<dots> \<le> 128 * d + (100 * d + 100 * d)" using r e by (intro add_mono mult_left_mono) auto
  also have "\<dots> \<le> 512 * d" by (simp add: d_def)
  finally have "\<bar>usage_of i t - 100 * (1 - x)\<bar> \<le> 512 * d" .
  moreover have "512 * d = 1 / 2 ^ 44" by (simp add: d_def)
  moreover have "100 * (1 - x) = 100 * of_nat (t - i) / of_nat t" using assms by (simp add: x_def of_nat_diff field_simps)
  ultimately show ?thesis by simp
qed

lemma cpuDeltaPct_value:
  assumes "100 * all_ticks prev cur < 2 ^ 53" "all_ticks prev cur > 0"
  shows "cpuDeltaPct prev cur =
    \<lparr>usage_pct = Fin (usage_of (ticks c_idle prev cur + ticks c_iowait prev cur) (all_ticks prev cur)),
     user_pct = Fin (pct (ticks c_user prev cur) (all_ticks prev cur)), system_pct = Fin (pct (ticks c_system prev cur) (all_ticks prev cur)),
     iowait_pct = Fin (pct (ticks c_iowait prev cur) (all_ticks prev cur)), steal_pct = Fin (pct (ticks c_steal prev cur) (all_ticks prev cur)),
     idle_pct = Fin (pct (ticks c_idle prev cur) (all_ticks prev cur)), per_core = []\<rparr>"
proof -
  let ?D = "all_ticks prev cur"
  have lt1: "?D < 2 ^ 53" using assms by linarith
  have lt: "?D < 2 ^ 53" "?D < 2 ^ 64" using lt1 by (simp_all add: order.strict_trans[OF lt1])
  have t: "unat (cpu_total cur - cpu_total prev) = ?D" by (rule total_ticks[OF lt(2)])
  have ft: "f_of_u64 (cpu_total cur - cpu_total prev) = Fin (of_nat ?D)"
    using f_of_u64_exact[of "cpu_total cur - cpu_total prev"] lt(1) t by simp
  have le: "ticks c_user prev cur \<le> ?D" "ticks c_system prev cur \<le> ?D" "ticks c_iowait prev cur \<le> ?D"
    "ticks c_steal prev cur \<le> ?D" "ticks c_idle prev cur \<le> ?D" "ticks c_idle prev cur + ticks c_iowait prev cur \<le> ?D"
    by (simp_all add: all_ticks_def)
  have fl: "f_of_u64 (f cur - f prev) = Fin (of_nat (ticks f prev cur))" if "ticks f prev cur \<le> ?D" for f
    using f_of_u64_exact[of "f cur - f prev"] lt(1) that by (simp add: ticks_def)
  have p: "Fin 100 * Fin (of_nat (ticks f prev cur)) / Fin (of_nat ?D) = Fin (pct (ticks f prev cur) ?D)"
    if "ticks f prev cur \<le> ?D" for f by (rule pct_float[OF assms(2) that assms(1)])
  have nz: "\<not> Fin (of_nat ?D) \<le> 0" using assms(2) by simp
  show ?thesis
    unfolding cpuDeltaPct_def Let_def ft fl[OF le(1)] fl[OF le(2)] fl[OF le(3)] fl[OF le(4)] fl[OF le(5)]
      p[OF le(1)] p[OF le(2)] p[OF le(3)] p[OF le(4)] p[OF le(5)] usage_float(1)[OF le(6) assms(2) lt(1)]
    using nz by (simp only: if_False)
qed

lemma cpuDeltaPct_idle: "all_ticks prev cur = 0 \<Longrightarrow> cpuDeltaPct prev cur = zero_cpu"
proof -
  assume "all_ticks prev cur = 0"
  then have "unat (cpu_total cur - cpu_total prev) = 0" using total_ticks[of prev cur] by simp
  then have "f_of_u64 (cpu_total cur - cpu_total prev) = Fin 0"
    using f_of_u64_exact[of "cpu_total cur - cpu_total prev"] by simp
  then show ?thesis by (simp add: cpuDeltaPct_def)
qed

text \<open>C25: processor percentages: provided the differences of the eight counters, taken modulo \<open>2^64\<close>, sum to less than
  \<open>2^53 / 100\<close> ticks (which allows a counter to wrap around, but not one to step back, as iowait may: see
  \<open>iowait_back_wraps\<close>), each share is its correctly rounded percentage of all ticks, between 0 and 100; the
  usage is exactly the rounded value of its formula over idle and iowait, between 0 and 100 too and
  within \<open>2^-44\<close> of the percentage of the other ticks. With no tick at all everything is zero.\<close>

theorem cpuDeltaPct_spec:
  assumes "100 * all_ticks prev cur < 2 ^ 53" "all = all_ticks prev cur"
    and "idle = ticks c_idle prev cur + ticks c_iowait prev cur"
  shows "if all = 0 then cpuDeltaPct prev cur = zero_cpu
     else user_pct (cpuDeltaPct prev cur) = Fin (pct (ticks c_user prev cur) all)
        \<and> system_pct (cpuDeltaPct prev cur) = Fin (pct (ticks c_system prev cur) all)
        \<and> iowait_pct (cpuDeltaPct prev cur) = Fin (pct (ticks c_iowait prev cur) all)
        \<and> steal_pct (cpuDeltaPct prev cur) = Fin (pct (ticks c_steal prev cur) all)
        \<and> idle_pct (cpuDeltaPct prev cur) = Fin (pct (ticks c_idle prev cur) all)
        \<and> (\<forall>f \<in> {c_user, c_system, c_iowait, c_steal, c_idle}. 0 \<le> pct (ticks f prev cur) all \<and> pct (ticks f prev cur) all \<le> 100)
        \<and> usage_pct (cpuDeltaPct prev cur) = Fin (rnd (100 * rnd (1 - rnd (of_nat idle / of_nat all))))
        \<and> (\<exists>u. usage_pct (cpuDeltaPct prev cur) = Fin u \<and> 0 \<le> u \<and> u \<le> 100
             \<and> \<bar>u - 100 * of_nat (all - idle) / of_nat all\<bar> \<le> 1 / 2 ^ 44)"
proof (cases "all = 0")
  case True
  with cpuDeltaPct_idle show ?thesis by (simp add: assms(2))
next
  case False
  then have pos: "0 < all_ticks prev cur" by (simp add: assms(2))
  have lt: "all_ticks prev cur < 2 ^ 53" using assms(1) by linarith
  have le: "idle \<le> all_ticks prev cur" by (simp add: assms(3) all_ticks_def)
  have "\<forall>f \<in> {c_user, c_system, c_iowait, c_steal, c_idle}. ticks f prev cur \<le> all_ticks prev cur" by (auto simp: all_ticks_def)
  then have "\<forall>f \<in> {c_user, c_system, c_iowait, c_steal, c_idle}.
      0 \<le> pct (ticks f prev cur) all \<and> pct (ticks f prev cur) all \<le> 100"
    using pct_bounds[OF _ pos] by (auto simp: assms(2))
  moreover note usage_float(2)[of "ticks c_idle prev cur" "ticks c_iowait prev cur", OF le[unfolded assms(3)] pos lt]
    usage_near[OF le pos]
  ultimately show ?thesis
    unfolding cpuDeltaPct_value[OF assms(1) pos] cpu.simps assms(2)[symmetric] assms(3)[symmetric]
    using False by (simp add: usage_of_def)
qed

definition ex_sample :: "u64 \<Rightarrow> u64 \<Rightarrow> cpu_sample" where
  "ex_sample u i = zero_cpu_sample\<lparr>c_user := u, c_idle := i\<rparr>"

text \<open>Of 100 ticks 30 were spent in user mode, 20 waiting for a device and 50 idle, while the user counter wrapped.\<close>

theorem cpuDeltaPct_spec_witness:
  "user_pct (cpuDeltaPct ((ex_sample (- 10) 500)\<lparr>c_iowait := 7\<rparr>) ((ex_sample 20 550)\<lparr>c_iowait := 27\<rparr>)) = Fin 30 \<and>
   (\<exists>u. usage_pct (cpuDeltaPct ((ex_sample (- 10) 500)\<lparr>c_iowait := 7\<rparr>) ((ex_sample 20 550)\<lparr>c_iowait := 27\<rparr>)) = Fin u \<and> \<bar>u - 30\<bar> \<le> 1 / 2 ^ 44)"
proof -
  let ?p = "(ex_sample (- 10) 500)\<lparr>c_iowait := 7\<rparr>" and ?c = "(ex_sample 20 550)\<lparr>c_iowait := 27\<rparr>"
  have t: "ticks c_user ?p ?c = 30" "ticks c_idle ?p ?c = 50" "ticks c_iowait ?p ?c = 20" "all_ticks ?p ?c = 100"
    by (simp_all add: all_ticks_def ticks_def ex_sample_def zero_cpu_sample_def)
  have "pct 30 100 = 30" using rnd_int[of 30] by (simp add: pct_def)
  have ne: "(100 :: nat) \<noteq> 0" by simp
  have h: "100 * all_ticks ?p ?c < 2 ^ 53" "100 = all_ticks ?p ?c" "70 = ticks c_idle ?p ?c + ticks c_iowait ?p ?c" by (simp_all add: t)
  note r = cpuDeltaPct_spec[OF h, unfolded if_not_P[OF ne]]
  have "user_pct (cpuDeltaPct ?p ?c) = Fin (pct (ticks c_user ?p ?c) 100)" using r by (rule conjunct1)
  then have "user_pct (cpuDeltaPct ?p ?c) = Fin 30" by (simp only: t \<open>pct 30 100 = 30\<close>)
  moreover obtain u where u: "usage_pct (cpuDeltaPct ?p ?c) = Fin u" "\<bar>u - 100 * of_nat (100 - 70) / of_nat 100\<bar> \<le> 1 / 2 ^ 44"
    using r by blast
  from u(2) have "\<bar>u - 30\<bar> \<le> 1 / 2 ^ 44" by simp
  with u(1) have "\<exists>u. usage_pct (cpuDeltaPct ?p ?c) = Fin u \<and> \<bar>u - 30\<bar> \<le> 1 / 2 ^ 44" by blast
  ultimately show ?thesis by (rule conjI)
qed

section \<open>/proc/stat as the kernel prints it\<close>

definition counters :: "cpu_sample \<Rightarrow> u64 list" where
  "counters s = [c_user s, c_nice s, c_system s, c_idle s, c_iowait s, c_irq s, c_softirq s, c_steal s]"

definition num :: "u64 \<Rightarrow> string" where
  "num w = nat_digits (unat w)"

lemma num_word [simp]: "is_word (num w)"
  by (simp add: num_def)

lemma uint_of_num [simp]: "uint_of (num w) = w"
  by (simp add: num_def)

definition cpu_text :: "string \<Rightarrow> string \<Rightarrow> u64 list \<Rightarrow> cpu_sample \<Rightarrow> string" where
  "cpu_text name pad guest s =
     layout (([], name) # (pad, num (c_user s)) # map (\<lambda>w. ('' '', num w)) (tl (counters s) @ guest))"

lemma Fields_cpu_text:
  assumes "is_word name" "list_all blank pad" "pad \<noteq> []"
  shows "Fields (cpu_text name pad guest s) = name # map num (counters s @ guest)"
proof -
  have "layout_ok (([], name) # (pad, num (c_user s)) # map (\<lambda>w. ('' '', num w)) (tl (counters s) @ guest))"
    using assms spaces_ok[of "tl (counters s) @ guest" num] by (intro layout_ok_Cons) simp_all
  then show ?thesis unfolding cpu_text_def
    by (subst Fields_layout) (simp_all add: counters_def comp_def)
qed

lemma parse_counters: "parseCPUFields (map num (counters s) @ map num guest) = s"
  by (simp add: parseCPUFields_def get_uint_def counters_def)

lemma cpu_step_text:
  assumes "is_word name" "list_all blank pad" "pad \<noteq> []" "has_prefix name ''cpu''"
  shows "cpu_step (cpu_text name pad guest s) (agg, cores, ok) =
    (if name = ''cpu'' then (s, cores, True) else (agg, cores @ [s], ok))"
proof -
  have "\<not> length (name # map num (counters s @ guest)) < 8" by (simp add: counters_def)
  then show ?thesis
    using assms(4) by (simp add: cpu_step_def Fields_cpu_text[OF assms(1-3)] parse_counters Let_def)
qed

definition core_text :: "u64 list \<Rightarrow> nat \<times> cpu_sample \<Rightarrow> string" where
  "core_text guest = (\<lambda>(n, s). cpu_text (''cpu'' @ nat_digits n) '' '' guest s)"

lemma fold_cores:
  "fold cpu_step (map (core_text guest) cs) (agg, cores, ok) = (agg, cores @ map snd cs, ok)"
proof (induction cs arbitrary: cores)
  case (Cons c cs)
  obtain n s where c: "c = (n, s)" by fastforce
  have "is_word (''cpu'' @ nat_digits n)"
    using nat_digits_visible[of n] by (simp add: is_word_def visible_def)
  then have "cpu_step (cpu_text (''cpu'' @ nat_digits n) '' '' guest s) (agg, cores, ok) = (agg, cores @ [s], ok)"
    by (subst cpu_step_text) (simp_all add: blank_def has_prefix_def)
  with Cons c show ?case by (simp add: core_text_def)
qed simp

lemma fold_others:
  "\<forall>l \<in> set ls. length (Fields l) < 8 \<or> \<not> has_prefix (hd (Fields l)) ''cpu'' \<Longrightarrow> fold cpu_step ls st = st"
  by (induction ls arbitrary: st) (auto simp: cpu_step_def)

lemma cpu_text_no_newline:
  assumes "is_word name" "list_all blank pad" "newline \<notin> set pad"
  shows "newline \<notin> set (cpu_text name pad guest s)"
  using assms word_no_newline[OF num_word] by (auto simp: cpu_text_def layout_def counters_def word_no_newline)

text \<open>/proc/stat is read back: from the aggregate line (two blanks after its label), one line per core and any other
  lines, each with whatever guest columns follow, the parser recovers the aggregate and the cores in their order.\<close>

theorem readCPUSamples_kernel:
  assumes "\<forall>l \<in> set others. newline \<notin> set l \<and> (length (Fields l) < 8 \<or> \<not> has_prefix (hd (Fields l)) ''cpu'')"
  shows "readCPUSamples (Some (unlines (cpu_text ''cpu'' ''  '' guest agg
      # map (core_text guest) cs @ others))) = (agg, map snd cs, True)"
proof -
  let ?ls = "cpu_text ''cpu'' ''  '' guest agg # map (core_text guest) cs @ others"
  have w: "is_word ''cpu''" "is_word (''cpu'' @ nat_digits n)" for n
    using nat_digits_visible[of n] by (simp_all add: is_word_def visible_def)
  have nn: "\<forall>l \<in> set ?ls. newline \<notin> set l"
    using assms cpu_text_no_newline[OF w(1), of "''  ''"] cpu_text_no_newline[OF w(2), of "'' ''"]
    by (auto simp: blank_def core_text_def)
  have e: "fold cpu_step (others @ [[]]) st = st" for st
    using assms by (intro fold_others) (auto simp: Fields_def)
  have "readCPUSamples (Some (unlines ?ls)) = fold cpu_step (?ls @ [[]]) (zero_cpu_sample, [], False)"
    unfolding readCPUSamples_def option.case split_on_unlines[OF nn] ..
  also have "\<dots> = fold cpu_step (others @ [[]]) (agg, map snd cs, True)"
  proof -
    have "cpu_step (cpu_text ''cpu'' ''  '' guest agg) (zero_cpu_sample, [], False) = (agg, [], True)"
      by (subst cpu_step_text[OF w(1)]) (simp_all add: blank_def has_prefix_def)
    then show ?thesis
      by (simp only: append_Cons append_assoc fold_Cons comp_apply fold_append fold_cores append_Nil)
  qed
  finally show ?thesis unfolding e .
qed

theorem readCPUSamples_kernel_witness:
  "readCPUSamples (Some (unlines (cpu_text ''cpu'' ''  '' [0, 0] (ex_sample 9 1)
      # map (core_text [0, 0]) [(0, ex_sample 4 1), (1, ex_sample 5 0)] @ [''ctxt 17'']))) =
    (ex_sample 9 1, [ex_sample 4 1, ex_sample 5 0], True)"
proof -
  have "Fields ''ctxt 17'' = [''ctxt'', ''17'']" by code_simp
  then show ?thesis by (subst readCPUSamples_kernel) (simp_all)
qed

section \<open>A counter that goes back\<close>

lemma rnd_ge_pow: "2 ^ k \<le> x \<Longrightarrow> (2 :: rat) ^ k \<le> rnd x"
  using rnd_mono[of "2 ^ k" x] rnd_exact[of 1 "int k"] by (simp add: power_int_def)

lemma rnd_le_pow: "x \<le> 2 ^ k \<Longrightarrow> rnd x \<le> (2 :: rat) ^ k"
  using rnd_mono[of x "2 ^ k"] rnd_exact[of 1 "int k"] by (simp add: power_int_def)

lemma huge_pct:
  assumes "2 ^ 63 \<le> unat w" "0 < D" "D < 2 ^ 46"
  shows "\<exists>r. Fin 100 * f_of_u64 w / Fin (of_nat D) = Fin r \<and> 2 ^ 17 \<le> r"
proof -
  define x :: rat where "x = of_nat (unat w)"
  have x: "2 ^ 63 \<le> x" "x \<le> 2 ^ 64"
  proof -
    have "(of_nat (2 ^ 63) :: rat) \<le> x" unfolding x_def by (subst of_nat_le_iff) (rule assms(1))
    then show "2 ^ 63 \<le> x" by simp
    have "x \<le> of_nat (2 ^ 64)" unfolding x_def
      by (subst of_nat_le_iff) (rule less_imp_le[OF u64_less])
    then show "x \<le> 2 ^ 64" by simp
  qed
  define y where "y = rnd x"
  have y: "2 ^ 63 \<le> y" "y \<le> 2 ^ 64" using rnd_ge_pow[OF x(1)] rnd_le_pow[OF x(2)] by (simp_all add: y_def)
  have p: "(2 :: rat) ^ 64 * 128 = 2 ^ 71" "(2 :: rat) ^ 71 \<le> 2 ^ 200" by simp_all
  have hy: "2 ^ 63 \<le> 100 * y" "100 * y \<le> 2 ^ 71" using y by simp_all
  define z where "z = rnd (100 * y)"
  have z: "2 ^ 63 \<le> z" "z \<le> 2 ^ 71" using rnd_ge_pow[OF hy(1)] rnd_le_pow[OF hy(2)] by (simp_all add: z_def)
  have m: "Fin 100 * f_of_u64 w = Fin z"
  proof -
    have "0 \<le> y" using y(1) by simp
    then have "\<bar>100 * y\<bar> \<le> 2 ^ 200" using hy(2) p(2) by linarith
    then show ?thesis by (simp add: f_of_u64_fin mkf_small z_def y_def x_def del: of_nat_unat)
  qed
  have D: "(0 :: rat) < of_nat D" "(of_nat D :: rat) \<le> 2 ^ 46"
  proof -
    show "(0 :: rat) < of_nat D" using assms(2) by simp
    have "(of_nat D :: rat) \<le> of_nat (2 ^ 46)" by (subst of_nat_le_iff) (use assms(3) in simp)
    then show "(of_nat D :: rat) \<le> 2 ^ 46" by simp
  qed
  have q: "2 ^ 17 \<le> z / of_nat D" "z / of_nat D \<le> 2 ^ 71"
  proof -
    have "(2 :: rat) ^ 17 * of_nat D \<le> 2 ^ 17 * 2 ^ 46" by (rule mult_left_mono[OF D(2)]) simp
    also have "\<dots> = 2 ^ 63" by simp
    finally show "2 ^ 17 \<le> z / of_nat D" using z(1) D(1) by (simp add: pos_le_divide_eq)
    have "1 \<le> D" using assms(2) by simp
    then have "(1 :: rat) \<le> of_nat D" by simp
    then have "(2 :: rat) ^ 71 * 1 \<le> 2 ^ 71 * of_nat D" by (rule mult_left_mono) simp
    then have "z \<le> 2 ^ 71 * of_nat D" using z(2) by linarith
    then show "z / of_nat D \<le> 2 ^ 71" using D(1) by (simp add: pos_divide_le_eq)
  qed
  have "0 \<le> z / of_nat D" using q(1) by simp
  then have "\<bar>z / of_nat D\<bar> \<le> 2 ^ 200" using q(2) p(2) by linarith
  then have "Fin z / Fin (of_nat D) = Fin (rnd (z / of_nat D))" using D(1) by (simp add: mkf_small)
  then show ?thesis using rnd_ge_pow[OF q(1)] unfolding m by blast
qed

text \<open>the kernel lets the iowait counter go back. The subtraction then wraps: however small the step back, the
  share reported is at least 131072 percent, when the counters together still advance.\<close>

theorem iowait_back_wraps:
  assumes "unat (c_iowait cur) < unat (c_iowait prev)" "unat (c_iowait prev) - unat (c_iowait cur) \<le> 2 ^ 63"
    and "0 < unat (cpu_total cur - cpu_total prev)" "unat (cpu_total cur - cpu_total prev) < 2 ^ 46"
  shows "\<exists>r. iowait_pct (cpuDeltaPct prev cur) = Fin r \<and> 131072 \<le> r"
proof -
  let ?D = "unat (cpu_total cur - cpu_total prev)"
  have big: "2 ^ 63 \<le> unat (c_iowait cur - c_iowait prev)"
  proof -
    define a b where "a = int (unat (c_iowait cur))" and "b = int (unat (c_iowait prev))"
    have ab: "0 \<le> a" "a < b" "b < 2 ^ 64"
      using assms(1) u64_less[of "c_iowait prev"] by (simp_all add: a_def b_def del: of_nat_unat)
    have "int (unat (c_iowait cur - c_iowait prev)) = (a - b) mod 2 ^ 64"
      by (simp add: a_def b_def uint_word_ariths)
    also have "\<dots> = (a - b + 2 ^ 64) mod 2 ^ 64" by simp
    also have "\<dots> = a - b + 2 ^ 64" using ab by (intro mod_pos_pos_trivial) simp_all
    finally have e: "int (unat (c_iowait cur - c_iowait prev)) = a - b + 2 ^ 64" .
    have "b - a = int (unat (c_iowait prev) - unat (c_iowait cur))"
      using assms(1) by (simp add: a_def b_def of_nat_diff del: of_nat_unat)
    also have "\<dots> \<le> int (2 ^ 63)" by (subst of_nat_le_iff) (rule assms(2))
    finally have "int (2 ^ 63) \<le> int (unat (c_iowait cur - c_iowait prev))" unfolding e by simp
    then show ?thesis by (subst (asm) of_nat_le_iff)
  qed
  have lt: "?D < 2 ^ 53" using assms(4) by simp
  then have ft: "f_of_u64 (cpu_total cur - cpu_total prev) = Fin (of_nat ?D)" by (rule f_of_u64_exact)
  have nz: "\<not> Fin (of_nat ?D) \<le> 0" using assms(3) by (simp del: of_nat_unat)
  have "iowait_pct (cpuDeltaPct prev cur) = Fin 100 * f_of_u64 (c_iowait cur - c_iowait prev) / Fin (of_nat ?D)"
    unfolding cpuDeltaPct_def Let_def ft using nz by (simp only: if_False cpu.simps)
  with huge_pct[OF big assms(3,4)] show ?thesis by simp
qed

theorem iowait_back_wraps_witness:
  "\<exists>r. iowait_pct (cpuDeltaPct (zero_cpu_sample\<lparr>c_iowait := 5, c_idle := 10\<rparr>) (zero_cpu_sample\<lparr>c_iowait := 4, c_idle := 111\<rparr>)) = Fin r
     \<and> 131072 \<le> r"
  by (rule iowait_back_wraps) (simp_all add: zero_cpu_sample_def cpu_total_def)

section \<open>Memory\<close>

lemma u64_pct_bounds:
  fixes total :: u64
  assumes "a + b = total" "a \<le> total" "total > 0" "100 * unat total < 2 ^ 53"
  shows "Fin 100 * f_of_u64 a / f_of_u64 total = Fin (pct (unat a) (unat total))"
    and "0 \<le> pct (unat a) (unat total) \<and> pct (unat a) (unat total) \<le> 100"
proof -
  have le: "unat a \<le> unat total" "0 < unat total" using assms(2,3) by (simp_all add: word_le_nat_alt word_less_nat_alt)
  show "Fin 100 * f_of_u64 a / f_of_u64 total = Fin (pct (unat a) (unat total))"
    by (rule f_of_u64_pct[OF le(2,1) assms(4)])
  show "0 \<le> pct (unat a) (unat total) \<and> pct (unat a) (unat total) \<le> 100"
    by (rule pct_bounds[OF le])
qed

lemma mem_available_le: "mem_available vals \<le> vals ''MemTotal''"
  by (auto simp: mem_available_def Let_def)

lemma mem_ram_simps [simp]:
  "ram_total_kb (mem_ram vals) = vals ''MemTotal''"
  "ram_available_kb (mem_ram vals) = mem_available vals"
  "ram_used_kb (mem_ram vals) = vals ''MemTotal'' - mem_available vals"
  "ram_free_kb (mem_ram vals) = vals ''MemFree''"
  "ram_used_pct (mem_ram vals) = (if vals ''MemTotal'' > 0
     then Fin 100 * f_of_u64 (vals ''MemTotal'' - mem_available vals) / f_of_u64 (vals ''MemTotal'') else 0)"
  "ram_available_pct (mem_ram vals) = (if vals ''MemTotal'' > 0
     then Fin 100 * f_of_u64 (mem_available vals) / f_of_u64 (vals ''MemTotal'') else 0)"
  unfolding mem_ram_def Let_def by (simp_all only: ram.simps split: if_splits) simp_all

text \<open>C26: whatever /proc/meminfo holds, used and available memory add up to the total without wrapping, and with a total of 0
  both percentages are 0. For a total below \<open>2^53 / 100\<close> kB, where a hundred times each count is still exact in
  binary64, the percentages of used and available memory are the correctly rounded ones and between 0 and 100;
  above it they may exceed 100 in the last place (\<open>mem_pct_over\<close>).\<close>

theorem readMemInfo_adds_up:
  assumes "readMemInfo (Some data) = (r, s)"
  shows "unat (ram_used_kb r) + unat (ram_available_kb r) = unat (ram_total_kb r)
    \<and> (ram_total_kb r = 0 \<longrightarrow> ram_used_pct r = 0 \<and> ram_available_pct r = 0)
    \<and> (ram_total_kb r > 0 \<and> 100 * unat (ram_total_kb r) < 2 ^ 53 \<longrightarrow>
        ram_used_pct r = Fin (pct (unat (ram_used_kb r)) (unat (ram_total_kb r)))
        \<and> ram_available_pct r = Fin (pct (unat (ram_available_kb r)) (unat (ram_total_kb r)))
        \<and> pct (unat (ram_used_kb r)) (unat (ram_total_kb r)) \<in> {0..100}
        \<and> pct (unat (ram_available_kb r)) (unat (ram_total_kb r)) \<in> {0..100})"
proof -
  define total avail where "total = mem_vals data ''MemTotal''" and "avail = mem_available (mem_vals data)"
  have r: "r = mem_ram (mem_vals data)" using assms by (simp add: readMemInfo_def)
  have ta: "ram_total_kb r = total" "ram_available_kb r = avail" "ram_used_kb r = total - avail"
    "ram_used_pct r = (if total > 0 then Fin 100 * f_of_u64 (total - avail) / f_of_u64 total else 0)"
    "ram_available_pct r = (if total > 0 then Fin 100 * f_of_u64 avail / f_of_u64 total else 0)"
    unfolding r total_def avail_def by (rule mem_ram_simps)+
  have le1: "avail \<le> total" unfolding total_def avail_def by (rule mem_available_le)
  then have le2: "total - avail \<le> total" by (rule word_sub_le)
  have sum: "unat (total - avail) + unat avail = unat total"
    using le1 by (simp add: unat_sub word_le_nat_alt)
  have p: "Fin 100 * f_of_u64 x / f_of_u64 total = Fin (pct (unat x) (unat total)) \<and> pct (unat x) (unat total) \<in> {0..100}"
    if "x \<le> total" "total > 0" "100 * unat total < 2 ^ 53" for x
    using u64_pct_bounds[of x "total - x" total] that by simp
  show ?thesis unfolding ta using sum p[OF le1] p[OF le2] by (simp del: f64_ops)
qed

text \<open>The file as the kernel prints it: a key, a colon, blanks, a number and perhaps a unit.\<close>

definition mem_line :: "string \<times> string \<times> u64 \<times> string list \<Rightarrow> string" where
  "mem_line = (\<lambda>(key, pad, n, unit). layout (([], key @ '':'') # (pad, num n) # map (\<lambda>u. ('' '', u)) unit))"

definition mem_line_ok :: "string \<times> string \<times> u64 \<times> string list \<Rightarrow> bool" where
  "mem_line_ok = (\<lambda>(key, pad, n, unit). is_word key \<and> list_all blank pad \<and> pad \<noteq> [] \<and> newline \<notin> set pad \<and> list_all is_word unit)"

definition mem_entry :: "string \<times> string \<times> u64 \<times> string list \<Rightarrow> string \<times> u64" where
  "mem_entry = (\<lambda>(key, pad, n, unit). (key, n))"

lemma word_colon: "is_word key \<Longrightarrow> is_word (key @ '':'')"
  by (simp add: is_word_def visible_def)

lemma Fields_mem_line: "mem_line_ok (key, pad, n, unit) \<Longrightarrow> Fields (mem_line (key, pad, n, unit)) = (key @ '':'') # num n # unit"
proof -
  assume ok: "mem_line_ok (key, pad, n, unit)"
  then have "layout_ok (([], key @ '':'') # (pad, num n) # map (\<lambda>u. ('' '', u)) unit)"
    using spaces_ok[of unit "\<lambda>u. u"] word_colon[of key]
    by (intro layout_ok_Cons) (simp_all add: mem_line_ok_def list_all_iff)
  then show ?thesis unfolding mem_line_def
    by (simp add: Fields_layout comp_def)
qed

lemma trim_suffix_append [simp]: "trim_suffix (s @ p) p = s"
  by (simp add: trim_suffix_def)

lemma mem_step_line: "mem_line_ok l \<Longrightarrow> mem_step (mem_line l) vals = vals(fst (mem_entry l) := snd (mem_entry l))"
  by (cases l) (simp add: mem_step_def Fields_mem_line mem_entry_def)

lemma mem_line_no_newline: "mem_line_ok l \<Longrightarrow> newline \<notin> set (mem_line l)"
  by (cases l) (auto simp: mem_line_ok_def mem_line_def layout_def list_all_iff word_no_newline)

lemma mem_vals_lines:
  assumes "list_all mem_line_ok ls" "distinct (map fst (map mem_entry ls))"
  shows "mem_vals (unlines (map mem_line ls)) k = (case map_of (map mem_entry ls) k of Some n \<Rightarrow> n | None \<Rightarrow> 0)"
proof -
  have nn: "\<forall>l \<in> set (map mem_line ls). newline \<notin> set l"
    using assms(1) by (auto simp: list_all_iff mem_line_no_newline)
  have e: "mem_step [] vals = vals" for vals by (simp add: mem_step_def Fields_def)
  have "fold mem_step (map mem_line ls) vals k = (case map_of (map mem_entry ls) k of Some n \<Rightarrow> n | None \<Rightarrow> vals k)" for vals
    using assms
  proof (induction ls arbitrary: vals)
    case (Cons l ls)
    obtain i n where l: "mem_entry l = (i, n)" by fastforce
    with Cons.prems(2) have "map_of (map mem_entry ls) i = None" by (simp add: map_of_eq_None_iff image_image)
    moreover have "fold mem_step (map mem_line (l # ls)) vals = fold mem_step (map mem_line ls) (vals(i := n))"
      using Cons.prems(1) l by (simp add: mem_step_line)
    moreover have "fold mem_step (map mem_line ls) (vals(i := n)) k =
        (case map_of (map mem_entry ls) k of Some n \<Rightarrow> n | None \<Rightarrow> (vals(i := n)) k)"
      by (rule Cons.IH) (use Cons.prems in simp_all)
    ultimately show ?case using l by (cases "k = i") (simp_all del: fun_upd_apply add: fun_upd_same fun_upd_other cong: option.case_cong)
  qed simp
  then show ?thesis by (simp add: mem_vals_def split_on_unlines[OF nn] e)
qed

text \<open>memory read back: on a file in the kernel's format that has the total and the available memory (not 0 and within
  the total), the total, available and used memory are those of the file.\<close>

theorem readMemInfo_kernel:
  assumes "list_all mem_line_ok ls" "distinct (map fst (map mem_entry ls))"
    and "map_of (map mem_entry ls) ''MemTotal'' = Some t" "map_of (map mem_entry ls) ''MemAvailable'' = Some a"
    and "0 < a" "a \<le> t" "readMemInfo (Some (unlines (map mem_line ls))) = (r, s)"
  shows "ram_total_kb r = t \<and> ram_available_kb r = a \<and> ram_used_kb r = t - a"
proof -
  let ?v = "mem_vals (unlines (map mem_line ls))"
  have v: "?v ''MemTotal'' = t" "?v ''MemAvailable'' = a"
    using mem_vals_lines[OF assms(1,2)] assms(3,4) by simp_all
  moreover have "a \<noteq> 0" "\<not> t < a" using assms(5,6) by auto
  ultimately have "mem_available ?v = a" by (simp add: mem_available_def Let_def)
  moreover have "r = mem_ram ?v" using assms(7) by (simp add: readMemInfo_def)
  ultimately show ?thesis using v by simp
qed

definition ex_mem :: "(string \<times> string \<times> u64 \<times> string list) list" where
  "ex_mem = [(''MemTotal'', ''     '', 1000, [''kB'']), (''MemFree'', ''   '', 100, [''kB'']), (''MemAvailable'', '' '', 400, [''kB''])]"

theorem readMemInfo_kernel_witness:
  "ram_used_kb (fst (readMemInfo (Some (unlines (map mem_line ex_mem))))) = 600"
  using readMemInfo_kernel[of ex_mem 1000 400, OF _ _ _ _ _ _ surjective_pairing]
  by (simp add: ex_mem_def mem_line_ok_def is_word_def visible_def blank_def mem_entry_def)

theorem readMemInfo_adds_up_witness:
  "let r = fst (readMemInfo (Some (unlines (map mem_line ex_mem)))) in
   unat (ram_used_kb r) + unat (ram_available_kb r) = 1000 \<and> ram_used_pct r = Fin 60 \<and> ram_available_pct r = Fin 40"
proof -
  let ?r = "fst (readMemInfo (Some (unlines (map mem_line ex_mem))))"
  have k: "ram_total_kb ?r = 1000 \<and> ram_available_kb ?r = 400 \<and> ram_used_kb ?r = 1000 - 400"
    by (rule readMemInfo_kernel[of ex_mem 1000 400, OF _ _ _ _ _ _ surjective_pairing])
      (simp_all add: ex_mem_def mem_line_ok_def is_word_def visible_def blank_def mem_entry_def)
  have "pct 600 1000 = 60" "pct 400 1000 = 40" using rnd_int[of 60] rnd_int[of 40] by (simp_all add: pct_def)
  with readMemInfo_adds_up[OF surjective_pairing, of "unlines (map mem_line ex_mem)"] k show ?thesis by (simp add: Let_def)
qed

text \<open>The bound on the total is needed: a hundred times this count rounds up, and so does the quotient.\<close>

lemma mem_pct_over: "Fin 100 * f_of_u64 5764607523034237 / f_of_u64 5764607523034237 = Fin (100 + 1 / 2 ^ 46)"
proof -
  have f: "f_of_u64 5764607523034237 = Fin 5764607523034237" using f_of_u64_exact[of 5764607523034237] by simp
  have "expo 576460752303423700 = 59" by (rule expo_unique) (simp_all add: power_int_def)
  moreover have "\<lfloor>144115188075855925 / 32 :: rat\<rfloor> = 4503599627370497" by (rule floor_unique) simp_all
  ultimately have "rnd 576460752303423700 = 576460752303423744" by (simp add: rnd_def quantum_def rne_def Let_def power_int_def)
  then have m: "Fin 100 * f_of_u64 5764607523034237 = Fin 576460752303423744" unfolding f by (simp add: mkf_small)
  let ?x = "576460752303423744 / 5764607523034237 :: rat"
  have "expo ?x = 6" by (rule expo_unique) (simp_all add: power_int_def)
  moreover have "\<lfloor>40564819207303358862293012054016 / 5764607523034237 :: rat\<rfloor> = 7036874417766400" by (rule floor_unique) simp_all
  ultimately have "rnd ?x = 100 + 1 / 2 ^ 46" by (simp add: rnd_def quantum_def rne_def Let_def power_int_def power_divide)
  then show ?thesis unfolding m unfolding f by (simp add: mkf_small)
qed

end
