(* ===== verification/Rates.thy ===== *)
theory Rates
  imports Sampling
begin

text \<open>
  Rates between two samples: network interfaces and block devices (internal/collector/net.go and
  diskio.go). A Go map is an association list with distinct keys; where the code ranges over one, the list
  is in the order of that iteration. \<open>None\<close> is the nil map a reader returns when its file cannot be read.
\<close>

section \<open>Ranging over the current samples\<close>

text \<open>
  Both delta functions loop over the current map, look the key up in the previous one and skip what has no
  predecessor or fails a guard.
\<close>

fun deltas :: "(string \<Rightarrow> 's \<Rightarrow> 's \<Rightarrow> 'r option) \<Rightarrow> (string \<times> 's) list \<Rightarrow> (string \<times> 's) list \<Rightarrow> 'r list" where
  "deltas delta prev [] = []"
| "deltas delta prev ((name, c) # cur) =
     (case map_of prev name of
        None \<Rightarrow> deltas delta prev cur
      | Some p \<Rightarrow> (case delta name p c of None \<Rightarrow> deltas delta prev cur | Some r \<Rightarrow> r # deltas delta prev cur))"

locale rate_source =
  fixes delta :: "string \<Rightarrow> 's \<Rightarrow> 's \<Rightarrow> 'r option"
    and ok :: "'s \<Rightarrow> 's \<Rightarrow> bool"
    and name_of :: "'r \<Rightarrow> string"
  assumes delta_ok: "delta name p c \<noteq> None \<longleftrightarrow> ok p c"
    and delta_name: "delta name p c = Some r \<Longrightarrow> name_of r = name"
begin

lemma mem_deltas:
  "r \<in> set (deltas delta prev cur) \<longleftrightarrow>
     (\<exists>c p. (name_of r, c) \<in> set cur \<and> map_of prev (name_of r) = Some p \<and> delta (name_of r) p c = Some r)"
proof (induction cur)
  case (Cons x cur)
  obtain name c where x: "x = (name, c)" by fastforce
  show ?case
  proof (cases "\<exists>p. map_of prev name = Some p \<and> delta name p c = Some r")
    case True
    then obtain p where p: "map_of prev name = Some p" "delta name p c = Some r" by blast
    then have "r \<in> set (deltas delta prev (x # cur))" by (simp add: x)
    moreover have "(name, c) \<in> set (x # cur)" by (simp add: x)
    ultimately show ?thesis using p delta_name[OF p(2)] by blast
  next
    case False
    have "r \<in> set (deltas delta prev (x # cur)) \<longleftrightarrow> r \<in> set (deltas delta prev cur)"
      using False by (auto simp: x split: option.splits)
    moreover have "\<not> (name_of r = name \<and> map_of prev (name_of r) = Some p \<and> delta (name_of r) p c = Some r)" for p
      using False by blast
    ultimately show ?thesis unfolding Cons.IH x by (simp only: list.set insert_iff prod.inject) blast
  qed
qed simp

lemma deltas_names:
  "name_of ` set (deltas delta prev cur) = {name. \<exists>p c. (name, c) \<in> set cur \<and> map_of prev name = Some p \<and> ok p c}"
proof (intro set_eqI iffI)
  fix n assume "n \<in> name_of ` set (deltas delta prev cur)"
  then obtain r where r: "r \<in> set (deltas delta prev cur)" "n = name_of r" by blast
  then obtain c p where "(n, c) \<in> set cur" "map_of prev n = Some p" "delta n p c = Some r"
    unfolding mem_deltas by blast
  with delta_ok[of n p c] show "n \<in> {name. \<exists>p c. (name, c) \<in> set cur \<and> map_of prev name = Some p \<and> ok p c}" by auto
next
  fix n assume "n \<in> {name. \<exists>p c. (name, c) \<in> set cur \<and> map_of prev name = Some p \<and> ok p c}"
  then obtain p c where pc: "(n, c) \<in> set cur" "map_of prev n = Some p" "ok p c" by blast
  then obtain r where r: "delta n p c = Some r" using delta_ok[of n p c] by blast
  with pc delta_name[OF r] have "r \<in> set (deltas delta prev cur)" unfolding mem_deltas by blast
  with delta_name[OF r] show "n \<in> name_of ` set (deltas delta prev cur)" by blast
qed

lemma deltas_distinct: "distinct (map fst cur) \<Longrightarrow> distinct (map name_of (deltas delta prev cur))"
proof (induction cur)
  case (Cons x cur)
  obtain name c where x: "x = (name, c)" by fastforce
  have "name \<notin> name_of ` set (deltas delta prev cur)"
    using Cons.prems unfolding deltas_names x by force
  then show ?case using Cons x delta_name[of name _ c] by (auto split: option.splits)
qed simp

end

section \<open>Network interfaces\<close>

record net_sample =
  rxBytes :: u64
  rxPackets :: u64
  rxErrs :: u64
  rxDrop :: u64
  txBytes :: u64
  txPackets :: u64
  txErrs :: u64
  txDrop :: u64
  net_at :: time

definition net_counters :: "time \<Rightarrow> string list \<Rightarrow> net_sample" where
  "net_counters t flds =
     (let get = (\<lambda>i. uint_of (flds ! i))
      in \<lparr>rxBytes = get 0, rxPackets = get 1, rxErrs = get 2, rxDrop = get 3,
          txBytes = get 8, txPackets = get 9, txErrs = get 10, txDrop = get 11, net_at = t\<rparr>)"

text \<open>One line: the interface and its sample, or nothing (no colon, no name, the loopback, too few columns).\<close>

definition net_line :: "time \<Rightarrow> string \<Rightarrow> (string \<times> net_sample) option" where
  "net_line t l =
     (if \<not> contains l '':'' then None
      else case split2 '':'' l of
        None \<Rightarrow> None
      | Some (a, b) \<Rightarrow>
          let name = TrimSpace a in
          if name = [] \<or> name = ''lo'' then None
          else let flds = Fields b in
            if length flds < 16 then None else Some (name, net_counters t flds))"

definition net_step :: "time \<Rightarrow> string \<Rightarrow> (string \<times> net_sample) list \<Rightarrow> (string \<times> net_sample) list" where
  "net_step t l acc = (case net_line t l of None \<Rightarrow> acc | Some (name, s) \<Rightarrow> AList.update name s acc)"

definition readNetDev :: "string option \<Rightarrow> time \<Rightarrow> (string \<times> net_sample) list option" where
  "readNetDev net_dev t = map_option (\<lambda>data. fold (net_step t) (split_on newline data) []) net_dev"

definition net_delta :: "string \<Rightarrow> net_sample \<Rightarrow> net_sample \<Rightarrow> net_iface option" where
  "net_delta name p c =
     (let dSeconds = seconds (t_sub (net_at c) (net_at p)) in
      if dSeconds \<le> 0 \<or> rxBytes c < rxBytes p \<or> txBytes c < txBytes p then None
      else Some \<lparr>if_name = name,
        rx_bps = f_of_u64 (rxBytes c - rxBytes p) / dSeconds,
        tx_bps = f_of_u64 (txBytes c - txBytes p) / dSeconds,
        packets_ps = f_of_u64 ((rxPackets c - rxPackets p) + (txPackets c - txPackets p)) / dSeconds,
        errors_ps = f_of_u64 ((rxErrs c - rxErrs p) + (txErrs c - txErrs p)) / dSeconds,
        drops_ps = f_of_u64 ((rxDrop c - rxDrop p) + (txDrop c - txDrop p)) / dSeconds\<rparr>)"

definition netDeltas :: "(string \<times> net_sample) list \<Rightarrow> (string \<times> net_sample) list \<Rightarrow> net_iface list" where
  "netDeltas prev cur = deltas net_delta prev cur"

section \<open>Block devices\<close>

text \<open>\<open>^(sd[a-z]+|nvme\d+n\d+|vd[a-z]+|xvd[a-z]+)$\<close>\<close>

definition lower_letters :: "string \<Rightarrow> bool" where
  "lower_letters s = (s \<noteq> [] \<and> list_all (\<lambda>c. let n = of_char c :: nat in 97 \<le> n \<and> n \<le> 122) s)"

definition is_digit :: "char \<Rightarrow> bool" where
  "is_digit c = (let n = of_char c :: nat in 48 \<le> n \<and> n \<le> 57)"

definition digits1 :: "string \<Rightarrow> bool" where
  "digits1 s = (s \<noteq> [] \<and> list_all is_digit s)"

definition realDiskRe :: "string \<Rightarrow> bool" where
  "realDiskRe s =
     (has_prefix s ''sd'' \<and> lower_letters (drop 2 s) \<or> has_prefix s ''vd'' \<and> lower_letters (drop 2 s)
      \<or> has_prefix s ''xvd'' \<and> lower_letters (drop 3 s)
      \<or> has_prefix s ''nvme'' \<and> (let d = takeWhile is_digit (drop 4 s); r = dropWhile is_digit (drop 4 s)
                                 in d \<noteq> [] \<and> has_prefix r ''n'' \<and> digits1 (drop 1 r)))"

definition sectorBytes :: "f64" where "sectorBytes = Fin 512"

record disk_io_sample =
  dk_reads :: u64
  dk_writes :: u64
  sectorsRead :: u64
  sectorsWritten :: u64
  ioTimeMs :: u64
  dk_at :: time

definition disk_line :: "time \<Rightarrow> string \<Rightarrow> (string \<times> disk_io_sample) option" where
  "disk_line t l =
     (let flds = Fields l in
      if length flds < 14 then None
      else let name = flds ! 2; get = (\<lambda>i. uint_of (flds ! i)) in
        if \<not> realDiskRe name then None
        else Some (name, \<lparr>dk_reads = get 3, dk_writes = get 7, sectorsRead = get 5, sectorsWritten = get 9,
                          ioTimeMs = get 12, dk_at = t\<rparr>))"

definition disk_step :: "time \<Rightarrow> string \<Rightarrow> (string \<times> disk_io_sample) list \<Rightarrow> (string \<times> disk_io_sample) list" where
  "disk_step t l acc = (case disk_line t l of None \<Rightarrow> acc | Some (name, s) \<Rightarrow> AList.update name s acc)"

definition readDiskStats :: "string option \<Rightarrow> time \<Rightarrow> (string \<times> disk_io_sample) list option" where
  "readDiskStats diskstats t = map_option (\<lambda>data. fold (disk_step t) (split_on newline data) []) diskstats"

definition disk_io_delta :: "string \<Rightarrow> disk_io_sample \<Rightarrow> disk_io_sample \<Rightarrow> disk_io option" where
  "disk_io_delta name p c =
     (let dSeconds = seconds (t_sub (dk_at c) (dk_at p)) in
      if dSeconds \<le> 0 \<or> dk_reads c < dk_reads p \<or> dk_writes c < dk_writes p then None
      else let dReads = f_of_u64 (dk_reads c - dk_reads p);
               dWrites = f_of_u64 (dk_writes c - dk_writes p);
               dReadSectors = f_of_u64 (sectorsRead c - sectorsRead p);
               dWriteSectors = f_of_u64 (sectorsWritten c - sectorsWritten p);
               dIOTime = f_of_u64 (ioTimeMs c - ioTimeMs p);
               io = \<lparr>io_device = name, read_bps = dReadSectors * sectorBytes / dSeconds,
                     write_bps = dWriteSectors * sectorBytes / dSeconds, read_iops = dReads / dSeconds,
                     write_iops = dWrites / dSeconds, latency_ms = 0\<rparr>;
               ops = dReads + dWrites
           in Some (if ops > 0 then io\<lparr>latency_ms := dIOTime / ops\<rparr> else io))"

definition diskIODeltas :: "(string \<times> disk_io_sample) list \<Rightarrow> (string \<times> disk_io_sample) list \<Rightarrow> disk_io list" where
  "diskIODeltas prev cur = deltas disk_io_delta prev cur"

section \<open>What is reported\<close>

lemma rate_fin:
  assumes "2 powi (-30) \<le> x" "0 \<le> a" "a \<le> 2 ^ 100"
  shows "\<exists>v. Fin a / Fin x = Fin v \<and> 0 \<le> v"
proof -
  have x: "0 < x" using assms(1) powi_pos[of "-30"] by linarith
  have "a / x \<le> 2 ^ 100 / 2 powi (-30)" using assms x by (intro frac_le) auto
  also have "\<dots> \<le> 2 ^ 200" by (simp add: powi_m30)
  finally have "\<bar>a / x\<bar> \<le> 2 ^ 200" using assms(2) x by simp
  then show ?thesis using x assms(2) rnd_nonneg[of "a / x"] by (simp add: mkf_small)
qed

lemma f_of_u64_le: "\<exists>a. f_of_u64 w = Fin a \<and> 0 \<le> a \<and> a \<le> 2 ^ 64"
proof -
  have "(of_nat (unat w) :: rat) \<le> of_nat (2 ^ 64)"
    by (subst of_nat_le_iff) (rule less_imp_le[OF u64_less])
  then have "rnd (of_nat (unat w)) \<le> 2 ^ 64" by (intro rnd_le_pow) simp
  then show ?thesis using rnd_nonneg[of "of_nat (unat w)"] by (simp add: f_of_u64_fin del: of_nat_unat)
qed

lemma u64_rate: "2 powi (-30) \<le> x \<Longrightarrow> \<exists>v. f_of_u64 w / Fin x = Fin v \<and> 0 \<le> v"
proof -
  assume x: "2 powi (-30) \<le> x"
  obtain a where a: "f_of_u64 w = Fin a" "0 \<le> a" "a \<le> 2 ^ 64" using f_of_u64_le by blast
  then have "a \<le> 2 ^ 100" by simp
  with rate_fin[OF x a(2)] a(1) show ?thesis by simp
qed

lemma fold_update_distinct:
  "distinct (map fst acc) \<Longrightarrow> (\<And>l a. distinct (map fst a) \<Longrightarrow> distinct (map fst (f l a))) \<Longrightarrow> distinct (map fst (fold f ls acc))"
  by (induction ls arbitrary: acc) auto

lemma readNetDev_distinct: "readNetDev f t = Some cur \<Longrightarrow> distinct (map fst cur)"
  unfolding readNetDev_def
  by (auto intro!: fold_update_distinct simp: net_step_def distinct_update split: option.splits)

lemma readDiskStats_distinct: "readDiskStats f t = Some cur \<Longrightarrow> distinct (map fst cur)"
  unfolding readDiskStats_def
  by (auto intro!: fold_update_distinct simp: disk_step_def distinct_update split: option.splits)

definition net_ok :: "net_sample \<Rightarrow> net_sample \<Rightarrow> bool" where
  "net_ok p c = (net_at p < net_at c \<and> rxBytes p \<le> rxBytes c \<and> txBytes p \<le> txBytes c)"

lemma seconds_sub_le0: "seconds (t_sub t u) \<le> 0 \<longleftrightarrow> \<not> u < t"
proof -
  obtain x where "seconds (t_sub t u) = Fin x" "if t > u then 2 powi (-30) \<le> x else x \<le> 0"
    using seconds_sub by blast
  moreover have "(0 :: rat) < 2 powi (-30)" by simp
  ultimately show ?thesis by (cases "u < t") auto
qed

definition disk_ok :: "disk_io_sample \<Rightarrow> disk_io_sample \<Rightarrow> bool" where
  "disk_ok p c = (dk_at p < dk_at c \<and> dk_reads p \<le> dk_reads c \<and> dk_writes p \<le> dk_writes c)"

interpretation net: rate_source net_delta net_ok if_name
  by unfold_locales (auto simp: net_delta_def net_ok_def Let_def not_less seconds_sub_le0 simp del: f64_ops split: if_splits)

interpretation blk: rate_source disk_io_delta disk_ok io_device
  by unfold_locales (auto simp: disk_io_delta_def disk_ok_def Let_def not_less seconds_sub_le0 simp del: f64_ops split: if_splits)

lemma net_delta_rates:
  assumes "net_delta name p c = Some r"
  shows "rx_bps r = f_of_u64 (rxBytes c - rxBytes p) / seconds (t_sub (net_at c) (net_at p))"
    "tx_bps r = f_of_u64 (txBytes c - txBytes p) / seconds (t_sub (net_at c) (net_at p))"
    "packets_ps r = f_of_u64 ((rxPackets c - rxPackets p) + (txPackets c - txPackets p)) / seconds (t_sub (net_at c) (net_at p))"
    "errors_ps r = f_of_u64 ((rxErrs c - rxErrs p) + (txErrs c - txErrs p)) / seconds (t_sub (net_at c) (net_at p))"
    "drops_ps r = f_of_u64 ((rxDrop c - rxDrop p) + (txDrop c - txDrop p)) / seconds (t_sub (net_at c) (net_at p))"
  using assms by (auto simp: net_delta_def Let_def simp del: f64_ops split: if_splits)

text \<open>every interface seen in both samples whose clock advanced and whose byte counters did not go back is reported
  exactly once, no other is, and every rate is a finite number that is not negative.\<close>

theorem netDeltas_reported:
  assumes "distinct (map fst cur)"
  shows "distinct (map if_name (netDeltas prev cur)) \<and>
    if_name ` set (netDeltas prev cur) = {name. \<exists>p c. (name, c) \<in> set cur \<and> map_of prev name = Some p
       \<and> net_at p < net_at c \<and> rxBytes p \<le> rxBytes c \<and> txBytes p \<le> txBytes c} \<and>
    (\<forall>r \<in> set (netDeltas prev cur). \<forall>v \<in> {rx_bps r, tx_bps r, packets_ps r, errors_ps r, drops_ps r}. \<exists>x. v = Fin x \<and> 0 \<le> x)"
proof -
  have "\<exists>x. v = Fin x \<and> 0 \<le> x"
    if "r \<in> set (netDeltas prev cur)" "v \<in> {rx_bps r, tx_bps r, packets_ps r, errors_ps r, drops_ps r}" for r v
  proof -
    from that(1) obtain c p where r: "net_delta (if_name r) p c = Some r"
      unfolding netDeltas_def net.mem_deltas by blast
    then have "net_ok p c" using net.delta_ok[of "if_name r" p c] by auto
    then obtain x where x: "seconds (t_sub (net_at c) (net_at p)) = Fin x" "2 powi (-30) \<le> x"
      using seconds_sub[of "net_at c" "net_at p"] by (auto simp: net_ok_def)
    from r that(2) have "\<exists>w. v = f_of_u64 w / seconds (t_sub (net_at c) (net_at p))"
      using net_delta_rates[OF r] by blast
    then show ?thesis using u64_rate[OF x(2)] x(1) by auto
  qed
  then show ?thesis
    using net.deltas_distinct[OF assms, of prev] net.deltas_names[of prev cur] by (simp add: netDeltas_def net_ok_def)
qed

theorem netDeltas_reported_witness:
  "if_name ` set (netDeltas [] []) = {}"
  using netDeltas_reported[of "[]" "[]"] by simp

section \<open>Rates over any time\<close>

text \<open>\<open>Seconds\<close> of a positive duration: the exact quotient up to two roundings.\<close>

lemma seconds_near:
  assumes "0 < d" "d \<le> 2 ^ 63"
  shows "\<exists>x z. seconds d = Fin x \<and> near (2 powi (-53)) z (of_int d / 1000000000) \<and> near (2 powi (-53)) x z
    \<and> 2 powi (-30) \<le> x \<and> x \<le> 2 ^ 40"
proof -
  define q r where "q = d div 1000000000" and "r = d mod 1000000000"
  define f z :: rat where "f = of_int r / 1000000000" and "z = of_int q + rnd f"
  have d: "d = 1000000000 * q + r" by (simp add: q_def r_def)
  have b: "0 \<le> r" "r < 1000000000" by (simp_all add: r_def)
  have "d \<le> 9223372036854775808" using assms(2) by simp
  with assms(1) d b have q: "0 \<le> q" "q < 9223372037" "q > 0 \<or> r > 0" by linarith+
  have qr: "quot d Second = q" "rem d Second = r"
    using assms(1) by (simp_all add: quot_def rem_def q_def r_def minus_div_mult_eq_mod)
  have small: "(2 :: rat) powi (-1022) \<le> 2 powi (-30)" by (rule powi_mono) simp
  have f: "0 \<le> f" "f \<le> 1" "f = 0 \<or> 2 powi (-30) \<le> f"
  proof -
    show "0 \<le> f" using b(1) by (simp add: f_def)
    have "(of_int r :: rat) \<le> of_int 1000000000" using b(2) by (subst of_int_le_iff) simp
    then show "f \<le> 1" by (simp add: f_def)
    show "f = 0 \<or> 2 powi (-30) \<le> f"
    proof (cases "r = 0")
      case False
      then have "(1 :: rat) \<le> of_int r" using b(1) by simp
      then show ?thesis by (simp add: f_def powi_m30)
    qed (simp add: f_def)
  qed
  have nf: "near (2 powi (-53)) (rnd f) f" using f(3) small by (intro near_rnd) linarith
  have r1: "0 \<le> rnd f" "rnd f \<le> 1" using rnd_nonneg[OF f(1)] rnd_le_int[of 1 f] f(2) by simp_all
  have q': "(of_int q :: rat) \<le> 9223372037" using q(2) of_int_le_iff[of q 9223372037, where ?'a = rat] by simp
  have "0 \<le> z" "z \<le> 2 ^ 40" "z \<le> 2 ^ 200" using q(1) q' r1 by (simp_all add: z_def)
  then have up: "rnd z \<le> 2 ^ 40" by (intro rnd_le_pow)
  have mz: "mkf z = Fin (rnd z)" using \<open>0 \<le> z\<close> \<open>z \<le> 2 ^ 200\<close> by (intro mkf_small) simp
  have mf: "mkf f = Fin (rnd f)" using f by (intro mkf_small) simp
  have "seconds d = Fin (rnd z)"
    using q b mz mf by (simp add: seconds_def qr f_of_int_exact z_def f_def del: time_units)
  moreover have "near (2 powi (-53)) z (of_int q + f)" unfolding z_def using q(1) nf by (intro near_add) auto
  moreover have "of_int q + f = of_int d / 1000000000" by (simp add: f_def d add_divide_distrib)
  moreover have "z = 0 \<or> 2 powi (-1022) \<le> z"
  proof (cases "q > 0")
    case True
    then have "1 \<le> z" using r1(1) by (simp add: z_def)
    moreover have "(2 :: rat) powi (-1022) \<le> 2 powi 0" by (rule powi_mono) simp
    ultimately show ?thesis by simp
  next
    case False
    with q f b have "2 powi (-30) \<le> f" by (auto simp: f_def)
    then have "rnd (2 powi (-30)) \<le> rnd f" by (rule rnd_mono)
    then have "2 powi (-30) \<le> rnd f" using rnd_exact[of 1 "-30"] by simp
    then have "2 powi (-30) \<le> z" using q(1) by (simp add: z_def)
    with small show ?thesis by linarith
  qed
  then have "near (2 powi (-53)) (rnd z) z" by (rule near_rnd)
  moreover have "2 powi (-30) \<le> rnd z" using seconds_form[of d] assms calculation(1) by auto
  ultimately show ?thesis using up by metis
qed

text \<open>A quotient of two floats near exact values, the way the rates compute them.\<close>

lemma float_quotient_near:
  assumes "near (3 * 2 powi (-53)) a n" "0 \<le> n" "a = 0 \<or> 1 \<le> a" "a \<le> 2 ^ 100"
    and "near (2 powi (-53)) z d" "near (2 powi (-53)) x z" "0 < d" "2 powi (-30) \<le> x" "x \<le> 2 ^ 70"
  shows "\<exists>v. Fin a / Fin x = Fin v \<and> near (2 powi (-50)) v (n / d)"
proof -
  have x: "0 < x" and a: "0 \<le> a" using assms(3,8) powi_pos[of "-30"] by auto
  have "a / x \<le> 2 ^ 100 / 2 powi (-30)" using assms(4,8) a x by (intro frac_le) auto
  also have "\<dots> \<le> 2 ^ 200" by (simp add: powi_m30)
  finally have "\<bar>a / x\<bar> \<le> 2 ^ 200" using a x by simp
  then have v: "Fin a / Fin x = Fin (rnd (a / x))" using x by (simp add: mkf_small)
  have "a / x = 0 \<or> 2 powi (-1022) \<le> a / x"
  proof (cases "a = 0")
    case False
    then have a1: "1 \<le> a" using assms(3) by blast
    have "x \<le> 2 powi 70" using assms(9) by (simp add: power_int_def)
    have "(2 :: rat) powi (-1022) \<le> 2 powi (-70)" by (rule powi_mono) simp
    also have "\<dots> = 1 / 2 powi 70" by (simp add: power_int_minus_divide)
    also have "\<dots> \<le> a / x" using a1 \<open>x \<le> 2 powi 70\<close> x by (intro frac_le) auto
    finally show ?thesis ..
  qed simp
  then have "near (2 powi (-53)) (rnd (a / x)) (a / x)" by (rule near_rnd)
  from near_quotient[OF assms(1,5,6) this assms(2,7) ulp_small(1,2)] v show ?thesis by (simp only: ulp_small(3)) blast
qed

lemma f_of_u64_near: "\<exists>a. f_of_u64 w = Fin a \<and> near (2 powi (-53)) a (of_nat (unat w)) \<and> (a = 0 \<and> unat w = 0 \<or> 1 \<le> a) \<and> a \<le> 2 ^ 64"
proof -
  let ?n = "of_nat (unat w) :: rat"
  obtain a where a: "f_of_u64 w = Fin a" "a \<le> 2 ^ 64" using f_of_u64_le by blast
  then have an: "a = rnd ?n" by (simp add: f_of_u64_fin del: of_nat_unat)
  have n: "?n = 0 \<and> unat w = 0 \<or> 1 \<le> ?n" by (cases "unat w") simp_all
  have "(2 :: rat) powi (-1022) \<le> 2 powi 0" by (rule powi_mono) simp
  then have "near (2 powi (-53)) (rnd ?n) ?n" using n by (intro near_rnd) auto
  moreover have "rnd ?n = 0 \<and> unat w = 0 \<or> 1 \<le> rnd ?n" using n rnd_ge_int[of 1 ?n] by auto
  ultimately show ?thesis using a unfolding an by blast
qed

text \<open>A counter difference over a duration in nanoseconds, within \<open>2^-50\<close> of the exact rate per second.\<close>

definition per_second :: "nat \<Rightarrow> int \<Rightarrow> rat" where
  "per_second n d = of_nat n * 1000000000 / of_int d"

lemma over_seconds_near:
  assumes "0 < d" "d \<le> 2 ^ 63" "near (3 * 2 powi (-53)) a (of_nat n)" "a = 0 \<or> 1 \<le> a" "a \<le> 2 ^ 100"
  shows "\<exists>v. Fin a / seconds d = Fin v \<and> near (2 powi (-50)) v (per_second n d)"
proof -
  obtain x z where x: "seconds d = Fin x" "near (2 powi (-53)) z (of_int d / 1000000000)" "near (2 powi (-53)) x z"
    "2 powi (-30) \<le> x" "x \<le> 2 ^ 40" using seconds_near[OF assms(1,2)] by blast
  have "(2 :: rat) ^ 40 \<le> 2 ^ 70" by (rule power_increasing) auto
  with x(5) have "x \<le> 2 ^ 70" by linarith
  moreover have "0 < (of_int d :: rat) / 1000000000" using assms(1) by simp
  ultimately show ?thesis
    using float_quotient_near[OF assms(3) _ assms(4,5) x(2,3) _ x(4)] x(1) by (simp add: per_second_def)
qed

lemma near3: "near (2 powi (-53)) y x \<Longrightarrow> 0 \<le> x \<Longrightarrow> near (3 * 2 powi (-53)) y x"
  by (erule near_weaken) (use ulp_small(1) in auto)

text \<open>A reported rate: finite, and within one part in \<open>2^50\<close> of the exact quotient of the counter's difference and
  the time in seconds.\<close>

definition rate_close :: "f64 \<Rightarrow> nat \<Rightarrow> int \<Rightarrow> bool" where
  "rate_close v n d \<longleftrightarrow> (\<exists>x. v = Fin x \<and> \<bar>x - per_second n d\<bar> \<le> per_second n d / 2 ^ 50)"

lemma u64_rate_close:
  assumes "0 < d" "d \<le> 2 ^ 63"
  shows "rate_close (f_of_u64 w / seconds d) (unat w) d"
proof -
  obtain a where a: "f_of_u64 w = Fin a" "near (2 powi (-53)) a (of_nat (unat w))" "a = 0 \<or> 1 \<le> a" "a \<le> 2 ^ 64"
    using f_of_u64_near by blast
  have "(2 :: rat) ^ 64 \<le> 2 ^ 100" by (rule power_increasing) auto
  then have "a \<le> 2 ^ 100" using a(4) by linarith
  then show ?thesis
    using over_seconds_near[OF assms near3[OF a(2) of_nat_0_le_iff] a(3)] a(1)
    by (auto simp: rate_close_def near_abs power_int_def power_divide)
qed

text \<open>Whole seconds between samples: the rate is the correctly rounded quotient.\<close>

lemma u64_diff: "(p :: u64) \<le> c \<Longrightarrow> unat (c - p) = unat c - unat p"
  by (simp add: unat_sub)

lemma nat_quotient:
  assumes "n < 2 ^ 53" "0 < k"
  shows "Fin (of_nat n) / Fin (of_int k) = Fin (rnd (of_nat n / of_int k))"
proof -
  have k: "(1 :: rat) \<le> of_int k" using assms(2) by simp
  have "(of_nat n :: rat) < of_nat (2 ^ 53)" by (subst of_nat_less_iff) (rule assms(1))
  then have n: "(of_nat n :: rat) \<le> 2 ^ 53" by simp
  have "(of_nat n :: rat) / of_int k \<le> of_nat n / 1" using k by (intro divide_left_mono) auto
  then have "of_nat n / of_int k \<le> (2 :: rat) ^ 53" using n by linarith
  moreover have "(2 :: rat) ^ 53 \<le> 2 ^ 200" by simp
  ultimately have "\<bar>of_nat n / of_int k :: rat\<bar> \<le> 2 ^ 200" using k by simp
  then show ?thesis using k by (simp add: mkf_small)
qed

text \<open>C27: an interface seen in two samples, the clock having advanced and its byte counters not gone back, is reported
  with its rates per second, whatever the time between the samples, fractions of a second included: bytes
  received and sent, and packets, errors and drops of both directions together (their differences modulo
  \<open>2^64\<close>), each within one part in \<open>2^50\<close> of the exact quotient; and correctly rounded when the samples are
  whole seconds apart.\<close>

theorem netDeltas_rate:
  assumes "(name, c) \<in> set cur" "map_of prev name = Some p"
    and "d = net_at c - net_at p" "0 < d" "d < 2 ^ 63"
    and "rxBytes p \<le> rxBytes c" "rx = unat (rxBytes c) - unat (rxBytes p)"
    and "txBytes p \<le> txBytes c" "tx = unat (txBytes c) - unat (txBytes p)"
  shows "\<exists>r \<in> set (netDeltas prev cur). if_name r = name
    \<and> rate_close (rx_bps r) rx d \<and> rate_close (tx_bps r) tx d
    \<and> rate_close (packets_ps r) (unat ((rxPackets c - rxPackets p) + (txPackets c - txPackets p))) d
    \<and> rate_close (errors_ps r) (unat ((rxErrs c - rxErrs p) + (txErrs c - txErrs p))) d
    \<and> rate_close (drops_ps r) (unat ((rxDrop c - rxDrop p) + (txDrop c - txDrop p))) d
    \<and> (\<forall>k. d = k * Second \<and> k < 2 ^ 33 \<and> rx < 2 ^ 53 \<longrightarrow> rx_bps r = Fin (rnd (of_nat rx / of_int k)))
    \<and> (\<forall>k. d = k * Second \<and> k < 2 ^ 33 \<and> tx < 2 ^ 53 \<longrightarrow> tx_bps r = Fin (rnd (of_nat tx / of_int k)))"
proof -
  have s: "t_sub (net_at c) (net_at p) = d" using assms(3-5) by (simp add: t_sub_def max_dur_def min_dur_def)
  have "net_ok p c" using assms(3,4,6,8) by (simp add: net_ok_def)
  then obtain r where r: "net_delta name p c = Some r" using net.delta_ok[of name p c] by blast
  then have m: "r \<in> set (netDeltas prev cur)" "if_name r = name"
    using assms(1,2) net.delta_name[OF r] by (auto simp: netDeltas_def net.mem_deltas)
  note rt = net_delta_rates[OF r, unfolded s]
  have n: "unat (rxBytes c - rxBytes p) = rx" "unat (txBytes c - txBytes p) = tx"
    using assms(6-9) by (simp_all add: u64_diff)
  have "rate_close (f_of_u64 w / seconds d) (unat w) d" for w using assms(4,5) by (intro u64_rate_close) auto
  then have 1: "rate_close (rx_bps r) rx d" "rate_close (tx_bps r) tx d"
    "rate_close (packets_ps r) (unat ((rxPackets c - rxPackets p) + (txPackets c - txPackets p))) d"
    "rate_close (errors_ps r) (unat ((rxErrs c - rxErrs p) + (txErrs c - txErrs p))) d"
    "rate_close (drops_ps r) (unat ((rxDrop c - rxDrop p) + (txDrop c - txDrop p))) d"
    unfolding rt n[symmetric] by blast+
  have 2: "f_of_u64 w / seconds d = Fin (rnd (of_nat (unat w) / of_int k))"
    if "d = k * Second" "k < 2 ^ 33" "unat w < 2 ^ 53" for w k
  proof -
    have k: "0 < k" using assms(4) that(1) by (simp add: zero_less_mult_iff)
    have "k < 2 ^ 53" using that(2) by simp
    with k have "seconds d = Fin (of_int k)" unfolding that(1) by (intro seconds_whole) auto
    then show ?thesis using f_of_u64_exact[OF that(3)] nat_quotient[OF that(3) k] by (simp only:)
  qed
  have "rx_bps r = Fin (rnd (of_nat rx / of_int k))" if "d = k * Second" "k < 2 ^ 33" "rx < 2 ^ 53" for k
    using 2[OF that(1,2), of "rxBytes c - rxBytes p"] that(3) rt(1) n(1) by simp
  moreover have "tx_bps r = Fin (rnd (of_nat tx / of_int k))" if "d = k * Second" "k < 2 ^ 33" "tx < 2 ^ 53" for k
    using 2[OF that(1,2), of "txBytes c - txBytes p"] that(3) rt(2) n(2) by simp
  ultimately show ?thesis using m 1 by blast
qed

definition ex_net :: "u64 \<Rightarrow> time \<Rightarrow> net_sample" where
  "ex_net b t = \<lparr>rxBytes = b, rxPackets = 0, rxErrs = 0, rxDrop = 0, txBytes = 2 * b, txPackets = 0, txErrs = 0, txDrop = 0, net_at = t\<rparr>"

theorem netDeltas_rate_witness:
  "\<exists>r \<in> set (netDeltas [(''eth0'', ex_net 100 250000000)] [(''eth0'', ex_net 700 1750000000)]). \<exists>x. rx_bps r = Fin x \<and> \<bar>x - 400\<bar> \<le> 400 / 2 ^ 50"
  using netDeltas_rate[of "''eth0''" "ex_net 700 1750000000" "[(''eth0'', ex_net 700 1750000000)]" "[(''eth0'', ex_net 100 250000000)]"
      "ex_net 100 250000000" 1500000000 600 1200]
  by (auto simp: ex_net_def rate_close_def per_second_def)

section \<open>/proc/net/dev as the kernel prints it\<close>

definition net_text :: "string \<times> string \<times> u64 list \<Rightarrow> string" where
  "net_text = (\<lambda>(pad, name, cs). (pad @ name) @ CHR '':'' # spaced (map num cs))"

definition net_text_ok :: "string \<times> string \<times> u64 list \<Rightarrow> bool" where
  "net_text_ok = (\<lambda>(pad, name, cs). list_all blank pad \<and> newline \<notin> set pad \<and> is_word name \<and> CHR '':'' \<notin> set name \<and> 16 \<le> length cs)"

definition net_entry :: "time \<Rightarrow> string \<times> string \<times> u64 list \<Rightarrow> string \<times> net_sample" where
  "net_entry t = (\<lambda>(pad, name, cs). (name, \<lparr>rxBytes = cs ! 0, rxPackets = cs ! 1, rxErrs = cs ! 2, rxDrop = cs ! 3,
     txBytes = cs ! 8, txPackets = cs ! 9, txErrs = cs ! 10, txDrop = cs ! 11, net_at = t\<rparr>))"

lemma blank_not_colon: "list_all blank pad \<Longrightarrow> CHR '':'' \<notin> set pad"
  by (induction pad) (auto simp: blank_def)

lemma net_line_text:
  assumes "net_text_ok e"
  shows "net_line t (net_text e) = (if fst (net_entry t e) = ''lo'' then None else Some (net_entry t e))"
proof -
  obtain pad name cs where e: "e = (pad, name, cs)" using prod_cases3 by blast
  with assms have ok: "list_all blank pad" "is_word name" "CHR '':'' \<notin> set (pad @ name)" "16 \<le> length cs"
    by (auto simp: net_text_ok_def dest: blank_not_colon)
  have "contains (net_text e) '':''" by (rule contains_char) (simp add: net_text_def e)
  moreover have "split2 '':'' (net_text e) = Some (pad @ name, spaced (map num cs))"
    unfolding net_text_def e using split2_char[OF ok(3)] by simp
  moreover have "Fields (spaced (map num cs)) = map num cs" by (rule Fields_spaced0) (simp add: list_all_iff)
  moreover have "name \<noteq> []" using ok(2) by (simp add: is_word_def)
  moreover have "cs \<noteq> []" using ok(4) by auto
  ultimately show ?thesis
    using ok(4) TrimSpace_blanks_word[OF ok(1,2)] by (simp add: net_line_def e net_entry_def net_counters_def Let_def)
qed

lemma net_text_no_newline:
  assumes "net_text_ok e"
  shows "newline \<notin> set (net_text e)"
proof -
  obtain pad name cs where e: "e = (pad, name, cs)" using prod_cases3 by blast
  have "newline \<notin> set (spaced (map num cs))" by (rule spaced_no_newline) (simp add: list_all_iff)
  with assms show ?thesis by (simp add: net_text_ok_def net_text_def e word_no_newline)
qed

lemma update_fresh: "k \<notin> fst ` set al \<Longrightarrow> AList.update k v al = al @ [(k, v)]"
  by (induction al) auto

lemma fold_net_text:
  assumes "list_all net_text_ok es" "distinct (map fst (map (net_entry t) es))" "fst ` set acc \<inter> fst ` net_entry t ` set es = {}"
  shows "fold (net_step t) (map net_text es) acc = acc @ filter (\<lambda>e. fst e \<noteq> ''lo'') (map (net_entry t) es)"
  using assms
proof (induction es arbitrary: acc)
  case (Cons e es)
  have l: "net_line t (net_text e) = (if fst (net_entry t e) = ''lo'' then None else Some (net_entry t e))"
    using Cons.prems(1) by (intro net_line_text) simp
  show ?case
  proof (cases "fst (net_entry t e) = ''lo''")
    case True
    then have "net_step t (net_text e) acc = acc" using l by (simp add: net_step_def)
    with Cons True show ?thesis by simp
  next
    case False
    obtain k v where kv: "net_entry t e = (k, v)" by fastforce
    have "k \<notin> fst ` set acc" using Cons.prems(3) kv by (metis disjoint_iff fst_conv image_eqI list.set_intros(1))
    then have "net_step t (net_text e) acc = acc @ [(k, v)]" using l False kv by (simp add: net_step_def update_fresh)
    moreover have "k \<notin> fst ` net_entry t ` set es" using Cons.prems(2) kv by (simp add: image_image)
    ultimately show ?thesis using Cons.IH[of "acc @ [(k, v)]"] Cons.prems False kv by (auto simp: disjoint_iff)
  qed
qed simp

text \<open>/proc/net/dev read back: headers without a colon are skipped, every interface but the loopback is found with
  exactly its counters, in file order.\<close>

theorem readNetDev_kernel:
  assumes "list_all net_text_ok es" "distinct (map (\<lambda>(pad, name, cs). name) es)"
    and "\<forall>h \<in> set hs. newline \<notin> set h \<and> \<not> contains h '':''"
  shows "readNetDev (Some (unlines (hs @ map net_text es))) t = Some (filter (\<lambda>e. fst e \<noteq> ''lo'') (map (net_entry t) es))"
proof -
  have d: "distinct (map fst (map (net_entry t) es))"
  proof -
    have "map fst (map (net_entry t) es) = map (\<lambda>(pad, name, cs). name) es" by (auto simp: net_entry_def)
    then show ?thesis using assms(2) by (simp only:)
  qed
  have nn: "\<forall>l \<in> set (hs @ map net_text es). newline \<notin> set l"
    using assms(1,3) by (auto simp: list_all_iff net_text_no_newline)
  have h: "fold (net_step t) hs acc = acc" for acc
    using assms(3) by (induction hs) (simp_all add: net_step_def net_line_def)
  have e: "net_step t [] acc = acc" for acc by (simp add: net_step_def net_line_def)
  show ?thesis using fold_net_text[OF assms(1) d, of "[]"]
    by (simp add: readNetDev_def split_on_unlines[OF nn] h e)
qed

theorem readNetDev_kernel_witness:
  "readNetDev (Some (unlines ([''Inter-|   Receive''] @ map net_text [(''    '', ''lo'', replicate 16 1), ('''', ''eth0'', [7, 1, 0, 0, 0, 0, 0, 0, 9, 2, 0, 0, 0, 0, 0, 0])]))) 5 =
     Some [(''eth0'', \<lparr>rxBytes = 7, rxPackets = 1, rxErrs = 0, rxDrop = 0, txBytes = 9, txPackets = 2, txErrs = 0, txDrop = 0, net_at = 5\<rparr>)]"
  by (subst readNetDev_kernel)
    (simp_all add: net_text_ok_def is_word_def visible_def blank_def net_entry_def has_prefix_def)

section \<open>Partitions\<close>

text \<open>The kernel names a partition after its disk: a \<open>p\<close> in between when the disk ends in a digit.\<close>

definition part_name :: "string \<Rightarrow> nat \<Rightarrow> string" where
  "part_name disk n = disk @ (if is_digit (last disk) then ''p'' else []) @ nat_digits n"

lemma nat_digits_digits: "list_all is_digit (nat_digits n)"
proof (induction n rule: nat_digits.induct)
  case (1 n)
  have "is_digit (char_of (48 + d))" if "d < 10" for d :: nat
    using that by (simp add: is_digit_def of_char_of Let_def)
  with 1 show ?case by (cases "n < 10") (auto simp: nat_digits.simps[of n])
qed

lemma lower_not_digit: "lower_letters s \<Longrightarrow> c \<in> set s \<Longrightarrow> \<not> is_digit c"
  by (auto simp: lower_letters_def is_digit_def list_all_iff Let_def)

lemma takeWhile_digits: "list_all is_digit d \<Longrightarrow> \<not> is_digit c \<Longrightarrow> takeWhile is_digit (d @ c # r) = d \<and> dropWhile is_digit (d @ c # r) = c # r"
  by (induction d) auto

lemma lower_digits: "n \<noteq> [] \<Longrightarrow> list_all is_digit n \<Longrightarrow> \<not> lower_letters (s @ n)"
  using lower_not_digit[of "s @ n" "last n"] by (auto simp: list_all_iff)

lemma letters_last: "lower_letters s \<Longrightarrow> \<not> is_digit (last (p @ s))"
  using lower_not_digit[of s "last s"] by (auto simp: lower_letters_def)

lemma digits_p: "\<not> digits1 (s @ CHR ''p'' # t)"
  by (simp add: digits1_def is_digit_def)

text \<open>the pattern that selects the whole disks never matches a partition of one of them.\<close>

theorem partition_not_disk:
  assumes "realDiskRe d"
  shows "\<not> realDiskRe (part_name d n)"
proof -
  let ?n = "nat_digits n"
  have nd: "?n \<noteq> []" "list_all is_digit ?n" by (simp_all add: nat_digits_digits)
  note sims = realDiskRe_def part_name_def has_prefix_def lower_digits[OF nd]
  from assms consider r where "d = ''sd'' @ r" "lower_letters r" | r where "d = ''vd'' @ r" "lower_letters r"
    | r where "d = ''xvd'' @ r" "lower_letters r"
    | r where "d = ''nvme'' @ r" "takeWhile is_digit r \<noteq> []" "has_prefix (dropWhile is_digit r) ''n''" "digits1 (drop 1 (dropWhile is_digit r))"
    by (auto simp: realDiskRe_def has_prefix_iff Let_def)
  then show ?thesis
  proof cases
    case (1 r)
    then show ?thesis using letters_last[of r "''sd''"] by (simp add: sims)
  next
    case (2 r)
    then show ?thesis using letters_last[of r "''vd''"] by (simp add: sims)
  next
    case (3 r)
    then show ?thesis using letters_last[of r "''xvd''"] by (simp add: sims)
  next
    case (4 r)
    from 4(3) obtain t where t: "dropWhile is_digit r = CHR ''n'' # t" by (auto simp: has_prefix_iff)
    define a where "a = takeWhile is_digit r"
    have r: "r = a @ CHR ''n'' # t" using takeWhile_dropWhile_id[of is_digit r] t by (simp add: a_def)
    have a: "list_all is_digit a" by (auto simp: a_def list_all_iff dest: set_takeWhileD)
    have n: "\<not> is_digit CHR ''n''" by (simp add: is_digit_def)
    from 4(4) t have "digits1 t" by simp
    then have l: "is_digit (last d)" using 4(1) r by (auto simp: digits1_def list_all_iff)
    have p: "part_name d n = ''nvme'' @ (a @ CHR ''n'' # (t @ CHR ''p'' # ?n))"
      unfolding part_name_def using l 4(1) r by simp
    have "takeWhile is_digit (a @ CHR ''n'' # (t @ CHR ''p'' # ?n)) = a"
      "dropWhile is_digit (a @ CHR ''n'' # (t @ CHR ''p'' # ?n)) = CHR ''n'' # (t @ CHR ''p'' # ?n)"
      using takeWhile_digits[OF a n] by blast+
    then show ?thesis unfolding p realDiskRe_def by (simp add: has_prefix_def digits_p)
  qed
qed

theorem partition_not_disk_witness:
  "\<not> realDiskRe ''sda1'' \<and> \<not> realDiskRe ''nvme0n1p2''"
proof -
  have 1: "realDiskRe ''sda''" "realDiskRe ''nvme0n1''"
    by (simp_all add: realDiskRe_def has_prefix_def lower_letters_def digits1_def is_digit_def)
  have "part_name ''sda'' 1 = ''sda1''" "part_name ''nvme0n1'' 2 = ''nvme0n1p2''"
    by code_simp+
  then show ?thesis using partition_not_disk[OF 1(1), of 1] partition_not_disk[OF 1(2), of 2] by simp
qed

section \<open>Disk rates\<close>

lemma sector_rate_close:
  assumes "0 < d" "d \<le> 2 ^ 63"
  shows "rate_close (f_of_u64 w * sectorBytes / seconds d) (512 * unat w) d"
proof -
  obtain a where a: "f_of_u64 w = Fin a" "near (2 powi (-53)) a (of_nat (unat w))" "a = 0 \<and> unat w = 0 \<or> 1 \<le> a" "a \<le> 2 ^ 64"
    using f_of_u64_near by blast
  define b where "b = rnd (a * 512)"
  have a0: "0 \<le> a" using a(3) by auto
  have "a * 512 \<le> 2 ^ 73" "a * 512 \<le> 2 ^ 200" using a(4) by simp_all
  then have b: "Fin a * sectorBytes = Fin b" "b \<le> 2 ^ 73"
    using a0 unfolding b_def by (simp add: sectorBytes_def mkf_small, intro rnd_le_pow)
  have "(2 :: rat) powi (-1022) \<le> 2 powi 0" by (rule powi_mono) simp
  then have nb: "near (2 powi (-53)) b (a * 512)" unfolding b_def using a(3) by (intro near_rnd) auto
  have "near (2 powi (-53)) (a * 512) (of_nat (512 * unat w))" using a(2) by (simp add: near_def del: of_nat_unat)
  from near_trans[OF this nb _ ulp_small(1,2)] have n: "near (3 * 2 powi (-53)) b (of_nat (512 * unat w))" by (simp del: of_nat_unat)
  have b1: "b = 0 \<or> 1 \<le> b" using a(3) rnd_ge_int[of 1 "a * 512"] by (auto simp: b_def)
  have "(2 :: rat) ^ 73 \<le> 2 ^ 100" by (rule power_increasing) auto
  then have "b \<le> 2 ^ 100" using b(2) by linarith
  from over_seconds_near[OF assms n b1 this] show ?thesis
    unfolding a(1) b(1) rate_close_def near_abs by (auto simp: power_int_def power_divide)
qed

text \<open>The busy time over the completed operations.\<close>

lemma latency_near:
  assumes "0 < unat wr + unat ww"
  shows "0 < f_of_u64 wr + f_of_u64 ww \<and> (\<exists>v. f_of_u64 w / (f_of_u64 wr + f_of_u64 ww) = Fin v
    \<and> near (2 powi (-50)) v (of_nat (unat w) / of_nat (unat wr + unat ww)))"
proof -
  obtain a where a: "f_of_u64 w = Fin a" "near (2 powi (-53)) a (of_nat (unat w))" "a = 0 \<or> 1 \<le> a" "a \<le> 2 ^ 64"
    using f_of_u64_near by blast
  obtain x where x: "f_of_u64 wr = Fin x" "near (2 powi (-53)) x (of_nat (unat wr))" "x = 0 \<and> unat wr = 0 \<or> 1 \<le> x" "x \<le> 2 ^ 64"
    using f_of_u64_near by blast
  obtain y where y: "f_of_u64 ww = Fin y" "near (2 powi (-53)) y (of_nat (unat ww))" "y = 0 \<and> unat ww = 0 \<or> 1 \<le> y" "y \<le> 2 ^ 64"
    using f_of_u64_near by blast
  have xy: "1 \<le> x + y" "x + y \<le> 2 ^ 65" using x(3,4) y(3,4) assms by auto
  have "x + y \<le> 2 ^ 200" using xy(2) by simp
  with xy(1) have s: "f_of_u64 wr + f_of_u64 ww = Fin (rnd (x + y))" by (simp add: x(1) y(1) mkf_small)
  have z: "near (2 powi (-53)) (x + y) (of_nat (unat wr + unat ww))" using near_add2[OF x(2) y(2)] by (simp del: of_nat_unat)
  have one: "(2 :: rat) powi (-1022) \<le> 2 powi 0" "(2 :: rat) powi (-30) \<le> 2 powi 0" by (rule powi_mono, simp)+
  have r: "near (2 powi (-53)) (rnd (x + y)) (x + y)" using xy(1) one(1) by (intro near_rnd) auto
  have r1: "1 \<le> rnd (x + y)" "rnd (x + y) \<le> 2 ^ 65" using rnd_ge_int[of 1 "x + y"] rnd_le_pow[OF xy(2)] xy(1) by simp_all
  have "(2 :: rat) ^ 64 \<le> 2 ^ 100" "(2 :: rat) ^ 65 \<le> 2 ^ 70" by (rule power_increasing, simp, simp)+
  then have "a \<le> 2 ^ 100" "rnd (x + y) \<le> 2 ^ 70" "2 powi (-30) \<le> rnd (x + y)" using a(4) r1 one(2) by (auto intro: order.trans)
  moreover have "(0 :: rat) < of_nat (unat wr + unat ww)" using assms by (simp only: of_nat_0_less_iff)
  ultimately have "\<exists>v. Fin a / Fin (rnd (x + y)) = Fin v \<and> near (2 powi (-50)) v (of_nat (unat w) / of_nat (unat wr + unat ww))"
    using float_quotient_near[OF near3[OF a(2) of_nat_0_le_iff] of_nat_0_le_iff a(3) _ z r] by blast
  then show ?thesis using r1(1) unfolding s a(1) by (simp del: of_nat_unat)
qed

lemma disk_io_delta_rates:
  assumes "disk_io_delta name p c = Some r"
  shows "read_bps r = f_of_u64 (sectorsRead c - sectorsRead p) * sectorBytes / seconds (t_sub (dk_at c) (dk_at p))"
    "write_bps r = f_of_u64 (sectorsWritten c - sectorsWritten p) * sectorBytes / seconds (t_sub (dk_at c) (dk_at p))"
    "read_iops r = f_of_u64 (dk_reads c - dk_reads p) / seconds (t_sub (dk_at c) (dk_at p))"
    "write_iops r = f_of_u64 (dk_writes c - dk_writes p) / seconds (t_sub (dk_at c) (dk_at p))"
    "latency_ms r = (let ops = f_of_u64 (dk_reads c - dk_reads p) + f_of_u64 (dk_writes c - dk_writes p)
       in if ops > 0 then f_of_u64 (ioTimeMs c - ioTimeMs p) / ops else 0)"
  using assms by (auto simp: disk_io_delta_def Let_def simp del: f64_ops split: if_splits)

text \<open>C28: a disk seen in two samples, the clock having advanced and its counts of reads and writes not gone back, is
  reported exactly once, with its rates per second over whatever time lies between the samples: operations read
  and written, and bytes, 512 for each sector (sectors modulo \<open>2^64\<close>), each within one part in \<open>2^50\<close> of the exact
  quotient; its latency is, as closely, the busy milliseconds per completed operation, and 0 without operations.\<close>

theorem diskIODeltas_rate:
  assumes "(name, c) \<in> set cur" "distinct (map fst cur)" "map_of prev name = Some p"
    and "d = dk_at c - dk_at p" "0 < d" "d < 2 ^ 63"
    and "dk_reads p \<le> dk_reads c" "reads = unat (dk_reads c) - unat (dk_reads p)"
    and "dk_writes p \<le> dk_writes c" "writes = unat (dk_writes c) - unat (dk_writes p)"
    and "busy = unat (ioTimeMs c - ioTimeMs p)"
  shows "\<exists>r. {r \<in> set (diskIODeltas prev cur). io_device r = name} = {r}
    \<and> rate_close (read_iops r) reads d \<and> rate_close (write_iops r) writes d
    \<and> rate_close (read_bps r) (512 * unat (sectorsRead c - sectorsRead p)) d
    \<and> rate_close (write_bps r) (512 * unat (sectorsWritten c - sectorsWritten p)) d
    \<and> (if reads + writes = 0 then latency_ms r = 0
       else \<exists>v. latency_ms r = Fin v \<and> \<bar>v - of_nat busy / of_nat (reads + writes)\<bar> \<le> of_nat busy / of_nat (reads + writes) / 2 ^ 50)"
proof -
  have s: "t_sub (dk_at c) (dk_at p) = d" using assms(4-6) by (simp add: t_sub_def max_dur_def min_dur_def)
  have "disk_ok p c" using assms(4,5,7,9) by (simp add: disk_ok_def)
  then obtain r where r: "disk_io_delta name p c = Some r" using blk.delta_ok[of name p c] by blast
  then have m: "r \<in> set (diskIODeltas prev cur)" "io_device r = name"
    using assms(1,3) blk.delta_name[OF r] by (auto simp: diskIODeltas_def blk.mem_deltas)
  have "inj_on io_device (set (diskIODeltas prev cur))"
    using blk.deltas_distinct[OF assms(2), of prev] by (simp add: diskIODeltas_def distinct_map)
  with m have u: "{r \<in> set (diskIODeltas prev cur). io_device r = name} = {r}" by (auto dest: inj_onD)
  note rt = disk_io_delta_rates[OF r, unfolded s]
  have n: "unat (dk_reads c - dk_reads p) = reads" "unat (dk_writes c - dk_writes p) = writes"
    using assms(7-10) by (simp_all add: u64_diff)
  have d: "0 < d" "d \<le> 2 ^ 63" using assms(5,6) by simp_all
  have 1: "rate_close (read_iops r) reads d" "rate_close (write_iops r) writes d"
    "rate_close (read_bps r) (512 * unat (sectorsRead c - sectorsRead p)) d"
    "rate_close (write_bps r) (512 * unat (sectorsWritten c - sectorsWritten p)) d"
    unfolding rt n[symmetric] by (rule u64_rate_close[OF d] sector_rate_close[OF d])+
  have 2: "latency_ms r = 0" if "reads + writes = 0"
  proof -
    have "f_of_u64 (dk_reads c - dk_reads p) = Fin 0" "f_of_u64 (dk_writes c - dk_writes p) = Fin 0"
      using that f_of_u64_exact[of "dk_reads c - dk_reads p"] f_of_u64_exact[of "dk_writes c - dk_writes p"] n by simp_all
    then show ?thesis unfolding rt(5) Let_def by (simp add: mkf_small)
  qed
  have 3: "\<exists>v. latency_ms r = Fin v \<and> \<bar>v - of_nat busy / of_nat (reads + writes)\<bar> \<le> of_nat busy / of_nat (reads + writes) / 2 ^ 50"
    if "reads + writes \<noteq> 0"
  proof -
    have "0 < unat (dk_reads c - dk_reads p) + unat (dk_writes c - dk_writes p)" using that n by simp
    from latency_near[OF this, of "ioTimeMs c - ioTimeMs p"] obtain v where
      "0 < f_of_u64 (dk_reads c - dk_reads p) + f_of_u64 (dk_writes c - dk_writes p)"
      "f_of_u64 (ioTimeMs c - ioTimeMs p) / (f_of_u64 (dk_reads c - dk_reads p) + f_of_u64 (dk_writes c - dk_writes p)) = Fin v"
      "near (2 powi (-50)) v (of_nat busy / of_nat (reads + writes))"
      unfolding n assms(11)[symmetric] by blast
    then show ?thesis unfolding rt(5) Let_def near_abs by (auto simp: power_int_def power_divide simp del: f64_ops)
  qed
  from 2 3 have "if reads + writes = 0 then latency_ms r = 0
    else \<exists>v. latency_ms r = Fin v \<and> \<bar>v - of_nat busy / of_nat (reads + writes)\<bar> \<le> of_nat busy / of_nat (reads + writes) / 2 ^ 50"
    by presburger
  with u 1 show ?thesis by blast
qed

definition ex_dk :: "u64 \<Rightarrow> time \<Rightarrow> disk_io_sample" where
  "ex_dk n t = \<lparr>dk_reads = n, dk_writes = n, sectorsRead = 8 * n, sectorsWritten = n, ioTimeMs = 3 * n, dk_at = t\<rparr>"

theorem diskIODeltas_rate_witness:
  "\<exists>r \<in> set (diskIODeltas [(''sda'', ex_dk 100 0)] [(''sda'', ex_dk 200 2500000000)]).
     (\<exists>x. read_bps r = Fin x \<and> \<bar>x - 163840\<bar> \<le> 163840 / 2 ^ 50) \<and> (\<exists>v. latency_ms r = Fin v \<and> \<bar>v - 3 / 2\<bar> \<le> 3 / 2 / 2 ^ 50)"
proof -
  let ?cur = "[(''sda'', ex_dk 200 2500000000)]" and ?prev = "[(''sda'', ex_dk 100 0)]"
  have "\<exists>r. {r \<in> set (diskIODeltas ?prev ?cur). io_device r = ''sda''} = {r}
    \<and> rate_close (read_iops r) 100 2500000000 \<and> rate_close (write_iops r) 100 2500000000
    \<and> rate_close (read_bps r) (512 * unat (sectorsRead (ex_dk 200 2500000000) - sectorsRead (ex_dk 100 0))) 2500000000
    \<and> rate_close (write_bps r) (512 * unat (sectorsWritten (ex_dk 200 2500000000) - sectorsWritten (ex_dk 100 0))) 2500000000
    \<and> (if 100 + 100 = (0 :: nat) then latency_ms r = 0
       else \<exists>v. latency_ms r = Fin v \<and> \<bar>v - of_nat 300 / of_nat (100 + 100)\<bar> \<le> of_nat 300 / of_nat (100 + 100) / 2 ^ 50)"
    by (rule diskIODeltas_rate) (simp_all add: ex_dk_def)
  then obtain r where r: "{r \<in> set (diskIODeltas ?prev ?cur). io_device r = ''sda''} = {r}"
    "rate_close (read_bps r) (512 * unat (sectorsRead (ex_dk 200 2500000000) - sectorsRead (ex_dk 100 0))) 2500000000"
    "\<exists>v. latency_ms r = Fin v \<and> \<bar>v - of_nat 300 / of_nat (100 + 100)\<bar> \<le> of_nat 300 / of_nat (100 + 100) / 2 ^ 50"
    by (elim exE conjE) simp
  have "r \<in> set (diskIODeltas ?prev ?cur)" using r(1) by blast
  moreover have "\<exists>x. read_bps r = Fin x \<and> \<bar>x - 163840\<bar> \<le> 163840 / 2 ^ 50"
    using r(2) by (simp add: ex_dk_def rate_close_def per_second_def)
  moreover have "\<exists>v. latency_ms r = Fin v \<and> \<bar>v - 3 / 2\<bar> \<le> 3 / 2 / 2 ^ 50" using r(3) by simp
  ultimately show ?thesis by blast
qed

end
