(* ===== verification/Processes.thy ===== *)
theory Processes
  imports Rates
begin

text \<open>
  The process table (internal/collector/process.go): parsing of /proc/<pid>/stat and the processes with the
  highest processor share since the previous call. The directory is its list of entry names, \<open>None\<close> when it
  cannot be read; the file of a process is an optional string.
\<close>

section \<open>/proc/<pid>/stat\<close>

fun index_byte :: "char \<Rightarrow> string \<Rightarrow> nat option" where
  "index_byte c [] = None"
| "index_byte c (d # s) = (if d = c then Some 0 else map_option Suc (index_byte c s))"

definition last_index_byte :: "char \<Rightarrow> string \<Rightarrow> nat option" where
  "last_index_byte c s = map_option (\<lambda>i. length s - 1 - i) (index_byte c (rev s))"

text \<open>\<open>None\<close> is the result with \<open>ok = false\<close>.\<close>

definition readProcStat :: "string option \<Rightarrow> (string \<times> u64) option" where
  "readProcStat stat =
     (case stat of
        None \<Rightarrow> None
      | Some line \<Rightarrow>
          (case (index_byte CHR ''('' line, last_index_byte CHR '')'' line) of
             (Some opn, Some cls) \<Rightarrow>
               if cls < opn then None
               else let name = take (cls - (opn + 1)) (drop (opn + 1) line);
                        rest = Fields (drop (cls + 1) line)
                    in if length rest < 13 then None
                       else Some (name, uint_of (rest ! 11) + uint_of (rest ! 12))
           | _ \<Rightarrow> None))"

section \<open>The collector\<close>

definition clockTicksPerSec :: f64 where "clockTicksPerSec = Fin 100"

record proc_sample =
  ps_ticks :: u64
  ps_at :: time

record process_collector =
  procPath :: string
  pc_prev :: "int \<Rightarrow> proc_sample option"

definition NewProcessCollector :: "string \<Rightarrow> process_collector" where
  "NewProcessCollector path = \<lparr>procPath = path, pc_prev = Map.empty\<rparr>"

text \<open>One directory entry: what it adds to the current samples and to the list.\<close>

definition proc_entry :: "(int \<Rightarrow> string option) \<Rightarrow> time \<Rightarrow> (int \<Rightarrow> proc_sample option) \<Rightarrow> string \<Rightarrow>
    (int \<Rightarrow> proc_sample option) \<times> process_info list \<Rightarrow> (int \<Rightarrow> proc_sample option) \<times> process_info list" where
  "proc_entry stat t prev name = (\<lambda>(cur, out).
     (case Atoi name of
        (_, Some _) \<Rightarrow> (cur, out)
      | (pid, None) \<Rightarrow>
          (case readProcStat (stat pid) of
             None \<Rightarrow> (cur, out)
           | Some (comm, tk) \<Rightarrow>
               let cur' = cur(pid \<mapsto> \<lparr>ps_ticks = tk, ps_at = t\<rparr>) in
               (case prev pid of
                  None \<Rightarrow> (cur', out)
                | Some p \<Rightarrow>
                    if tk < ps_ticks p then (cur', out)
                    else let dSeconds = seconds (t_sub t (ps_at p)) in
                      if dSeconds \<le> 0 then (cur', out)
                      else (cur', out @ [\<lparr>p_pid = pid, p_name = comm,
                              cpu_pct = Fin 100 * f_of_u64 (tk - ps_ticks p) / clockTicksPerSec / dSeconds\<rparr>])))))"

definition more_cpu :: "process_info \<Rightarrow> process_info \<Rightarrow> bool" where
  "more_cpu a b = (cpu_pct b < cpu_pct a)"

definition Top :: "(process_info list \<Rightarrow> process_info list) \<Rightarrow> string list option \<Rightarrow> (int \<Rightarrow> string option) \<Rightarrow> time \<Rightarrow> nat
    \<Rightarrow> process_collector \<Rightarrow> process_info list \<times> process_collector" where
  "Top srt dir stat t n p =
     (case dir of
        None \<Rightarrow> ([], p)
      | Some entries \<Rightarrow>
          let (cur, out) = fold (proc_entry stat t (pc_prev p)) entries (Map.empty, []);
              out = srt out
          in (if length out > n then take n out else out, p\<lparr>pc_prev := cur\<rparr>))"

section \<open>Parsing\<close>

lemma index_byte_append: "c \<notin> set a \<Longrightarrow> index_byte c (a @ c # b) = Some (length a)"
  by (induction a) auto

lemma last_index_byte_append: "c \<notin> set b \<Longrightarrow> last_index_byte c (a @ c # b) = Some (length a)"
  by (simp add: last_index_byte_def index_byte_append)

text \<open>The kernel's line: pid, the command in parentheses, then the state and the other columns.\<close>

definition stat_text :: "nat \<Rightarrow> string \<Rightarrow> string list \<Rightarrow> string" where
  "stat_text pid comm cols = nat_digits pid @ '' ('' @ comm @ '')'' @ spaced cols @ [newline]"

lemma Fields_spaced_newline: "list_all is_word ws \<Longrightarrow> Fields (spaced ws @ [newline]) = ws"
proof -
  assume ws: "list_all is_word ws"
  have f: "fields_from w [newline] = (if w = [] then [] else [w])" for w
  proof -
    have "fields_from w ([newline] @ []) = (if w = [] then [] else [w]) @ fields_from [] []"
      by (rule fields_from_blank) (simp_all add: blank_def)
    then show ?thesis by (simp only: append_Nil2) simp
  qed
  have "fields_from w (spaced ws @ [newline]) = (if w = [] then [] else [w]) @ ws" for w
    using ws
  proof (induction ws arbitrary: w)
    case (Cons v ws)
    then have v: "list_all visible v" "v \<noteq> []" by (auto simp: is_word_def)
    have "fields_from w (spaced (v # ws) @ [newline]) = fields_from w ('' '' @ v @ spaced ws @ [newline])"
      by (simp add: spaced_def)
    also have "\<dots> = (if w = [] then [] else [w]) @ fields_from v (spaced ws @ [newline])"
      using fields_from_blank[of "'' ''" w "v @ spaced ws @ [newline]"] fields_from_word[OF v(1), of "[]"]
      by (simp add: blank_def)
    finally show ?case using Cons v(2) by simp
  qed (simp only: spaced_def f list.map concat.simps append_Nil append_Nil2)
  then show ?thesis by (simp add: Fields_def)
qed

lemma digits_no_paren: "CHR ''('' \<notin> set (nat_digits n @ '' '')"
  using nat_digits_digits[of n] by (auto simp: list_all_iff is_digit_def)

text \<open>the name and the ticks of a process come back from its stat line whatever the command is called, blanks,
  newlines and parentheses included.\<close>

theorem readProcStat_kernel:
  assumes "list_all is_word cols" "\<forall>w \<in> set cols. CHR '')'' \<notin> set w" "13 \<le> length cols"
    and "cols ! 11 = num u" "cols ! 12 = num s"
  shows "readProcStat (Some (stat_text pid comm cols)) = Some (comm, u + s)"
proof -
  let ?l = "stat_text pid comm cols"
  have l1: "?l = (nat_digits pid @ '' '') @ CHR ''('' # (comm @ '')'' @ spaced cols @ [newline])"
    by (simp add: stat_text_def)
  have l2: "?l = (nat_digits pid @ '' ('' @ comm) @ CHR '')'' # (spaced cols @ [newline])"
    by (simp add: stat_text_def)
  have "CHR '')'' \<notin> set (spaced cols @ [newline])" using assms(2) by (auto simp: spaced_def)
  then have c: "last_index_byte CHR '')'' ?l = Some (length (nat_digits pid) + 2 + length comm)"
    using last_index_byte_append[of "CHR '')''" "spaced cols @ [newline]" "nat_digits pid @ '' ('' @ comm"] by (simp add: l2)
  have o: "index_byte CHR ''('' ?l = Some (length (nat_digits pid) + 1)"
    using index_byte_append[OF digits_no_paren[of pid]] by (simp add: l1)
  have n: "take (length (nat_digits pid) + 2 + length comm - (length (nat_digits pid) + 1 + 1)) (drop (length (nat_digits pid) + 1 + 1) ?l) = comm"
    by (simp add: stat_text_def)
  have r: "drop (length (nat_digits pid) + 2 + length comm + 1) ?l = spaced cols @ [newline]"
    by (simp add: stat_text_def eval_nat_numeral)
  have lt: "\<not> length (nat_digits pid) + 2 + length comm < length (nat_digits pid) + 1" by simp
  show ?thesis
    unfolding readProcStat_def option.case o c prod.case n r Let_def Fields_spaced_newline[OF assms(1)]
    using lt assms(3-5) by simp
qed

theorem readProcStat_kernel_witness:
  "readProcStat (Some (stat_text 42 ''a) (b'' [''S'', ''0'', ''0'', ''0'', ''0'', ''0'', ''0'', ''0'', ''0'', ''0'', ''0'', num 7, num 5])) = Some (''a) (b'', 12)"
proof -
  have "num 7 = ''7''" "num 5 = ''5''" by code_simp+
  then show ?thesis
    by (subst readProcStat_kernel[of _ 7 5]) (simp_all add: is_word_def visible_def)
qed

section \<open>The list\<close>

text \<open>What one process contributes.\<close>

definition cand :: "(int \<Rightarrow> string option) \<Rightarrow> time \<Rightarrow> (int \<Rightarrow> proc_sample option) \<Rightarrow> int \<Rightarrow> process_info option" where
  "cand stat t prev pid =
     (case (readProcStat (stat pid), prev pid) of
        (Some (comm, tk), Some p) \<Rightarrow>
          if ps_ticks p \<le> tk \<and> ps_at p < t
          then Some \<lparr>p_pid = pid, p_name = comm,
                 cpu_pct = Fin 100 * f_of_u64 (tk - ps_ticks p) / clockTicksPerSec / seconds (t_sub t (ps_at p))\<rparr>
          else None
      | _ \<Rightarrow> None)"

definition sample_of :: "(int \<Rightarrow> string option) \<Rightarrow> time \<Rightarrow> int \<Rightarrow> proc_sample option" where
  "sample_of stat t pid = map_option (\<lambda>(comm, tk). \<lparr>ps_ticks = tk, ps_at = t\<rparr>) (readProcStat (stat pid))"

definition pid_of :: "string \<Rightarrow> int option" where
  "pid_of name = (case Atoi name of (pid, None) \<Rightarrow> Some pid | _ \<Rightarrow> None)"

lemma proc_entry_cand:
  "proc_entry stat t prev name (cur, out) =
     (case pid_of name of
        None \<Rightarrow> (cur, out)
      | Some pid \<Rightarrow> ((case sample_of stat t pid of None \<Rightarrow> cur | Some s \<Rightarrow> cur(pid \<mapsto> s)),
                     out @ (case cand stat t prev pid of None \<Rightarrow> [] | Some r \<Rightarrow> [r])))"
  by (auto simp: proc_entry_def pid_of_def sample_of_def cand_def Let_def seconds_sub_le0 not_less not_le simp del: f64_ops
      split: prod.splits option.splits)

lemma fold_proc_entry:
  "fold (proc_entry stat t prev) es (cur, out) =
     (fold (\<lambda>pid cur. case sample_of stat t pid of None \<Rightarrow> cur | Some s \<Rightarrow> cur(pid \<mapsto> s)) (List.map_filter pid_of es) cur,
      out @ List.map_filter (cand stat t prev) (List.map_filter pid_of es))"
proof (induction es arbitrary: cur out)
  case (Cons e es)
  then show ?case by (cases "pid_of e") (auto simp: proc_entry_cand List.map_filter_simps split: option.splits)
qed (simp add: List.map_filter_simps)

lemma fold_samples:
  "fold (\<lambda>pid cur. case sample_of stat t pid of None \<Rightarrow> cur | Some s \<Rightarrow> cur(pid \<mapsto> s)) pids cur pid =
     (if pid \<in> set pids \<and> sample_of stat t pid \<noteq> None then sample_of stat t pid else cur pid)"
  by (induction pids arbitrary: cur) (auto split: option.splits)

lemma cand_Some:
  "cand stat t prev pid = Some r \<longleftrightarrow> (\<exists>comm tk p. readProcStat (stat pid) = Some (comm, tk) \<and> prev pid = Some p
     \<and> ps_ticks p \<le> tk \<and> ps_at p < t \<and> r = \<lparr>p_pid = pid, p_name = comm,
       cpu_pct = Fin 100 * f_of_u64 (tk - ps_ticks p) / clockTicksPerSec / seconds (t_sub t (ps_at p))\<rparr>)"
  by (auto simp: cand_def simp del: f64_ops split: option.splits if_splits)

lemma cand_pid: "cand stat t prev pid = Some r \<Longrightarrow> p_pid r = pid"
  by (auto simp: cand_def split: option.splits if_splits)

lemma cand_fin: "cand stat t prev pid = Some r \<Longrightarrow> \<exists>v. cpu_pct r = Fin v \<and> 0 \<le> v"
proof -
  assume "cand stat t prev pid = Some r"
  then obtain comm tk and p :: proc_sample where p0: "ps_at p < t" "r = \<lparr>p_pid = pid, p_name = comm,
       cpu_pct = Fin 100 * f_of_u64 (tk - ps_ticks p) / clockTicksPerSec / seconds (t_sub t (ps_at p))\<rparr>"
    unfolding cand_Some by blast
  then have p: "ps_at p < t" "cpu_pct r = Fin 100 * f_of_u64 (tk - ps_ticks p) / clockTicksPerSec / seconds (t_sub t (ps_at p))"
    by (simp_all only: process_info.simps)
  obtain x where x: "seconds (t_sub t (ps_at p)) = Fin x" "2 powi (-30) \<le> x"
    using seconds_sub[of t "ps_at p"] p(1) by auto
  obtain a where a: "f_of_u64 (tk - ps_ticks p) = Fin a" "0 \<le> a" "a \<le> 2 ^ 64" using f_of_u64_le by blast
  have n: "(2 :: rat) ^ 64 * 128 = 2 ^ 71" "(2 :: rat) ^ 71 \<le> 2 ^ 200" by simp_all
  define b where "b = rnd (100 * a)"
  have h: "100 * a \<le> 2 ^ 71" "0 \<le> 100 * a" using a(2,3) n(1) by simp_all
  then have "\<bar>100 * a\<bar> \<le> 2 ^ 200" using n(2) by linarith
  then have m: "Fin 100 * f_of_u64 (tk - ps_ticks p) = Fin b" using a(1) by (simp add: mkf_small b_def)
  have b: "0 \<le> b" "b \<le> 2 ^ 71" unfolding b_def using rnd_nonneg[OF h(2)] rnd_le_pow[OF h(1)] by simp_all
  have c: "0 \<le> b / 100" "b / 100 \<le> 2 ^ 71" using b by simp_all
  then have "\<bar>b / 100\<bar> \<le> 2 ^ 200" by simp
  then have d: "Fin b / clockTicksPerSec = Fin (rnd (b / 100))" by (simp add: clockTicksPerSec_def mkf_small)
  have "0 \<le> rnd (b / 100)" "rnd (b / 100) \<le> 2 ^ 100" using rnd_nonneg[OF c(1)] rnd_le_pow[OF c(2)] by simp_all
  from rate_fin[OF x(2) this] show ?thesis unfolding p(2) m d x(1) .
qed

lemma more_cpu_weak: "weak_order_on (\<lambda>r. is_fin (cpu_pct r)) more_cpu"
  unfolding weak_order_on_def more_cpu_def
proof (intro conjI allI impI)
  fix x y :: process_info
  assume "is_fin (cpu_pct x)" "is_fin (cpu_pct y)" "cpu_pct y < cpu_pct x"
  then show "\<not> cpu_pct x < cpu_pct y" by (cases "cpu_pct x"; cases "cpu_pct y") auto
next
  fix x y z :: process_info
  assume "is_fin (cpu_pct x)" "is_fin (cpu_pct y)" "is_fin (cpu_pct z)" "\<not> cpu_pct x < cpu_pct y" "\<not> cpu_pct y < cpu_pct z"
  then show "\<not> cpu_pct x < cpu_pct z" by (cases "cpu_pct x"; cases "cpu_pct y"; cases "cpu_pct z") auto
qed

interpretation procs: slice_sort "\<lambda>r. is_fin (cpu_pct r)" more_cpu "sort_by more_cpu"
  by (rule sort_by_slice_sort[OF more_cpu_weak])

definition eligible :: "string list \<Rightarrow> (int \<Rightarrow> string option) \<Rightarrow> time \<Rightarrow> process_collector \<Rightarrow> process_info set" where
  "eligible entries stat t p = {r. \<exists>e \<in> set entries. \<exists>pid. pid_of e = Some pid \<and> cand stat t (pc_prev p) pid = Some r}"

lemma Top_eq:
  "Top srt (Some entries) stat t n p =
     (take n (srt (List.map_filter (cand stat t (pc_prev p)) (List.map_filter pid_of entries))),
      p\<lparr>pc_prev := \<lambda>pid. if pid \<in> set (List.map_filter pid_of entries) then sample_of stat t pid else None\<rparr>)"
proof -
  have "(\<lambda>pid. if pid \<in> set (List.map_filter pid_of entries) \<and> sample_of stat t pid \<noteq> None then sample_of stat t pid else None)
      = (\<lambda>pid. if pid \<in> set (List.map_filter pid_of entries) then sample_of stat t pid else None)" by auto
  then show ?thesis
    by (auto simp: Top_def Let_def fold_proc_entry fold_samples[abs_def] fun_eq_iff[symmetric] intro!: process_collector.equality ext)
qed

text \<open>C29: the top list: at most \<open>n\<close> of the processes that were there at the previous call with no more ticks than now, each
  once, by descending share, and no process left out had a larger share than one listed; the samples kept for the next
  call are those of the processes that exist now, so an exited process leaves nothing behind.\<close>

theorem Top_spec:
  assumes "slice_sort (\<lambda>r. is_fin (cpu_pct r)) more_cpu srt" "distinct (List.map_filter pid_of entries)"
    and "Top srt (Some entries) stat t n p = (out, p')"
  shows "set out \<subseteq> eligible entries stat t p \<and> distinct (map p_pid out) \<and>
    length out = min n (card (eligible entries stat t p)) \<and>
    sorted_wrt (\<lambda>a b. \<not> cpu_pct a < cpu_pct b) out \<and>
    (\<forall>a \<in> set out. \<forall>b \<in> eligible entries stat t p - set out. \<not> cpu_pct a < cpu_pct b) \<and>
    (\<forall>pid. pc_prev p' pid = (if \<exists>e \<in> set entries. pid_of e = Some pid then sample_of stat t pid else None))"
proof -
  define cs where "cs = List.map_filter (cand stat t (pc_prev p)) (List.map_filter pid_of entries)"
  have el: "set cs = eligible entries stat t p"
    unfolding cs_def eligible_def set_eq_iff map_filter_mem Bex_def mem_Collect_eq by blast
  have dc: "distinct (map p_pid cs)"
    unfolding cs_def by (rule map_filter_distinct[of "\<lambda>x. x"]) (simp_all add: assms(2) cand_pid)
  have fin: "list_all (\<lambda>r. is_fin (cpu_pct r)) cs"
    using cand_fin by (fastforce simp: list_all_iff cs_def map_filter_mem)
  note S = slice_sort.srt_set[OF assms(1)] slice_sort.srt_length[OF assms(1)] slice_sort.srt_distinct_map[OF assms(1)]
  have out: "out = take n (srt cs)" and p': "pc_prev p' = (\<lambda>pid. if pid \<in> set (List.map_filter pid_of entries) then sample_of stat t pid else None)"
    using assms(3) unfolding Top_eq cs_def by auto
  have "sorted_wrt (\<lambda>a b. \<not> more_cpu b a) (srt cs)" by (rule slice_sort.srt_ordered[OF assms(1) fin])
  then have so: "sorted_wrt (\<lambda>a b. \<not> cpu_pct a < cpu_pct b) out"
    unfolding out by (auto simp: more_cpu_def intro: sorted_wrt_take)
  have "length cs = card (eligible entries stat t p)"
    using dc el by (metis distinct_card distinct_map)
  then have len: "length out = min n (card (eligible entries stat t p))" by (simp add: out S)
  have "\<not> cpu_pct a < cpu_pct b" if "a \<in> set out" "b \<in> eligible entries stat t p - set out" for a b
  proof -
    have "b \<in> set (drop n (srt cs))" using that(2) el S(1)[of cs] out
      by (metis Diff_iff Un_iff append_take_drop_id set_append)
    then show ?thesis using slice_sort.srt_take[OF assms(1) fin, of a n b] that(1) unfolding out more_cpu_def by blast
  qed
  moreover have "set out \<subseteq> eligible entries stat t p" unfolding out using el S(1)[of cs] by (auto dest: in_set_takeD)
  moreover have "distinct (map p_pid out)" using S(3)[of p_pid cs] dc unfolding out by (simp add: take_map[symmetric] distinct_take)
  ultimately show ?thesis using so len p' by (auto simp: map_filter_mem)
qed

definition ex_procs :: process_collector where
  "ex_procs = \<lparr>procPath = ''/proc'', pc_prev = (\<lambda>pid. if pid = 7 then Some \<lparr>ps_ticks = 0, ps_at = 0\<rparr> else None)\<rparr>"

theorem Top_spec_witness:
  "set (fst (Top (sort_by more_cpu) (Some [''7'', ''self'']) (\<lambda>_. None) 5 3 ex_procs)) \<subseteq> eligible [''7'', ''self''] (\<lambda>_. None) 5 ex_procs"
proof -
  have "pid_of ''7'' = Some 7" "pid_of ''self'' = None"
    by (simp_all add: pid_of_def ParseInt64_def ParseUint_def digit_val_def)
  then have "List.map_filter pid_of [''7'', ''self''] = [7]" by (simp add: List.map_filter_simps)
  then have "distinct (List.map_filter pid_of [''7'', ''self''])" by simp
  from Top_spec[OF procs.slice_sort_axioms this surjective_pairing] show ?thesis by (rule conjunct1)
qed

end
