(* ===== verification/Alarms.thy ===== *)
theory Alarms
  imports Metrics
begin

text \<open>
  Package \<open>alarm\<close> (internal/alarm/alarm.go): which alarms a snapshot raises, and since when each has
  been firing. One goroutine evaluates; readers copy the last list under the lock.
\<close>

section \<open>The evaluator\<close>

record thresholds =
  CPUWarn :: f64
  CPUCrit :: f64
  RAMCrit :: f64
  DiskWarn :: f64
  DiskCrit :: f64
  IOWaitCrit :: f64
  StealWarn :: f64
  StealCrit :: f64
  DiskLatencyCrit :: f64
  TempWarn :: f64
  TempCrit :: f64

definition DefaultThresholds :: thresholds where
  "DefaultThresholds = \<lparr>CPUWarn = Fin 80, CPUCrit = Fin 90, RAMCrit = Fin 90, DiskWarn = Fin 85, DiskCrit = Fin 95,
     IOWaitCrit = Fin 20, StealWarn = Fin 5, StealCrit = Fin 15, DiskLatencyCrit = Fin 50,
     TempWarn = Fin 70, TempCrit = Fin 85\<rparr>"

record alarm =
  al_id :: string
  al_metric :: string
  al_severity :: string
  al_message :: string
  al_value :: f64
  al_since :: time

record evaluator =
  ev_th :: thresholds
  ev_active :: "(string \<times> alarm) list"
  ev_last :: "alarm list"

definition NewEvaluator :: "thresholds \<Rightarrow> evaluator" where
  "NewEvaluator th = \<lparr>ev_th = th, ev_active = [], ev_last = []\<rparr>"

definition Latest :: "evaluator \<Rightarrow> alarm list" where
  "Latest e = ev_last e"

text \<open>The calls of \<open>raise\<close> one evaluation makes, in order, each with its arguments.\<close>

type_synonym raise_call = "string \<times> string \<times> string \<times> string \<times> f64"

definition cpu_calls :: "thresholds \<Rightarrow> cpu \<Rightarrow> raise_call list" where
  "cpu_calls th c =
     (if usage_pct c \<ge> CPUCrit th then [(''cpu.usage'', ''cpu.usage_pct'', ''crit'', ''CPU muy alto'', usage_pct c)]
      else if usage_pct c \<ge> CPUWarn th then [(''cpu.usage'', ''cpu.usage_pct'', ''warn'', ''CPU alto'', usage_pct c)]
      else [])"

definition ram_calls :: "thresholds \<Rightarrow> ram \<Rightarrow> raise_call list" where
  "ram_calls th r =
     (if ram_used_pct r \<ge> RAMCrit th then [(''ram.used'', ''ram.used_pct'', ''crit'', ''RAM muy alta'', ram_used_pct r)] else [])"

definition iowait_calls :: "thresholds \<Rightarrow> cpu \<Rightarrow> raise_call list" where
  "iowait_calls th c =
     (if iowait_pct c \<ge> IOWaitCrit th
      then [(''cpu.iowait'', ''cpu.iowait_pct'', ''crit'', ''iowait alto (posible cuello de botella de disco)'', iowait_pct c)]
      else [])"

definition steal_calls :: "thresholds \<Rightarrow> cpu \<Rightarrow> raise_call list" where
  "steal_calls th c =
     (if steal_pct c \<ge> StealCrit th
      then [(''cpu.steal'', ''cpu.steal_pct'', ''crit'', ''CPU robada por el hypervisor'', steal_pct c)]
      else if steal_pct c \<ge> StealWarn th
      then [(''cpu.steal'', ''cpu.steal_pct'', ''warn'', ''CPU robada por el hypervisor'', steal_pct c)]
      else [])"

definition disk_id :: "disk \<Rightarrow> string" where
  "disk_id d = ''disk.'' @ d_mount d @ ''.used''"

definition disk_calls :: "thresholds \<Rightarrow> disk \<Rightarrow> raise_call list" where
  "disk_calls th d =
     (if d_used_pct d \<ge> DiskCrit th
      then [(disk_id d, ''disk.used_pct'', ''crit'', ''Disco '' @ d_mount d @ '' casi lleno'', d_used_pct d)]
      else if d_used_pct d \<ge> DiskWarn th
      then [(disk_id d, ''disk.used_pct'', ''warn'', ''Disco '' @ d_mount d @ '' alto'', d_used_pct d)]
      else [])"

definition io_id :: "disk_io \<Rightarrow> string" where
  "io_id io = ''diskio.'' @ io_device io @ ''.latency''"

definition io_calls :: "thresholds \<Rightarrow> disk_io \<Rightarrow> raise_call list" where
  "io_calls th io =
     (if latency_ms io \<ge> DiskLatencyCrit th
      then [(io_id io, ''disk_io.latency_ms'', ''crit'', ''Latencia de disco alta en '' @ io_device io, latency_ms io)]
      else [])"

definition temp_id :: "temp \<Rightarrow> string" where
  "temp_id t = ''temp.'' @ zone t"

definition temp_calls :: "thresholds \<Rightarrow> temp \<Rightarrow> raise_call list" where
  "temp_calls th t =
     (if \<not> is_primary_cpu t then []
      else if celsius t \<ge> TempCrit th
      then [(temp_id t, ''temp.celsius'', ''crit'', ''Temperatura de CPU muy alta'', celsius t)]
      else if celsius t \<ge> TempWarn th
      then [(temp_id t, ''temp.celsius'', ''warn'', ''Temperatura de CPU elevada'', celsius t)]
      else [])"

definition calls :: "thresholds \<Rightarrow> metrics \<Rightarrow> raise_call list" where
  "calls th m = cpu_calls th (m_cpu m) @ ram_calls th (m_ram m) @ iowait_calls th (m_cpu m) @ steal_calls th (m_cpu m)
     @ concat (map (disk_calls th) (m_disks m)) @ concat (map (io_calls th) (m_disk_io m))
     @ concat (map (temp_calls th) (m_temp m))"

definition raise_alarm :: "time \<Rightarrow> (string \<times> alarm) list \<Rightarrow> raise_call \<Rightarrow> (string \<times> alarm) list \<Rightarrow> (string \<times> alarm) list" where
  "raise_alarm t active call nxt =
     (case call of (uid, metric, sev, msg, v) \<Rightarrow>
        (case map_of active uid of
           Some a \<Rightarrow> AList.update uid (a\<lparr>al_severity := sev, al_message := msg, al_value := v\<rparr>) nxt
         | None \<Rightarrow> AList.update uid
             \<lparr>al_id = uid, al_metric = metric, al_severity = sev, al_message = msg, al_value = v, al_since = t\<rparr> nxt))"

definition Evaluate :: "metrics \<Rightarrow> evaluator \<Rightarrow> evaluator" where
  "Evaluate m e =
     (let nxt = foldl (\<lambda>n c. raise_alarm (m_time m) (ev_active e) c n) [] (calls (ev_th e) m)
      in e\<lparr>ev_active := nxt, ev_last := map snd nxt\<rparr>)"

section \<open>One evaluation\<close>

definition raised :: "thresholds \<Rightarrow> metrics \<Rightarrow> string set" where
  "raised th m = fst ` set (calls th m)"

lemma raise_alarm_lookup:
  "map_of (raise_alarm t active (uid, metric, sev, msg, v) nxt) =
     (map_of nxt)(uid \<mapsto> (case map_of active uid of
        Some a \<Rightarrow> a\<lparr>al_severity := sev, al_message := msg, al_value := v\<rparr>
      | None \<Rightarrow> \<lparr>al_id = uid, al_metric = metric, al_severity = sev, al_message = msg, al_value = v, al_since = t\<rparr>))"
  by (auto simp: raise_alarm_def update_conv' split: option.split)

lemma raise_alarm_distinct: "distinct (map fst nxt) \<Longrightarrow> distinct (map fst (raise_alarm t active c nxt))"
  by (auto simp: raise_alarm_def distinct_update split: prod.split option.split)

definition raised_as :: "time \<Rightarrow> (string \<times> alarm) list \<Rightarrow> raise_call \<Rightarrow> alarm" where
  "raised_as t active c = (case c of (uid, metric, sev, msg, v) \<Rightarrow>
     (case map_of active uid of
        Some a \<Rightarrow> a\<lparr>al_severity := sev, al_message := msg, al_value := v\<rparr>
      | None \<Rightarrow> \<lparr>al_id = uid, al_metric = metric, al_severity = sev, al_message = msg, al_value = v, al_since = t\<rparr>))"

lemma fold_raise:
  "map_of (foldl (\<lambda>n c. raise_alarm t active c n) nxt cs) uid =
     (case find (\<lambda>c. fst c = uid) (rev cs) of
        Some c \<Rightarrow> Some (raised_as t active c) | None \<Rightarrow> map_of nxt uid)"
proof (induction cs rule: rev_induct)
  case (snoc c cs)
  obtain i me se ms v where c: "c = (i, me, se, ms, v)" by (metis surj_pair)
  from snoc show ?case by (simp add: c raise_alarm_lookup raised_as_def)
qed simp

lemma fold_raise_distinct:
  "distinct (map fst nxt) \<Longrightarrow> distinct (map fst (foldl (\<lambda>n c. raise_alarm t active c n) nxt cs))"
  by (induction cs arbitrary: nxt) (auto simp: raise_alarm_distinct)

lemma Evaluate_lookup:
  "map_of (ev_active (Evaluate m e)) uid =
     map_option (raised_as (m_time m) (ev_active e)) (find (\<lambda>c. fst c = uid) (rev (calls (ev_th e) m)))"
  by (simp add: Evaluate_def Let_def fold_raise split: option.split)

lemma Evaluate_raised: "map_of (ev_active (Evaluate m e)) uid \<noteq> None \<longleftrightarrow> uid \<in> raised (ev_th e) m"
proof -
  have "find (\<lambda>c. fst c = uid) (rev (calls (ev_th e) m)) \<noteq> None \<longleftrightarrow> uid \<in> raised (ev_th e) m"
    by (force simp: find_None_mem raised_def)
  then show ?thesis by (simp add: Evaluate_lookup)
qed

lemma Evaluate_th [simp]: "ev_th (Evaluate m e) = ev_th e"
  by (simp add: Evaluate_def Let_def)

lemma Evaluate_last: "ev_last (Evaluate m e) = map snd (ev_active (Evaluate m e))"
  by (simp add: Evaluate_def Let_def)

lemma raised_as_simps [simp]:
  "al_severity (raised_as t active (i, me, se, ms, v)) = se"
  "al_value (raised_as t active (i, me, se, ms, v)) = v"
  "al_since (raised_as t active (i, me, se, ms, v)) = (case map_of active i of Some a \<Rightarrow> al_since a | None \<Rightarrow> t)"
  by (auto simp: raised_as_def split: option.split)

definition active_ok :: "(string \<times> alarm) list \<Rightarrow> bool" where
  "active_ok act \<longleftrightarrow> distinct (map fst act) \<and> (\<forall>(i, a) \<in> set act. al_id a = i)"

lemma Evaluate_ok: "active_ok (ev_active e) \<Longrightarrow> active_ok (ev_active (Evaluate m e))"
proof -
  assume ok: "active_ok (ev_active e)"
  let ?n = "ev_active (Evaluate m e)"
  have d: "distinct (map fst ?n)" by (simp add: Evaluate_def Let_def fold_raise_distinct)
  have "al_id a = i" if m: "(i, a) \<in> set ?n" for i a
  proof -
    have "map_of ?n i = Some a" using d m by (rule map_of_is_SomeI)
    then obtain c where c: "find (\<lambda>c. fst c = i) (rev (calls (ev_th e) m)) = Some c" "a = raised_as (m_time m) (ev_active e) c"
      by (auto simp: Evaluate_lookup)
    have "fst c = i" using find_Some_iff_mem[OF c(1)] by simp
    then show ?thesis using ok c(2)
      by (cases c) (auto simp: raised_as_def active_ok_def dest!: map_of_SomeD split: option.split)
  qed
  with d show ?thesis by (auto simp: active_ok_def)
qed

section \<open>What an evaluation reports\<close>

definition level :: "f64 \<Rightarrow> f64 option \<Rightarrow> f64 \<Rightarrow> string option" where
  "level crit warn v =
     (if v \<ge> crit then Some ''crit''
      else case warn of Some w \<Rightarrow> if v \<ge> w then Some ''warn'' else None | None \<Rightarrow> None)"

text \<open>The alarms a snapshot calls for: id, severity and value.\<close>

definition alarm_spec :: "thresholds \<Rightarrow> metrics \<Rightarrow> (string \<times> string \<times> f64) set" where
  "alarm_spec th m =
     {(''cpu.usage'', s, usage_pct (m_cpu m)) |s. level (CPUCrit th) (Some (CPUWarn th)) (usage_pct (m_cpu m)) = Some s} \<union>
     {(''ram.used'', s, ram_used_pct (m_ram m)) |s. level (RAMCrit th) None (ram_used_pct (m_ram m)) = Some s} \<union>
     {(''cpu.iowait'', s, iowait_pct (m_cpu m)) |s. level (IOWaitCrit th) None (iowait_pct (m_cpu m)) = Some s} \<union>
     {(''cpu.steal'', s, steal_pct (m_cpu m)) |s. level (StealCrit th) (Some (StealWarn th)) (steal_pct (m_cpu m)) = Some s} \<union>
     {(''disk.'' @ d_mount d @ ''.used'', s, d_used_pct d) |d s. d \<in> set (m_disks m) \<and>
        level (DiskCrit th) (Some (DiskWarn th)) (d_used_pct d) = Some s} \<union>
     {(''diskio.'' @ io_device d @ ''.latency'', s, latency_ms d) |d s. d \<in> set (m_disk_io m) \<and>
        level (DiskLatencyCrit th) None (latency_ms d) = Some s} \<union>
     {(''temp.'' @ zone z, s, celsius z) |z s. z \<in> set (m_temp m) \<and> is_primary_cpu z \<and>
        level (TempCrit th) (Some (TempWarn th)) (celsius z) = Some s}"

definition call_view :: "raise_call \<Rightarrow> string \<times> string \<times> f64" where
  "call_view c = (case c of (uid, me, se, ms, v) \<Rightarrow> (uid, se, v))"

lemmas call_defs = cpu_calls_def ram_calls_def iowait_calls_def steal_calls_def disk_calls_def io_calls_def temp_calls_def

lemma calls_view:
  "call_view ` set (cpu_calls th c) = {(''cpu.usage'', s, usage_pct c) |s. level (CPUCrit th) (Some (CPUWarn th)) (usage_pct c) = Some s}"
  "call_view ` set (ram_calls th r) = {(''ram.used'', s, ram_used_pct r) |s. level (RAMCrit th) None (ram_used_pct r) = Some s}"
  "call_view ` set (iowait_calls th c) = {(''cpu.iowait'', s, iowait_pct c) |s. level (IOWaitCrit th) None (iowait_pct c) = Some s}"
  "call_view ` set (steal_calls th c) = {(''cpu.steal'', s, steal_pct c) |s. level (StealCrit th) (Some (StealWarn th)) (steal_pct c) = Some s}"
  "call_view ` set (disk_calls th d) = {(disk_id d, s, d_used_pct d) |s. level (DiskCrit th) (Some (DiskWarn th)) (d_used_pct d) = Some s}"
  "call_view ` set (io_calls th i) = {(io_id i, s, latency_ms i) |s. level (DiskLatencyCrit th) None (latency_ms i) = Some s}"
  "call_view ` set (temp_calls th z) = {(temp_id z, s, celsius z) |s. is_primary_cpu z \<and> level (TempCrit th) (Some (TempWarn th)) (celsius z) = Some s}"
  by (auto simp: call_defs call_view_def level_def)

lemma calls_spec: "call_view ` set (calls th m) = alarm_spec th m"
proof -
  have u: "call_view ` set (concat (map f xs)) = (\<Union>x \<in> set xs. call_view ` set (f x))" for f and xs :: "'a list"
    by auto
  show ?thesis
    unfolding calls_def set_append image_Un u calls_view alarm_spec_def disk_id_def io_id_def temp_id_def by blast
qed

lemma concat_ids:
  assumes "\<forall>x \<in> set xs. map fst (f x) = [] \<or> map fst (f x) = [g x]" "distinct (map g xs)"
  shows "distinct (map fst (concat (map f xs))) \<and> set (map fst (concat (map f xs))) \<subseteq> g ` set xs"
  using assms
proof (induction xs)
  case (Cons x xs)
  then have "distinct (map fst (concat (map f xs))) \<and> set (map fst (concat (map f xs))) \<subseteq> g ` set xs" by simp
  moreover have "map fst (concat (map f (x # xs))) = map fst (f x) @ map fst (concat (map f xs))" by simp
  moreover have "g x \<notin> g ` set xs" using Cons.prems(2) by auto
  ultimately show ?case using Cons.prems(1) by (auto simp del: map_concat)
qed simp

definition names_distinct :: "metrics \<Rightarrow> bool" where
  "names_distinct m \<longleftrightarrow> distinct (map d_mount (m_disks m)) \<and> distinct (map io_device (m_disk_io m)) \<and> distinct (map zone (m_temp m))"

lemma calls_distinct:
  assumes "names_distinct m"
  shows "distinct (map fst (calls th m))"
proof -
  have "distinct (map disk_id ds)" if "distinct (map d_mount ds)" for ds
    using that by (auto simp: distinct_map inj_on_def disk_id_def)
  then have d: "distinct (map fst (concat (map (disk_calls th) (m_disks m)))) \<and>
      set (map fst (concat (map (disk_calls th) (m_disks m)))) \<subseteq> disk_id ` set (m_disks m)"
    using assms by (intro concat_ids) (auto simp: disk_calls_def names_distinct_def)
  have "distinct (map io_id ds)" if "distinct (map io_device ds)" for ds
    using that by (auto simp: distinct_map inj_on_def io_id_def)
  then have i: "distinct (map fst (concat (map (io_calls th) (m_disk_io m)))) \<and>
      set (map fst (concat (map (io_calls th) (m_disk_io m)))) \<subseteq> io_id ` set (m_disk_io m)"
    using assms by (intro concat_ids) (auto simp: io_calls_def names_distinct_def)
  have "distinct (map temp_id ds)" if "distinct (map zone ds)" for ds
    using that by (auto simp: distinct_map inj_on_def temp_id_def)
  then have z: "distinct (map fst (concat (map (temp_calls th) (m_temp m)))) \<and>
      set (map fst (concat (map (temp_calls th) (m_temp m)))) \<subseteq> temp_id ` set (m_temp m)"
    using assms by (intro concat_ids) (auto simp: temp_calls_def names_distinct_def)
  let ?fixed = "map fst (cpu_calls th (m_cpu m) @ ram_calls th (m_ram m) @ iowait_calls th (m_cpu m) @ steal_calls th (m_cpu m))"
  have f: "distinct ?fixed" "set ?fixed \<subseteq> {''cpu.usage'', ''ram.used'', ''cpu.iowait'', ''cpu.steal''}"
    by (auto simp: cpu_calls_def ram_calls_def iowait_calls_def steal_calls_def)
  have ne: "disk_id d \<noteq> io_id x" "disk_id d \<noteq> temp_id y" "io_id x \<noteq> temp_id y" for d x y
    by (simp_all add: disk_id_def io_id_def temp_id_def)
  have nf: "disk_id d \<notin> set ?fixed" "io_id x \<notin> set ?fixed" "temp_id y \<notin> set ?fixed" for d x y
    using f(2) by (auto simp: disk_id_def io_id_def temp_id_def)
  define F D I Z where "F = ?fixed" and "D = map fst (concat (map (disk_calls th) (m_disks m)))"
    and "I = map fst (concat (map (io_calls th) (m_disk_io m)))" and "Z = map fst (concat (map (temp_calls th) (m_temp m)))"
  note d = d[folded D_def] and i = i[folded I_def] and z = z[folded Z_def] and f = f[folded F_def] and nf = nf[folded F_def]
  have "set F \<inter> set D = {}" "set F \<inter> set I = {}" "set F \<inter> set Z = {}"
    using d i z nf by blast+
  moreover have "set D \<inter> set I = {}" "set D \<inter> set Z = {}" "set I \<inter> set Z = {}"
    using d i z ne by (blast dest: sym)+
  ultimately have "distinct (F @ D @ I @ Z)" using d i z f(1) by auto
  moreover have "map fst (calls th m) = F @ D @ I @ Z"
    by (simp add: calls_def F_def D_def I_def Z_def)
  ultimately show ?thesis by simp
qed


lemma find_unique_call:
  assumes "distinct (map fst cs)" "c \<in> set cs"
  shows "find (\<lambda>d. fst d = fst c) (rev cs) = Some c"
  using assms by (intro find_unique[where g = fst]) (auto simp: rev_map[symmetric])

lemma Evaluate_spec:
  assumes "names_distinct m" and "active_ok (ev_active e)"
  shows "(\<lambda>a. (al_id a, al_severity a, al_value a)) ` set (Latest (Evaluate m e)) = alarm_spec (ev_th e) m
    \<and> distinct (map al_id (Latest (Evaluate m e)))"
proof -
  let ?n = "ev_active (Evaluate m e)" and ?cs = "calls (ev_th e) m"
  have ok: "active_ok ?n" using Evaluate_ok[OF assms(2)] .
  then have dn: "distinct (map fst ?n)" and ids: "\<forall>(i, a) \<in> set ?n. al_id a = i" by (auto simp: active_ok_def)
  have dc: "distinct (map fst ?cs)" using calls_distinct[OF assms(1)] .
  have lk: "map_of ?n i = Some a \<longleftrightarrow> (\<exists>c \<in> set ?cs. fst c = i \<and> a = raised_as (m_time m) (ev_active e) c)" for i a
  proof
    assume "map_of ?n i = Some a"
    then obtain c where c: "find (\<lambda>c. fst c = i) (rev ?cs) = Some c" "a = raised_as (m_time m) (ev_active e) c"
      by (auto simp: Evaluate_lookup)
    then show "\<exists>c \<in> set ?cs. fst c = i \<and> a = raised_as (m_time m) (ev_active e) c"
      using find_Some_iff_mem[OF c(1)] by auto
  next
    assume "\<exists>c \<in> set ?cs. fst c = i \<and> a = raised_as (m_time m) (ev_active e) c"
    then obtain c where c: "c \<in> set ?cs" "fst c = i" "a = raised_as (m_time m) (ev_active e) c" by blast
    from find_unique_call[OF dc c(1)] c(2,3) show "map_of ?n i = Some a" by (simp add: Evaluate_lookup)
  qed
  have view: "(i, al_severity a, al_value a) = call_view c" if "fst c = i" "a = raised_as (m_time m) (ev_active e) c" for i a c
    using that by (cases c) (auto simp: call_view_def)
  have "(\<lambda>(i, a). (i, al_severity a, al_value a)) ` set ?n = call_view ` set ?cs"
  proof (intro set_eqI iffI)
    fix x assume "x \<in> (\<lambda>(i, a). (i, al_severity a, al_value a)) ` set ?n"
    then obtain i a where ia: "(i, a) \<in> set ?n" "x = (i, al_severity a, al_value a)" by auto
    then have "map_of ?n i = Some a" using dn by (auto intro: map_of_is_SomeI)
    with lk ia(2) view show "x \<in> call_view ` set ?cs" by (metis image_eqI)
  next
    fix x assume "x \<in> call_view ` set ?cs"
    then obtain c where c: "c \<in> set ?cs" "x = call_view c" by blast
    then have "map_of ?n (fst c) = Some (raised_as (m_time m) (ev_active e) c)" using lk by blast
    then have "(fst c, raised_as (m_time m) (ev_active e) c) \<in> set ?n" by (rule map_of_SomeD)
    with view[OF refl refl] c(2) show "x \<in> (\<lambda>(i, a). (i, al_severity a, al_value a)) ` set ?n"
      by (metis (no_types, lifting) case_prod_conv image_eqI)
  qed
  moreover have "(\<lambda>a. (al_id a, al_severity a, al_value a)) ` set (map snd ?n) = (\<lambda>(i, a). (i, al_severity a, al_value a)) ` set ?n"
    using ids by (auto simp: image_image intro!: image_cong)
  moreover have "distinct (map al_id (map snd ?n))"
  proof -
    have "map al_id (map snd ?n) = map fst ?n" using ids by auto
    with dn show ?thesis by (simp only:)
  qed
  ultimately show ?thesis unfolding Latest_def Evaluate_last using calls_spec[of "ev_th e" m] by simp
qed

text \<open>the alarms are exactly those the thresholds call for: the list of an evaluation holds, for each
  source at or above its warning or critical threshold, one alarm with that severity and value, and
  nothing else (the mounts, devices and zones of a snapshot being distinct).\<close>

theorem alarms_exact:
  assumes "names_distinct m" and "active_ok (ev_active e)"
  shows "(\<lambda>a. (al_id a, al_severity a, al_value a)) ` set (Latest (Evaluate m e)) = alarm_spec (ev_th e) m
    \<and> distinct (map al_id (Latest (Evaluate m e)))"
  by (rule Evaluate_spec[OF assms])

definition ex_metrics :: metrics where
  "ex_metrics = zero_metrics\<lparr>m_time := 7, m_cpu := zero_cpu\<lparr>usage_pct := Fin 85\<rparr>,
     m_disks := [\<lparr>d_mount = ''/'', d_device = ''/dev/sda1'', d_fs_type = ''ext4'', d_total = 100, d_used = 96, d_avail = 4, d_used_pct = Fin 96\<rparr>]\<rparr>"

theorem alarms_exact_witness:
  "(''cpu.usage'', ''warn'', Fin 85) \<in> (\<lambda>a. (al_id a, al_severity a, al_value a)) `
     set (Latest (Evaluate ex_metrics (NewEvaluator DefaultThresholds)))"
proof -
  have n: "names_distinct ex_metrics" "active_ok (ev_active (NewEvaluator DefaultThresholds))"
    by (simp_all add: names_distinct_def ex_metrics_def zero_metrics_def NewEvaluator_def active_ok_def)
  show ?thesis
    unfolding alarms_exact[OF n, THEN conjunct1]
    by (simp add: alarm_spec_def level_def NewEvaluator_def DefaultThresholds_def ex_metrics_def zero_metrics_def zero_cpu_def)
qed

section \<open>Since when\<close>

definition run_alarms :: "metrics list \<Rightarrow> evaluator \<Rightarrow> evaluator" where
  "run_alarms ms e = foldl (\<lambda>e m. Evaluate m e) e ms"

lemma run_alarms_snoc: "run_alarms (ms @ [m]) e = Evaluate m (run_alarms ms e)"
  by (simp add: run_alarms_def)

lemma run_alarms_th [simp]: "ev_th (run_alarms ms e) = ev_th e"
  by (induction ms rule: rev_induct) (simp_all add: run_alarms_snoc, simp add: run_alarms_def)

lemma Evaluate_since:
  assumes "map_of (ev_active (Evaluate m e)) uid = Some a"
  shows "al_since a = (case map_of (ev_active e) uid of Some b \<Rightarrow> al_since b | None \<Rightarrow> m_time m)"
proof -
  from assms obtain c where c: "find (\<lambda>c. fst c = uid) (rev (calls (ev_th e) m)) = Some c"
    "a = raised_as (m_time m) (ev_active e) c" by (auto simp: Evaluate_lookup)
  from find_Some_iff_mem[OF c(1)] have "fst c = uid" by simp
  with c(2) show ?thesis by (cases c) auto
qed

text \<open>C21: \<open>Since\<close> is the start of the current streak: an alarm active after a sequence of snapshots has been
  raised by every snapshot from the one whose time it carries on, and not by the one before that.\<close>

theorem alarm_since_streak:
  assumes "map_of (ev_active (run_alarms ms (NewEvaluator th))) uid = Some a"
  shows "\<exists>pre m suf. ms = pre @ m # suf \<and> al_since a = m_time m \<and> (\<forall>x \<in> set (m # suf). uid \<in> raised th x)
     \<and> (pre = [] \<or> uid \<notin> raised th (last pre))"
  using assms
proof (induction ms arbitrary: a rule: rev_induct)
  case Nil
  then show ?case by (simp add: run_alarms_def NewEvaluator_def)
next
  case (snoc m ms)
  let ?e = "run_alarms ms (NewEvaluator th)"
  have th: "ev_th ?e = th" by (simp add: NewEvaluator_def)
  have act: "map_of (ev_active (Evaluate m ?e)) uid = Some a" using snoc.prems by (simp add: run_alarms_snoc)
  then have r: "uid \<in> raised th m" using Evaluate_raised[of m ?e uid] th by simp
  show ?case
  proof (cases "map_of (ev_active ?e) uid")
    case None
    have "ms = [] \<or> uid \<notin> raised th (last ms)"
    proof (cases ms rule: rev_cases)
      case (snoc ms' m')
      then show ?thesis using None Evaluate_raised[of m' "run_alarms ms' (NewEvaluator th)" uid]
        by (simp add: run_alarms_snoc) (simp add: NewEvaluator_def)
    qed simp
    moreover have "al_since a = m_time m" using Evaluate_since[OF act] None by simp
    ultimately show ?thesis using r by (intro exI[of _ ms] exI[of _ m] exI[of _ "[]"]) simp
  next
    case (Some b)
    from snoc.IH[OF Some] obtain pre m0 suf where
      b: "ms = pre @ m0 # suf" "al_since b = m_time m0" "\<forall>x \<in> set (m0 # suf). uid \<in> raised th x"
        "pre = [] \<or> uid \<notin> raised th (last pre)" by blast
    have "al_since a = m_time m0" using Evaluate_since[OF act] Some b(2) by simp
    with b r show ?thesis by (intro exI[of _ pre] exI[of _ m0] exI[of _ "suf @ [m]"]) simp
  qed
qed

theorem alarm_since_streak_witness:
  "\<exists>pre m suf. [ex_metrics, ex_metrics\<lparr>m_time := 8\<rparr>] = pre @ m # suf \<and> (7 :: int) = m_time m \<and> (\<forall>x \<in> set (m # suf). ''cpu.usage'' \<in> raised DefaultThresholds x)"
proof -
  have "map_option al_since (map_of (ev_active (run_alarms [ex_metrics, ex_metrics\<lparr>m_time := 8\<rparr>] (NewEvaluator DefaultThresholds))) ''cpu.usage'') = Some 7"
    by (simp add: run_alarms_def Evaluate_def Let_def NewEvaluator_def calls_def call_defs DefaultThresholds_def ex_metrics_def
        zero_metrics_def zero_cpu_def zero_ram_def raise_alarm_def disk_id_def)
  then obtain a where a: "map_of (ev_active (run_alarms [ex_metrics, ex_metrics\<lparr>m_time := 8\<rparr>] (NewEvaluator DefaultThresholds))) ''cpu.usage'' = Some a" "al_since a = 7"
    by auto
  from alarm_since_streak[OF a(1)] a(2) show ?thesis by metis
qed

end
