(* ===== verification/SystemCollect.thy ===== *)
theory SystemCollect
  imports Rates Alarms
begin

text \<open>
  Disks, temperatures, sockets and the collector that assembles a snapshot (internal/collector/disk.go,
  thermal.go, sockets.go and system.go). Files are a function from paths to their content at the moment
  they are read (each is read once per snapshot), \<open>None\<close> an error; \<open>statfs\<close> is the system call.
\<close>

section \<open>Mounts\<close>

definition pseudoFSTypes :: "string set" where
  "pseudoFSTypes = set [''proc'', ''sysfs'', ''devtmpfs'', ''tmpfs'', ''devpts'', ''cgroup'', ''cgroup2'', ''overlay'',
     ''squashfs'', ''autofs'', ''mqueue'', ''debugfs'', ''tracefs'', ''securityfs'', ''pstore'', ''bpf'', ''configfs'',
     ''fusectl'', ''hugetlbfs'', ''nsfs'', ''binfmt_misc'', ''efivarfs'', ''rpc_pipefs'']"

record mount_entry =
  me_device :: string
  me_mount :: string
  me_fstype :: string

definition root_entry :: mount_entry where
  "root_entry = \<lparr>me_device = ''/'', me_mount = ''/'', me_fstype = ''unknown''\<rparr>"

definition mount_line :: "string \<Rightarrow> mount_entry option" where
  "mount_line l =
     (let flds = Fields l in
      if length flds < 3 then None
      else if flds ! 2 \<in> pseudoFSTypes \<or> \<not> has_prefix (flds ! 0) ''/dev/'' then None
      else Some \<lparr>me_device = flds ! 0, me_mount = flds ! 1, me_fstype = flds ! 2\<rparr>)"

definition discoverMounts :: "string option \<Rightarrow> mount_entry list" where
  "discoverMounts mounts =
     (case mounts of
        None \<Rightarrow> [root_entry]
      | Some data \<Rightarrow>
          let out = List.map_filter mount_line (split_on newline data);
              haveRoot = list_ex (\<lambda>m. me_mount m = ''/'') out
          in if haveRoot then out else root_entry # out)"

text \<open>The four words of the \<open>statfs\<close> result that are used.\<close>

record statfs =
  st_bsize :: u64
  st_blocks :: u64
  st_bfree :: u64
  st_bavail :: u64

definition statMount :: "(string \<Rightarrow> statfs option) \<Rightarrow> mount_entry \<Rightarrow> disk option" where
  "statMount sfs m =
     (case sfs (me_mount m) of
        None \<Rightarrow> None
      | Some st \<Rightarrow>
          let total = st_blocks st * st_bsize st; free = st_bfree st * st_bsize st;
              avail = st_bavail st * st_bsize st; used = total - free;
              d = \<lparr>d_mount = me_mount m, d_device = me_device m, d_fs_type = me_fstype m,
                   d_total = total, d_used = used, d_avail = avail, d_used_pct = 0\<rparr>
          in Some (if total > 0 then d\<lparr>d_used_pct := Fin 100 * f_of_u64 used / f_of_u64 total\<rparr> else d))"

definition resolveDiskMounts :: "string list \<Rightarrow> string option \<Rightarrow> mount_entry list" where
  "resolveDiskMounts configured mounts =
     (if length configured = 0 then discoverMounts mounts
      else map (\<lambda>m. \<lparr>me_device = m, me_mount = m, me_fstype = ''configured''\<rparr>) configured)"

definition readDisks :: "(string \<Rightarrow> statfs option) \<Rightarrow> mount_entry list \<Rightarrow> disk list" where
  "readDisks sfs mounts = List.map_filter (statMount sfs) mounts"

section \<open>Temperatures\<close>

record thermal_zone =
  tz_path :: string
  tz_label :: string
  tz_primary :: bool

definition zone_of :: "(string \<Rightarrow> string option) \<Rightarrow> string \<Rightarrow> thermal_zone option" where
  "zone_of fs p = map_option (\<lambda>d. \<lparr>tz_path = p, tz_label = TrimSpace d, tz_primary = False\<rparr>) (fs (path_join [p, ''type'']))"

definition first_label :: "(string \<Rightarrow> bool) \<Rightarrow> thermal_zone list \<Rightarrow> nat option" where
  "first_label P zones = (let i = length (takeWhile (\<lambda>z. \<not> P (ToLower (tz_label z))) zones) in if i < length zones then Some i else None)"

definition pick_zone :: "thermal_zone list \<Rightarrow> nat option" where
  "pick_zone zones =
     (case first_label (\<lambda>l. contains l ''pkg'') zones of
        Some i \<Rightarrow> Some i
      | None \<Rightarrow> (case first_label (\<lambda>l. contains l ''core'') zones of
          Some i \<Rightarrow> Some i
        | None \<Rightarrow> (case first_label (\<lambda>l. l = ''acpitz'') zones of
            Some i \<Rightarrow> Some i
          | None \<Rightarrow> if length zones > 0 then Some 0 else None)))"

definition resolveThermalZones :: "(string \<Rightarrow> string option) \<Rightarrow> string list \<Rightarrow> thermal_zone list" where
  "resolveThermalZones fs paths =
     (let zones = List.map_filter (zone_of fs) paths
      in case pick_zone zones of None \<Rightarrow> zones | Some i \<Rightarrow> zones[i := (zones ! i)\<lparr>tz_primary := True\<rparr>])"

text \<open>\<open>filepath.Base\<close>.\<close>

definition path_base :: "string \<Rightarrow> string" where
  "path_base p =
     (if p = [] then ''.''
      else let q = rev (dropWhile (\<lambda>c. c = CHR ''/'') (rev p))
           in if q = [] then ''/'' else rev (takeWhile (\<lambda>c. c \<noteq> CHR ''/'') (rev q)))"

definition read_temp :: "(string \<Rightarrow> string option) \<Rightarrow> thermal_zone \<Rightarrow> temp option" where
  "read_temp fs z =
     (case fs (path_join [tz_path z, ''temp'']) of
        None \<Rightarrow> None
      | Some data \<Rightarrow>
          (case ParseInt64 (TrimSpace data) of
             (_, Some _) \<Rightarrow> None
           | (milliC, None) \<Rightarrow> Some \<lparr>zone = path_base (tz_path z), label = tz_label z,
               celsius = f_of_int milliC / Fin 1000, is_primary_cpu = tz_primary z\<rparr>))"

definition readTemps :: "(string \<Rightarrow> string option) \<Rightarrow> thermal_zone list \<Rightarrow> temp list" where
  "readTemps fs zones = List.map_filter (read_temp fs) zones"

section \<open>Sockets\<close>

fun sock_pairs :: "string list \<Rightarrow> (string \<Rightarrow> int) \<Rightarrow> string \<Rightarrow> int" where
  "sock_pairs (k # v # rest) kv = sock_pairs rest (kv(k := fst (Atoi v)))"
| "sock_pairs _ kv = kv"

definition sock_line :: "string \<Rightarrow> sockets \<Rightarrow> sockets" where
  "sock_line l s =
     (let flds = Fields l in
      if length flds < 2 then s
      else let kv = sock_pairs (tl flds) (\<lambda>_. 0) in
        if hd flds = ''sockets:'' then s\<lparr>total_used := kv ''used''\<rparr>
        else if hd flds = ''TCP:'' then s\<lparr>tcp_in_use := kv ''inuse'', tcp_orphan := kv ''orphan'', tcp_time_wait := kv ''tw''\<rparr>
        else if hd flds = ''UDP:'' then s\<lparr>udp_in_use := kv ''inuse''\<rparr>
        else s)"

definition readSockets :: "string option \<Rightarrow> sockets" where
  "readSockets sockstat =
     (case sockstat of None \<Rightarrow> zero_sockets | Some data \<Rightarrow> fold sock_line (split_on newline data) zero_sockets)"

section \<open>The collector\<close>

record sys_collector =
  prevCPU :: cpu_sample
  havePrevCPU :: bool
  prevCores :: "cpu_sample list"
  prevDiskIO :: "(string \<times> disk_io_sample) list option"
  prevNet :: "(string \<times> net_sample) list option"
  sc_cores :: int
  diskMounts :: "mount_entry list"
  sc_thermal :: "thermal_zone list"
  hostProcPath :: string

text \<open>
  What one snapshot reads: the files, \<open>statfs\<close>, the clock (at the start, after /proc/diskstats, after
  /proc/net/dev) and the orders in which the runtime iterates over the two current maps.
\<close>

record reading =
  rd_fs :: "string \<Rightarrow> string option"
  rd_statfs :: "string \<Rightarrow> statfs option"
  rd_now :: time
  rd_disk_at :: time
  rd_net_at :: time
  rd_disk_order :: "(string \<times> disk_io_sample) list \<Rightarrow> (string \<times> disk_io_sample) list"
  rd_net_order :: "(string \<times> net_sample) list \<Rightarrow> (string \<times> net_sample) list"

definition NewSystemCollector :: "string list \<Rightarrow> string \<Rightarrow> string list \<Rightarrow> (string \<Rightarrow> string option) \<Rightarrow> sys_collector" where
  "NewSystemCollector disk_mounts proc_path zone_paths fs =
     \<lparr>prevCPU = zero_cpu_sample, havePrevCPU = False, prevCores = [], prevDiskIO = None, prevNet = None,
      sc_cores = readCoreCount (fs ''/proc/stat''), diskMounts = resolveDiskMounts disk_mounts (fs ''/proc/mounts''),
      sc_thermal = resolveThermalZones fs zone_paths, hostProcPath = proc_path\<rparr>"

definition Collect :: "reading \<Rightarrow> sys_collector \<Rightarrow> metrics \<times> sys_collector" where
  "Collect r c =
     (let fs = rd_fs r;
          (agg, perCore, ok) = readCPUSamples (fs ''/proc/stat'');
          cp = (if ok \<and> havePrevCPU c
                then (cpuDeltaPct (prevCPU c) agg)\<lparr>per_core := perCoreDeltaPct (prevCores c) perCore\<rparr> else zero_cpu);
          c1 = (if ok then c\<lparr>prevCPU := agg, prevCores := perCore, havePrevCPU := True\<rparr> else c);
          (rm, sw) = readMemInfo (fs ''/proc/meminfo'');
          ld = readLoad (fs ''/proc/loadavg'') (sc_cores c1);
          dk = readDisks (rd_statfs r) (diskMounts c1);
          tp = readTemps fs (sc_thermal c1);
          so = readSockets (fs (path_join [hostProcPath c1, ''1'', ''net'', ''sockstat'']));
          curDiskIO = readDiskStats (fs ''/proc/diskstats'') (rd_disk_at r);
          dio = (case prevDiskIO c1 of None \<Rightarrow> []
                 | Some p \<Rightarrow> diskIODeltas p (rd_disk_order r (case curDiskIO of None \<Rightarrow> [] | Some m \<Rightarrow> m)));
          c2 = c1\<lparr>prevDiskIO := curDiskIO\<rparr>;
          curNet = readNetDev (fs (path_join [hostProcPath c2, ''1'', ''net'', ''dev''])) (rd_net_at r);
          nt = (case prevNet c2 of None \<Rightarrow> []
                | Some p \<Rightarrow> netDeltas p (rd_net_order r (case curNet of None \<Rightarrow> [] | Some m \<Rightarrow> m)));
          c3 = c2\<lparr>prevNet := curNet\<rparr>
      in (\<lparr>m_time = rd_now r, m_cpu = cp, m_ram = rm, m_swap = sw, m_load = ld, m_disks = dk, m_disk_io = dio,
           m_net = nt, m_temp = tp, m_sockets = so, m_processes = []\<rparr>, c3))"

section \<open>Which zone stands for the processor\<close>

definition label_rank :: "string \<Rightarrow> nat" where
  "label_rank l0 = (let l = ToLower l0 in if contains l ''pkg'' then 0 else if contains l ''core'' then 1 else if l = ''acpitz'' then 2 else 3)"

lemma first_label_Some:
  "first_label P zs = Some i \<Longrightarrow> i < length zs \<and> P (ToLower (tz_label (zs ! i))) \<and> (\<forall>j < i. \<not> P (ToLower (tz_label (zs ! j))))"
proof -
  let ?n = "length (takeWhile (\<lambda>z. \<not> P (ToLower (tz_label z))) zs)"
  assume "first_label P zs = Some i"
  then have i: "i = ?n" "?n < length zs" by (auto simp: first_label_def Let_def split: if_splits)
  then have "P (ToLower (tz_label (zs ! ?n)))" using nth_length_takeWhile by blast
  moreover have "\<not> P (ToLower (tz_label (zs ! j)))" if "j < ?n" for j
    using that by (metis nth_mem set_takeWhileD takeWhile_nth)
  ultimately show ?thesis using i by blast
qed

lemma first_label_None: "first_label P zs = None \<Longrightarrow> z \<in> set zs \<Longrightarrow> \<not> P (ToLower (tz_label z))"
proof -
  assume "first_label P zs = None" "z \<in> set zs"
  then have "\<not> length (takeWhile (\<lambda>z. \<not> P (ToLower (tz_label z))) zs) < length zs"
    by (simp add: first_label_def Let_def split: if_splits)
  then have "takeWhile (\<lambda>z. \<not> P (ToLower (tz_label z))) zs = zs"
    by (metis le_neq_implies_less length_takeWhile_le takeWhile_eq_take take_all_iff order_refl)
  then show ?thesis using \<open>z \<in> set zs\<close> by (metis set_takeWhileD)
qed

lemma pick_zone_best:
  assumes "pick_zone zs = Some i"
  shows "i < length zs \<and> (\<forall>j < length zs. label_rank (tz_label (zs ! i)) < label_rank (tz_label (zs ! j))
    \<or> label_rank (tz_label (zs ! i)) = label_rank (tz_label (zs ! j)) \<and> i \<le> j)"
proof -
  have le: "i \<le> j" if "\<forall>k < i. \<not> P k" "P j" for P :: "nat \<Rightarrow> bool" and j
    using that by (meson not_less)
  show ?thesis
  proof (cases "first_label (\<lambda>l. contains l ''pkg'') zs")
    case (Some k)
    with assms have "k = i" by (simp add: pick_zone_def)
    with first_label_Some[OF Some] show ?thesis
      by (auto simp: label_rank_def Let_def not_less dest: le[rotated])
  next
    case None
    note n1 = first_label_None[OF this nth_mem]
    show ?thesis
    proof (cases "first_label (\<lambda>l. contains l ''core'') zs")
      case (Some k)
      with assms None have "k = i" by (simp add: pick_zone_def)
      with first_label_Some[OF Some] n1 show ?thesis
        by (auto simp: label_rank_def Let_def not_less dest: le[rotated])
    next
      case None2: None
      note n2 = first_label_None[OF this nth_mem]
      show ?thesis
      proof (cases "first_label (\<lambda>l. l = ''acpitz'') zs")
        case (Some k)
        with assms None None2 have "k = i" by (simp add: pick_zone_def)
        with first_label_Some[OF Some] n1 n2 show ?thesis
          by (auto simp: label_rank_def Let_def not_less dest: le[rotated])
      next
        case None3: None
        with assms None None2 have i: "i = 0" "zs \<noteq> []" by (auto simp: pick_zone_def split: if_splits)
        have "label_rank (tz_label (zs ! j)) = 3" if "j < length zs" for j
          using n1[OF that] n2[OF that] first_label_None[OF None3 nth_mem[OF that]] by (simp add: label_rank_def Let_def)
        with i show ?thesis by simp
      qed
    qed
  qed
qed

lemma pick_zone_None: "pick_zone zs = None \<longleftrightarrow> zs = []"
  by (auto simp: pick_zone_def first_label_def Let_def split: option.splits if_splits)

text \<open>as soon as one thermal zone is readable exactly one zone stands for the processor, and it is the first of the best
  class found: a package sensor, else a core sensor, else the ACPI zone, else any.\<close>

theorem thermal_one_primary:
  assumes "zs = resolveThermalZones fs paths" "zs \<noteq> []"
  shows "\<exists>i < length zs. (\<forall>j < length zs. tz_primary (zs ! j) \<longleftrightarrow> j = i) \<and>
    (\<forall>j < length zs. label_rank (tz_label (zs ! i)) < label_rank (tz_label (zs ! j))
       \<or> label_rank (tz_label (zs ! i)) = label_rank (tz_label (zs ! j)) \<and> i \<le> j)"
proof -
  define z0 where "z0 = List.map_filter (zone_of fs) paths"
  have np: "\<not> tz_primary z" if "z \<in> set z0" for z
    using that by (auto simp: z0_def zone_of_def List.map_filter_def)
  have "z0 \<noteq> []" using assms by (auto simp: resolveThermalZones_def z0_def[symmetric] Let_def split: option.splits)
  then obtain i where i: "pick_zone z0 = Some i" using pick_zone_None by fastforce
  have zs: "zs = z0[i := (z0 ! i)\<lparr>tz_primary := True\<rparr>]"
    using assms(1) i by (simp add: resolveThermalZones_def z0_def[symmetric])
  have len: "length zs = length z0" by (simp add: zs)
  have lab: "tz_label (zs ! j) = tz_label (z0 ! j)" if "j < length z0" for j
    using that by (cases "j = i") (simp_all add: zs)
  have pr: "tz_primary (zs ! j) \<longleftrightarrow> j = i" if "j < length z0" for j
    using that np[OF nth_mem[OF that]] by (cases "j = i") (simp_all add: zs)
  show ?thesis using pick_zone_best[OF i] lab pr by (intro exI[of _ i]) (simp add: len)
qed

theorem thermal_one_primary_witness:
  "\<exists>i < 2. \<forall>j < 2. tz_primary (resolveThermalZones (\<lambda>p. if p = ''a/type'' then Some ''acpitz'' else if p = ''b/type'' then Some ''x86_pkg_temp'' else None) [''a'', ''b''] ! j) \<longleftrightarrow> j = i"
proof -
  let ?zs = "resolveThermalZones (\<lambda>p. if p = ''a/type'' then Some ''acpitz'' else if p = ''b/type'' then Some ''x86_pkg_temp'' else None) [''a'', ''b'']"
  have len: "length ?zs = 2" by code_simp
  then have "?zs \<noteq> []" by auto
  from thermal_one_primary[OF refl this] show ?thesis unfolding len by blast
qed

section \<open>Mount points\<close>

text \<open>whatever /proc/mounts says, automatic discovery always reports the root, and besides a stand-in for it only devices
  with a real file system.\<close>

theorem discoverMounts_root:
  "(\<exists>m \<in> set (discoverMounts f). me_mount m = ''/'') \<and>
   (\<forall>m \<in> set (discoverMounts f). m = root_entry \<or> has_prefix (me_device m) ''/dev/'' \<and> me_fstype m \<notin> pseudoFSTypes)"
proof (cases f)
  case None
  then show ?thesis by (simp add: discoverMounts_def root_entry_def)
next
  case (Some data)
  have "has_prefix (me_device m) ''/dev/'' \<and> me_fstype m \<notin> pseudoFSTypes" if "mount_line l = Some m" for l m
    using that by (auto simp: mount_line_def Let_def split: if_splits)
  then show ?thesis
    by (auto simp: Some discoverMounts_def Let_def list_ex_iff List.map_filter_def root_entry_def split: if_splits)
qed

theorem discoverMounts_root_witness:
  "\<exists>m \<in> set (discoverMounts (Some ''/dev/sda1 /data ext4 rw'')). me_mount m = ''/''"
  using discoverMounts_root by blast

text \<open>A configured list is taken as it is: the root is not added.\<close>

lemma configured_without_root: "\<not> (\<exists>m \<in> set (resolveDiskMounts [''/data''] f). me_mount m = ''/'')"
  by (simp add: resolveDiskMounts_def)

section \<open>Runs of the collector\<close>

definition run_collect :: "reading list \<Rightarrow> sys_collector \<Rightarrow> sys_collector" where
  "run_collect rs c = foldl (\<lambda>c r. snd (Collect r c)) c rs"

definition stat_of :: "reading \<Rightarrow> cpu_sample \<times> cpu_sample list \<times> bool" where
  "stat_of r = readCPUSamples (rd_fs r ''/proc/stat'')"

definition stat_ok :: "reading \<Rightarrow> bool" where
  "stat_ok r = snd (snd (stat_of r))"

definition net_of :: "string \<Rightarrow> reading \<Rightarrow> (string \<times> net_sample) list option" where
  "net_of path r = readNetDev (rd_fs r (path_join [path, ''1'', ''net'', ''dev''])) (rd_net_at r)"

definition disk_of :: "reading \<Rightarrow> (string \<times> disk_io_sample) list option" where
  "disk_of r = readDiskStats (rd_fs r ''/proc/diskstats'') (rd_disk_at r)"

lemma Collect_state:
  "snd (Collect r c) = (if stat_ok r then c\<lparr>prevCPU := fst (stat_of r), prevCores := fst (snd (stat_of r)), havePrevCPU := True\<rparr> else c)
     \<lparr>prevDiskIO := disk_of r, prevNet := net_of (hostProcPath c) r\<rparr>"
  by (simp add: Collect_def stat_ok_def stat_of_def disk_of_def net_of_def Let_def split: prod.split)

lemma Collect_metrics:
  "m_cpu (fst (Collect r c)) = (if stat_ok r \<and> havePrevCPU c
      then (cpuDeltaPct (prevCPU c) (fst (stat_of r)))\<lparr>per_core := perCoreDeltaPct (prevCores c) (fst (snd (stat_of r)))\<rparr> else zero_cpu)"
  "m_net (fst (Collect r c)) = (case prevNet c of None \<Rightarrow> []
      | Some p \<Rightarrow> netDeltas p (rd_net_order r (case net_of (hostProcPath c) r of None \<Rightarrow> [] | Some m \<Rightarrow> m)))"
  "m_disk_io (fst (Collect r c)) = (case prevDiskIO c of None \<Rightarrow> []
      | Some p \<Rightarrow> diskIODeltas p (rd_disk_order r (case disk_of r of None \<Rightarrow> [] | Some m \<Rightarrow> m)))"
  "m_disks (fst (Collect r c)) = readDisks (rd_statfs r) (diskMounts c)"
  "m_temp (fst (Collect r c)) = readTemps (rd_fs r) (sc_thermal c)"
  by (simp_all add: Collect_def stat_ok_def stat_of_def disk_of_def net_of_def Let_def split: prod.split option.split)

lemma run_collect_snoc: "run_collect (rs @ [r]) c = snd (Collect r (run_collect rs c))"
  by (simp add: run_collect_def)

lemma run_collect_fixed:
  "hostProcPath (run_collect rs c) = hostProcPath c \<and> diskMounts (run_collect rs c) = diskMounts c \<and> sc_thermal (run_collect rs c) = sc_thermal c"
  by (induction rs rule: rev_induct) (simp_all add: run_collect_snoc Collect_state, simp add: run_collect_def)

lemma run_collect_cpu:
  assumes "\<not> havePrevCPU c"
  shows "havePrevCPU (run_collect rs c) = (filter stat_ok rs \<noteq> []) \<and>
    (filter stat_ok rs \<noteq> [] \<longrightarrow> prevCPU (run_collect rs c) = fst (stat_of (last (filter stat_ok rs)))
       \<and> prevCores (run_collect rs c) = fst (snd (stat_of (last (filter stat_ok rs)))))"
  using assms by (induction rs rule: rev_induct) (simp_all add: run_collect_snoc Collect_state, simp add: run_collect_def)

lemma run_collect_rates:
  assumes "prevNet c = None" "prevDiskIO c = None"
  shows "prevNet (run_collect rs c) = (if rs = [] then None else net_of (hostProcPath c) (last rs)) \<and>
    prevDiskIO (run_collect rs c) = (if rs = [] then None else disk_of (last rs))"
  using assms run_collect_fixed
  by (induction rs rule: rev_induct) (simp_all add: run_collect_snoc Collect_state, simp_all add: run_collect_def)

text \<open>C20: what a snapshot is compared with, after any history of readings: the processor with the last /proc/stat that
  could be read, however many failed in between (all zero if there is none, or if the
  present one cannot be read); interfaces and disks with the reading just before,
  readable or not, so that one failed reading leaves the next snapshot, too, without rates.\<close>

theorem Collect_history:
  assumes c_def: "c = run_collect rs (NewSystemCollector dm path zp fs)"
  shows "m_cpu (fst (Collect r c)) = (if \<not> stat_ok r \<or> filter stat_ok rs = [] then zero_cpu
      else let p = stat_of (last (filter stat_ok rs)) in
        (cpuDeltaPct (fst p) (fst (stat_of r)))\<lparr>per_core := perCoreDeltaPct (fst (snd p)) (fst (snd (stat_of r)))\<rparr>)
    \<and> m_net (fst (Collect r c)) = (case (if rs = [] then None else net_of path (last rs)) of None \<Rightarrow> []
      | Some p \<Rightarrow> netDeltas p (rd_net_order r (case net_of path r of None \<Rightarrow> [] | Some m \<Rightarrow> m)))
    \<and> m_disk_io (fst (Collect r c)) = (case (if rs = [] then None else disk_of (last rs)) of None \<Rightarrow> []
      | Some p \<Rightarrow> diskIODeltas p (rd_disk_order r (case disk_of r of None \<Rightarrow> [] | Some m \<Rightarrow> m)))"
proof -
  let ?c0 = "NewSystemCollector dm path zp fs"
  have s0: "\<not> havePrevCPU ?c0" "prevNet ?c0 = None" "prevDiskIO ?c0 = None" "hostProcPath ?c0 = path"
    by (simp_all add: NewSystemCollector_def)
  have h: "hostProcPath c = path" using run_collect_fixed[of rs ?c0] s0(4) by (simp add: c_def)
  have cpu: "havePrevCPU c = (filter stat_ok rs \<noteq> [])"
    "filter stat_ok rs \<noteq> [] \<Longrightarrow> prevCPU c = fst (stat_of (last (filter stat_ok rs)))"
    "filter stat_ok rs \<noteq> [] \<Longrightarrow> prevCores c = fst (snd (stat_of (last (filter stat_ok rs))))"
    using run_collect_cpu[OF s0(1), of rs] by (auto simp: c_def)
  have rt: "prevNet c = (if rs = [] then None else net_of path (last rs))" "prevDiskIO c = (if rs = [] then None else disk_of (last rs))"
    using run_collect_rates[OF s0(2,3), of rs] s0(4) by (simp_all add: c_def)
  have 1: "m_cpu (fst (Collect r c)) = (if \<not> stat_ok r \<or> filter stat_ok rs = [] then zero_cpu
      else let p = stat_of (last (filter stat_ok rs)) in
        (cpuDeltaPct (fst p) (fst (stat_of r)))\<lparr>per_core := perCoreDeltaPct (fst (snd p)) (fst (snd (stat_of r)))\<rparr>)"
    unfolding Collect_metrics(1) using cpu by (cases "filter stat_ok rs = []") (simp_all add: Let_def)
  show ?thesis by (rule conjI[OF 1]) (simp only: Collect_metrics(2,3) rt h simp_thms)
qed

definition ex_reading :: "(string \<Rightarrow> string option) \<Rightarrow> time \<Rightarrow> reading" where
  "ex_reading fs t = \<lparr>rd_fs = fs, rd_statfs = (\<lambda>_. None), rd_now = t, rd_disk_at = t, rd_net_at = t,
     rd_disk_order = (\<lambda>xs. xs), rd_net_order = (\<lambda>xs. xs)\<rparr>"

text \<open>A host with one processor and one interface, read at 1 s and at 3 s, in between of which one reading fails.\<close>

definition ex_files :: "u64 \<Rightarrow> u64 \<Rightarrow> u64 \<Rightarrow> string \<Rightarrow> string option" where
  "ex_files u i b p =
     (if p = ''/proc/stat'' then Some (unlines (cpu_text ''cpu'' ''  '' [0, 0] (ex_sample u i) # map (core_text [0, 0]) [(0, ex_sample u i)] @ []))
      else if p = ''/proc/1/net/dev'' then Some (unlines ([] @ map net_text [('' '', ''eth0'', [b, 0, 0, 0, 0, 0, 0, 0, b, 0, 0, 0, 0, 0, 0, 0])]))
      else None)"

definition ex_then :: reading where "ex_then = ex_reading (ex_files 100 500 100) 1000000000"
definition ex_gap :: reading where "ex_gap = ex_reading (\<lambda>_. None) 2000000000"
definition ex_now :: reading where "ex_now = ex_reading (ex_files 130 570 700) 3000000000"

definition ex_counts :: "u64 \<Rightarrow> time \<Rightarrow> net_sample" where
  "ex_counts b t = \<lparr>rxBytes = b, rxPackets = 0, rxErrs = 0, rxDrop = 0, txBytes = b, txPackets = 0, txErrs = 0, txDrop = 0, net_at = t\<rparr>"

lemma ex_stat: "readCPUSamples (ex_files u i b ''/proc/stat'') = (ex_sample u i, [ex_sample u i], True)"
  unfolding ex_files_def by (subst if_P[OF refl], subst readCPUSamples_kernel) simp_all

lemma ex_dev: "readNetDev (ex_files u i b ''/proc/1/net/dev'') t = Some [(''eth0'', ex_counts b t)]"
proof -
  have "readNetDev (Some (unlines ([] @ map net_text [('' '', ''eth0'', [b, 0, 0, 0, 0, 0, 0, 0, b, 0, 0, 0, 0, 0, 0, 0])]))) t = Some [(''eth0'', ex_counts b t)]"
    by (subst readNetDev_kernel) (simp_all add: net_text_ok_def is_word_def visible_def blank_def net_entry_def ex_counts_def)
  then show ?thesis by (simp add: ex_files_def)
qed

lemma ex_path: "path_join [''/proc'', ''1'', ''net'', ''dev''] = ''/proc/1/net/dev''"
  by code_simp

lemma ex_readings:
  "stat_ok ex_then" "\<not> stat_ok ex_gap" "stat_ok ex_now"
  "stat_of ex_then = (ex_sample 100 500, [ex_sample 100 500], True)" "stat_of ex_now = (ex_sample 130 570, [ex_sample 130 570], True)"
  "net_of ''/proc'' ex_then = Some [(''eth0'', ex_counts 100 1000000000)]" "net_of ''/proc'' ex_gap = None"
  "net_of ''/proc'' ex_now = Some [(''eth0'', ex_counts 700 3000000000)]" "rd_net_order ex_now = (\<lambda>xs. xs)"
  by (simp_all add: stat_ok_def stat_of_def net_of_def ex_then_def ex_gap_def ex_now_def ex_reading_def ex_stat ex_dev ex_path)
    (simp_all add: readCPUSamples_def readNetDev_def)

lemma ex_usage: "user_pct (cpuDeltaPct (ex_sample 100 500) (ex_sample 130 570)) = Fin 30"
proof -
  have t: "all_ticks (ex_sample 100 500) (ex_sample 130 570) = 100" "ticks c_user (ex_sample 100 500) (ex_sample 130 570) = 30"
    by (simp_all add: all_ticks_def ticks_def ex_sample_def zero_cpu_sample_def)
  have "pct 30 100 = 30" using rnd_int[of 30] by (simp add: pct_def)
  with cpuDeltaPct_value[of "ex_sample 100 500" "ex_sample 130 570"] t show ?thesis by simp
qed

lemma ex_rate:
  "\<exists>r. netDeltas [(''eth0'', ex_counts 100 1000000000)] [(''eth0'', ex_counts 700 3000000000)] = [r] \<and> if_name r = ''eth0'' \<and> rx_bps r = Fin 300"
proof -
  let ?p = "ex_counts 100 1000000000" and ?c = "ex_counts 700 3000000000"
  have "net_ok ?p ?c" by (simp add: net_ok_def ex_counts_def)
  then obtain r where r: "net_delta ''eth0'' ?p ?c = Some r" using net.delta_ok[of "''eth0''" ?p ?c] by blast
  have "seconds (t_sub (net_at ?c) (net_at ?p)) = Fin 2"
    using seconds_whole[of 2] by (simp add: ex_counts_def t_sub_def max_dur_def min_dur_def)
  moreover have "f_of_u64 (rxBytes ?c - rxBytes ?p) = Fin 600" using f_of_u64_exact[of 600] by (simp add: ex_counts_def)
  moreover have "rnd 300 = 300" using rnd_int[of 300] by simp
  ultimately have "rx_bps r = Fin 300" using net_delta_rates(1)[OF r] by (simp add: mkf_small)
  with r net.delta_name[OF r] show ?thesis by (simp add: netDeltas_def)
qed

theorem Collect_history_witness:
  "let col = NewSystemCollector [] ''/proc'' [] (\<lambda>_. None);
       after_gap = fst (Collect ex_now (run_collect [ex_then, ex_gap] col));
       no_gap = fst (Collect ex_now (run_collect [ex_then] col)) in
   user_pct (m_cpu after_gap) = Fin 30 \<and> m_net after_gap = [] \<and> (\<exists>r. m_net no_gap = [r] \<and> if_name r = ''eth0'' \<and> rx_bps r = Fin 300)"
proof -
  note h1 = Collect_history[OF refl, of ex_now "[ex_then, ex_gap]" "[]" "''/proc''" "[]" "\<lambda>_. None"]
  note h2 = Collect_history[OF refl, of ex_now "[ex_then]" "[]" "''/proc''" "[]" "\<lambda>_. None"]
  have "user_pct (m_cpu (fst (Collect ex_now (run_collect [ex_then, ex_gap] (NewSystemCollector [] ''/proc'' [] (\<lambda>_. None)))))) = Fin 30"
    unfolding h1[THEN conjunct1] by (simp add: ex_readings ex_usage Let_def)
  moreover have "m_net (fst (Collect ex_now (run_collect [ex_then, ex_gap] (NewSystemCollector [] ''/proc'' [] (\<lambda>_. None))))) = []"
    unfolding h1[THEN conjunct2, THEN conjunct1] by (simp add: ex_readings)
  moreover have "\<exists>r. m_net (fst (Collect ex_now (run_collect [ex_then] (NewSystemCollector [] ''/proc'' [] (\<lambda>_. None))))) = [r]
      \<and> if_name r = ''eth0'' \<and> rx_bps r = Fin 300"
    unfolding h2[THEN conjunct2, THEN conjunct1] using ex_rate by (simp add: ex_readings)
  ultimately show ?thesis by (simp only: Let_def)
qed

section \<open>The snapshot the alarms get\<close>

definition orders_ok :: "reading \<Rightarrow> bool" where
  "orders_ok r \<longleftrightarrow> (\<forall>xs. mset (rd_disk_order r xs) = mset xs)"

text \<open>every snapshot the collector produces is one the alarms can tell apart: with distinct mount points and zones no two
  disks, devices or zones share an alarm, however the runtime orders its maps.\<close>

theorem Collect_names_distinct:
  assumes "c = run_collect rs (NewSystemCollector dm path zp fs)" "orders_ok r"
    and "distinct (map me_mount (resolveDiskMounts dm (fs ''/proc/mounts'')))"
    and "distinct (map (path_base \<circ> tz_path) (resolveThermalZones fs zp))"
  shows "names_distinct (fst (Collect r c))"
proof -
  have fixed: "diskMounts c = resolveDiskMounts dm (fs ''/proc/mounts'')" "sc_thermal c = resolveThermalZones fs zp"
    using run_collect_fixed[of rs "NewSystemCollector dm path zp fs"] assms(1) by (simp_all add: NewSystemCollector_def)
  have "distinct (map d_mount (m_disks (fst (Collect r c))))"
    unfolding Collect_metrics(4) readDisks_def fixed
    by (rule map_filter_distinct[OF assms(3)]) (auto simp: statMount_def Let_def split: option.splits if_splits)
  moreover have "distinct (map zone (m_temp (fst (Collect r c))))"
    unfolding Collect_metrics(5) readTemps_def fixed
    by (rule map_filter_distinct[OF assms(4)]) (auto simp: read_temp_def split: option.splits prod.splits)
  moreover have "distinct (map io_device (m_disk_io (fst (Collect r c))))"
  proof -
    define cur where "cur = (case disk_of r of None \<Rightarrow> [] | Some m \<Rightarrow> m)"
    have "distinct (map fst cur)"
      using readDiskStats_distinct by (auto simp: cur_def disk_of_def split: option.split)
    moreover have "mset (map fst (rd_disk_order r cur)) = mset (map fst cur)"
      using assms(2) by (simp add: orders_ok_def)
    ultimately have "distinct (map fst (rd_disk_order r cur))" by (metis mset_eq_imp_distinct_iff)
    then show ?thesis unfolding Collect_metrics(3) cur_def[symmetric] diskIODeltas_def
      by (auto intro: blk.deltas_distinct split: option.split)
  qed
  ultimately show ?thesis by (simp add: names_distinct_def)
qed

theorem Collect_names_distinct_witness:
  "names_distinct (fst (Collect (ex_reading (\<lambda>_. None) 2) (run_collect [] (NewSystemCollector [''/'', ''/data''] ''/proc'' [] (\<lambda>_. None)))))"
  by (rule Collect_names_distinct[OF refl])
    (simp_all add: orders_ok_def ex_reading_def resolveDiskMounts_def resolveThermalZones_def pick_zone_def first_label_def List.map_filter_simps)

end
