(* ===== verification/PortChips.thy ===== *)
theory PortChips
  imports GoStrings "HOL-Library.List_Lexorder" "HOL-Library.Char_ord"
begin

text \<open>
  The port list of a container (internal/collector/docker_ports.go): duplicates removed, sorted, and
  runs of consecutive ports collapsed into one chip.
\<close>

section \<open>Ports\<close>

record port =
  host_ip :: string
  host_port :: int
  container_port :: int
  proto :: string
  published :: bool

record port_chip =
  chip_label :: string
  chip_published :: bool

definition port_key :: "port \<Rightarrow> int \<times> int \<times> string" where
  "port_key p = (host_port p, container_port p, proto p)"

fun dedupe_loop :: "(int \<times> int \<times> string) set \<Rightarrow> port list \<Rightarrow> port list" where
  "dedupe_loop seen [] = []"
| "dedupe_loop seen (p # ps) =
     (if port_key p \<in> seen then dedupe_loop seen ps else p # dedupe_loop (insert (port_key p) seen) ps)"

definition port_less :: "port \<Rightarrow> port \<Rightarrow> bool" where
  "port_less a b =
     (if container_port a \<noteq> container_port b then container_port a < container_port b else proto a < proto b)"

definition dedupePorts :: "(port list \<Rightarrow> port list) \<Rightarrow> port list \<Rightarrow> port list" where
  "dedupePorts srt ports = srt (dedupe_loop {} ports)"

section \<open>Chips\<close>

definition offsetOf :: "port \<Rightarrow> int \<times> bool" where
  "offsetOf p = (if host_port p = 0 then (0, False) else (host_port p - container_port p, True))"

text \<open>The inner loop: how far the run that starts at \<open>f\<close> reaches, \<open>prev\<close> being its last port so far.\<close>

definition run_breaks :: "port \<Rightarrow> port \<Rightarrow> port \<Rightarrow> bool" where
  "run_breaks f prev nxt =
     (let (offset, hasOffset) = offsetOf f; (nextOffset, nextHasOffset) = offsetOf nxt
      in proto nxt \<noteq> proto f \<or> container_port nxt \<noteq> container_port prev + 1 \<or> nextHasOffset \<noteq> hasOffset
         \<or> hasOffset \<and> nextOffset \<noteq> offset)"

fun take_run :: "port \<Rightarrow> port \<Rightarrow> port list \<Rightarrow> port list \<times> port list" where
  "take_run f prev [] = ([], [])"
| "take_run f prev (n # ps) =
     (if run_breaks f prev n then ([], n # ps)
      else let (r, rest) = take_run f n ps in (n # r, rest))"

lemma take_run_append: "take_run f prev ps = (r, rest) \<Longrightarrow> ps = r @ rest"
  by (induction ps arbitrary: prev r) (auto split: if_splits prod.splits)

function port_runs :: "port list \<Rightarrow> port list list" where
  "port_runs [] = []"
| "port_runs (p # ps) = (let (r, rest) = take_run p p ps in (p # r) # port_runs rest)"
  by pat_completeness auto
termination
proof (relation "measure length")
  fix p ps x r rest
  assume "x = take_run p p ps" "(r, rest) = x"
  then have "ps = r @ rest" using take_run_append[of p p ps r rest] by simp
  then show "(rest, p # ps) \<in> measure length" by simp
qed simp

definition arrow :: string where "arrow = [CHR 0xE2, CHR 0x86, CHR 0x92]"

definition single_chip :: "port \<Rightarrow> port_chip" where
  "single_chip p =
     (if published p
      then \<lparr>chip_label = Itoa (host_port p) @ arrow @ Itoa (container_port p) @ ''/'' @ proto p, chip_published = True\<rparr>
      else \<lparr>chip_label = Itoa (container_port p) @ ''/'' @ proto p, chip_published = False\<rparr>)"

definition range_chip :: "port \<Rightarrow> port \<Rightarrow> port_chip" where
  "range_chip a b =
     (if snd (offsetOf a)
      then \<lparr>chip_label = Itoa (host_port a) @ ''-'' @ Itoa (host_port b) @ arrow @ Itoa (container_port a) @ ''-''
              @ Itoa (container_port b) @ ''/'' @ proto a, chip_published = True\<rparr>
      else \<lparr>chip_label = Itoa (container_port a) @ ''-'' @ Itoa (container_port b) @ ''/'' @ proto a, chip_published = False\<rparr>)"

definition run_chips :: "port list \<Rightarrow> port_chip list" where
  "run_chips r = (if length r \<ge> 3 then [range_chip (hd r) (last r)] else map single_chip r)"

definition buildPortChips :: "(port list \<Rightarrow> port list) \<Rightarrow> port list \<Rightarrow> port_chip list" where
  "buildPortChips srt ports = concat (map run_chips (port_runs (dedupePorts srt ports)))"

section \<open>Deduplication\<close>

lemma dedupe_loop_keys:
  "distinct (map port_key (dedupe_loop seen ps)) \<and> port_key ` set (dedupe_loop seen ps) = port_key ` set ps - seen
   \<and> set (dedupe_loop seen ps) \<subseteq> set ps"
  by (induction ps arbitrary: seen) auto

lemma dedupe_loop_first:
  "p \<in> set (dedupe_loop seen ps) \<Longrightarrow> find (\<lambda>q. port_key q = port_key p) ps = Some p"
proof (induction ps arbitrary: seen)
  case (Cons q ps)
  show ?case
  proof (cases "port_key q \<in> seen")
    case True
    then have "p \<in> set (dedupe_loop seen ps)" using Cons.prems by simp
    moreover have "port_key p \<notin> seen" using dedupe_loop_keys[of seen ps] calculation by blast
    ultimately show ?thesis using Cons.IH True by auto
  next
    case False
    show ?thesis
    proof (cases "p = q")
      case neq: False
      then have m: "p \<in> set (dedupe_loop (insert (port_key q) seen) ps)" using Cons.prems False by simp
      then have "port_key p \<noteq> port_key q" using dedupe_loop_keys[of "insert (port_key q) seen" ps] by blast
      with Cons.IH[OF m] show ?thesis by auto
    qed simp
  qed
qed simp

lemma port_less_weak: "weak_order_on (\<lambda>_. True) port_less"
  by (auto simp: weak_order_on_def port_less_def split: if_splits)

interpretation ports: slice_sort "\<lambda>_. True" port_less "sort_by port_less"
  by (rule sort_by_slice_sort[OF port_less_weak])

lemma port_runs_concat: "concat (port_runs ps) = ps"
  by (induction ps rule: port_runs.induct) (auto split: prod.splits dest: take_run_append)

text \<open>A run: consecutive container ports of one protocol with one offset to the host ports.\<close>

fun chained :: "port \<Rightarrow> port list \<Rightarrow> bool" where
  "chained f [] = True"
| "chained f [p] = True"
| "chained f (p # q # ps) = (\<not> run_breaks f p q \<and> chained f (q # ps))"

lemma take_run_chained: "take_run f prev ps = (r, rest) \<Longrightarrow> chained f (prev # r)"
  by (induction ps arbitrary: prev r) (auto split: if_splits prod.splits)

lemma port_runs_chained: "r \<in> set (port_runs ps) \<Longrightarrow> r \<noteq> [] \<and> chained (hd r) r"
  by (induction ps rule: port_runs.induct) (auto split: prod.splits dest: take_run_chained[OF sym])

lemma chained_nth:
  assumes "chained f (p # r)" "k < length (p # r)"
    and "proto p = proto f" "offsetOf p = offsetOf f"
  shows "proto ((p # r) ! k) = proto f \<and> container_port ((p # r) ! k) = container_port p + int k
     \<and> offsetOf ((p # r) ! k) = offsetOf f"
  using assms
proof (induction r arbitrary: p k)
  case Nil
  then show ?case by simp
next
  case (Cons q r)
  show ?case
  proof (cases k)
    case 0
    with Cons show ?thesis by simp
  next
    case (Suc j)
    have nb: "\<not> run_breaks f p q" "chained f (q # r)" using Cons.prems(1) by auto
    then have q: "proto q = proto f" "container_port q = container_port p + 1" "offsetOf q = offsetOf f"
      by (auto simp: run_breaks_def offsetOf_def split: if_splits)
    from Cons.IH[OF nb(2) _ q(1,3), of j] Cons.prems(2) Suc q(2) show ?thesis by simp
  qed
qed

section \<open>Properties\<close>

text \<open>deduplication keeps one entry per (host port, container port, protocol), the first reported one,
  loses no such triple, and gives them in order of container port and protocol, whatever sorting the
  runtime uses.\<close>

theorem dedupePorts_spec:
  assumes "slice_sort (\<lambda>_. True) port_less srt"
  shows "distinct (map port_key (dedupePorts srt ps)) \<and>
    port_key ` set (dedupePorts srt ps) = port_key ` set ps \<and>
    (\<forall>p \<in> set (dedupePorts srt ps). find (\<lambda>q. port_key q = port_key p) ps = Some p) \<and>
    sorted_wrt (\<lambda>p q. container_port p < container_port q \<or> container_port p = container_port q \<and> proto p \<le> proto q)
      (dedupePorts srt ps)"
proof -
  have s: "set (srt xs) = set xs" "distinct (map f (srt xs)) = distinct (map f xs)"
    "sorted_wrt (\<lambda>x y. \<not> port_less y x) (srt xs)" for xs and f :: "port \<Rightarrow> int \<times> int \<times> string"
    using slice_sort.srt_set[OF assms] slice_sort.srt_distinct_map[OF assms] slice_sort.srt_ordered[OF assms] by (auto simp: list_all_iff)
  have "sorted_wrt (\<lambda>p q. container_port p < container_port q \<or> container_port p = container_port q \<and> proto p \<le> proto q)
      (srt (dedupe_loop {} ps))"
    by (rule sorted_wrt_mono_rel[OF _ s(3)]) (auto simp: port_less_def split: if_splits)
  then show ?thesis
    using dedupe_loop_keys[of "{}" ps] dedupe_loop_first by (auto simp: dedupePorts_def s(1,2))
qed
theorem dedupePorts_spec_witness:
  "distinct (map port_key (dedupePorts (sort_by port_less) [\<lparr>host_ip = ''0.0.0.0'', host_port = 80, container_port = 80, proto = ''tcp'', published = True\<rparr>,
       \<lparr>host_ip = ''::'', host_port = 80, container_port = 80, proto = ''tcp'', published = True\<rparr>]))"
  by (rule dedupePorts_spec[OF ports.slice_sort_axioms, THEN conjunct1])

text \<open>The runs are as long as they can be.\<close>

lemma take_run_stops: "take_run f prev ps = (r, n # rest) \<Longrightarrow> run_breaks f (last (prev # r)) n"
  by (induction ps arbitrary: prev r) (auto split: if_splits prod.splits)

lemma port_runs_hd: "port_runs ps = r # rs \<Longrightarrow> \<exists>q qs. r = q # qs \<and> ps \<noteq> [] \<and> hd ps = q"
  by (cases ps) (auto split: prod.splits)

lemma port_runs_maximal:
  "Suc i < length (port_runs ps) \<Longrightarrow>
     run_breaks (hd (port_runs ps ! i)) (last (port_runs ps ! i)) (hd (port_runs ps ! Suc i))"
proof (induction ps arbitrary: i rule: port_runs.induct)
  case 1
  then show ?case by simp
next
  case (2 p ps)
  obtain r rest where t: "take_run p p ps = (r, rest)" by (cases "take_run p p ps") blast
  then have pr: "port_runs (p # ps) = (p # r) # port_runs rest" by simp
  have ih: "Suc j < length (port_runs rest) \<Longrightarrow> run_breaks (hd (port_runs rest ! j)) (last (port_runs rest ! j)) (hd (port_runs rest ! Suc j))" for j
    by (rule "2.IH"[OF refl t[symmetric]])
  show ?case
  proof (cases i)
    case 0
    with "2.prems" pr obtain r' rs where rs: "port_runs rest = r' # rs" by (cases "port_runs rest") auto
    from port_runs_hd[OF this] obtain q qs where q: "r' = q # qs" "rest \<noteq> []" "hd rest = q" by blast
    then have "rest = q # tl rest" by (metis list.collapse)
    then have "take_run p p ps = (r, q # tl rest)" using t by simp
    from take_run_stops[OF this] show ?thesis unfolding pr 0 rs q(1) by simp
  next
    case (Suc j)
    have "Suc j < length (port_runs rest)" using "2.prems" unfolding pr Suc by simp
    from ih[OF this] show ?thesis unfolding pr Suc by simp
  qed
qed

lemma offset_eq:
  "offsetOf q = offsetOf p \<longleftrightarrow>
     (if host_port p = 0 then host_port q = 0 else host_port q \<noteq> 0 \<and> host_port q - container_port q = host_port p - container_port p)"
  by (auto simp: offsetOf_def)

text \<open>A run written out: its ports count up on both sides from the first, and where the next one begins something breaks.\<close>

lemma run_nth:
  assumes "r \<in> set (port_runs ps)" "k < length r"
  shows "proto (r ! k) = proto (r ! 0) \<and> container_port (r ! k) = container_port (r ! 0) + int k \<and> offsetOf (r ! k) = offsetOf (r ! 0)"
proof -
  have r: "r \<noteq> []" "chained (hd r) r" using port_runs_chained[OF assms(1)] by blast+
  then obtain p r' where "r = p # r'" by (cases r) auto
  with r chained_nth[of p p r' k] assms(2) show ?thesis by simp
qed

lemma run_counts:
  assumes "r \<in> set (port_runs ps)" "k < length r"
  shows "proto (r ! k) = proto (r ! 0) \<and> container_port (r ! k) = container_port (r ! 0) + int k
    \<and> host_port (r ! k) = (if host_port (r ! 0) = 0 then 0 else host_port (r ! 0) + int k)"
  using run_nth[OF assms] by (auto simp: offset_eq split: if_splits)

lemma run_ends:
  assumes "Suc i < length (port_runs ps)" "a = last (port_runs ps ! i)" "b = hd (port_runs ps ! Suc i)"
  shows "proto b \<noteq> proto a \<or> container_port b \<noteq> container_port a + 1 \<or> (host_port b = 0) \<noteq> (host_port a = 0)
    \<or> host_port a \<noteq> 0 \<and> host_port b - container_port b \<noteq> host_port a - container_port a"
proof -
  let ?r = "port_runs ps ! i"
  have r: "?r \<in> set (port_runs ps)" using assms(1) by simp
  then have ne: "?r \<noteq> []" using port_runs_chained by blast
  then have "proto a = proto (hd ?r) \<and> offsetOf a = offsetOf (hd ?r)"
    using run_nth[OF r, of "length ?r - 1"] by (simp add: assms(2) last_conv_nth hd_conv_nth)
  moreover have "run_breaks (hd ?r) a b" using port_runs_maximal[OF assms(1)] by (simp add: assms(2,3))
  ultimately show ?thesis by (auto simp: run_breaks_def offsetOf_def split: if_splits)
qed

text \<open>C31: the chips partition the ports: the deduplicated list is cut into runs, each a stretch of container ports that count
  up by one under one protocol, on no host ports or on host ports that count up with them, and no run could have
  gone on into the next. One or two ports keep a chip each, labelled with their ports and protocol and the host port
  if published; three or more become the one chip labelled from the first to the last port on both sides.\<close>

theorem buildPortChips_partition:
  "\<exists>rs css. concat rs = dedupePorts srt ps \<and> concat css = buildPortChips srt ps \<and>
     list_all2 (\<lambda>r cs. r \<noteq> [] \<and>
       (\<forall>k < length r. proto (r ! k) = proto (r ! 0) \<and> container_port (r ! k) = container_port (r ! 0) + int k
          \<and> host_port (r ! k) = (if host_port (r ! 0) = 0 then 0 else host_port (r ! 0) + int k)) \<and>
       (if length r \<le> 2
        then cs = map (\<lambda>p. \<lparr>chip_label = (if published p then Itoa (host_port p) @ arrow else []) @ Itoa (container_port p) @ ''/'' @ proto p,
                          chip_published = published p\<rparr>) r
        else cs = [\<lparr>chip_label = (if host_port (r ! 0) = 0 then []
                            else Itoa (host_port (r ! 0)) @ ''-'' @ Itoa (host_port (r ! 0) + int (length r) - 1) @ arrow)
                       @ Itoa (container_port (r ! 0)) @ ''-'' @ Itoa (container_port (r ! 0) + int (length r) - 1) @ ''/'' @ proto (r ! 0),
                    chip_published = (host_port (r ! 0) \<noteq> 0)\<rparr>])) rs css \<and>
     (\<forall>i a b. Suc i < length rs \<longrightarrow> a = last (rs ! i) \<longrightarrow> b = hd (rs ! Suc i) \<longrightarrow>
        proto b \<noteq> proto a \<or> container_port b \<noteq> container_port a + 1 \<or> (host_port b = 0) \<noteq> (host_port a = 0)
        \<or> host_port a \<noteq> 0 \<and> host_port b - container_port b \<noteq> host_port a - container_port a)"
proof -
  let ?rs = "port_runs (dedupePorts srt ps)"
  have chips: "if length r \<le> 2
        then run_chips r = map (\<lambda>p. \<lparr>chip_label = (if published p then Itoa (host_port p) @ arrow else []) @ Itoa (container_port p) @ ''/'' @ proto p,
                          chip_published = published p\<rparr>) r
        else run_chips r = [\<lparr>chip_label = (if host_port (r ! 0) = 0 then []
                            else Itoa (host_port (r ! 0)) @ ''-'' @ Itoa (host_port (r ! 0) + int (length r) - 1) @ arrow)
                       @ Itoa (container_port (r ! 0)) @ ''-'' @ Itoa (container_port (r ! 0) + int (length r) - 1) @ ''/'' @ proto (r ! 0),
                    chip_published = (host_port (r ! 0) \<noteq> 0)\<rparr>]" if r: "r \<in> set ?rs" for r
  proof (cases "length r \<le> 2")
    case True
    then show ?thesis by (simp add: run_chips_def single_chip_def)
  next
    case False
    then have ne: "r \<noteq> []" "\<not> length r \<le> 2" "int (length r - 1) = int (length r) - 1" by auto
    have l: "container_port (last r) = container_port (r ! 0) + int (length r) - 1"
      "host_port (r ! 0) \<noteq> 0 \<Longrightarrow> host_port (last r) = host_port (r ! 0) + int (length r) - 1"
      using run_counts[OF r, of "length r - 1"] ne by (simp_all add: last_conv_nth)
    have "run_chips r = [range_chip (r ! 0) (last r)]" using ne by (simp add: run_chips_def hd_conv_nth)
    then show ?thesis unfolding if_not_P[OF ne(2)] using l by (simp add: range_chip_def offsetOf_def)
  qed
  have "list_all2 (\<lambda>r cs. r \<noteq> [] \<and>
       (\<forall>k < length r. proto (r ! k) = proto (r ! 0) \<and> container_port (r ! k) = container_port (r ! 0) + int k
          \<and> host_port (r ! k) = (if host_port (r ! 0) = 0 then 0 else host_port (r ! 0) + int k)) \<and>
       (if length r \<le> 2
        then cs = map (\<lambda>p. \<lparr>chip_label = (if published p then Itoa (host_port p) @ arrow else []) @ Itoa (container_port p) @ ''/'' @ proto p,
                          chip_published = published p\<rparr>) r
        else cs = [\<lparr>chip_label = (if host_port (r ! 0) = 0 then []
                            else Itoa (host_port (r ! 0)) @ ''-'' @ Itoa (host_port (r ! 0) + int (length r) - 1) @ arrow)
                       @ Itoa (container_port (r ! 0)) @ ''-'' @ Itoa (container_port (r ! 0) + int (length r) - 1) @ ''/'' @ proto (r ! 0),
                    chip_published = (host_port (r ! 0) \<noteq> 0)\<rparr>])) ?rs (map run_chips ?rs)"
    unfolding list_all2_map2 list.rel_refl_strong
    using chips run_counts port_runs_chained by (intro list.rel_refl_strong conjI allI impI) blast+
  moreover have "concat (map run_chips ?rs) = buildPortChips srt ps" by (simp add: buildPortChips_def)
  ultimately show ?thesis using port_runs_concat run_ends by (intro exI[of _ ?rs] exI[of _ "map run_chips ?rs"]) blast
qed

definition tcp_port :: "int \<Rightarrow> int \<Rightarrow> port" where
  "tcp_port h n = \<lparr>host_ip = ''0.0.0.0'', host_port = h, container_port = n, proto = ''tcp'', published = h \<noteq> 0\<rparr>"

definition ex_ports :: "port list" where
  "ex_ports = [tcp_port 92 82, tcp_port 90 80, tcp_port 91 81, tcp_port 99 83, tcp_port 0 84]"

text \<open>Three ports in a row at offset 10 are one chip; the next is at offset 16, the last is not published.\<close>

theorem buildPortChips_partition_witness:
  "\<exists>rs css. concat rs = dedupePorts (sort_by port_less) ex_ports \<and> length rs = length css
     \<and> concat css = [\<lparr>chip_label = ''90-92'' @ arrow @ ''80-82/tcp'', chip_published = True\<rparr>,
         \<lparr>chip_label = ''99'' @ arrow @ ''83/tcp'', chip_published = True\<rparr>, \<lparr>chip_label = ''84/tcp'', chip_published = False\<rparr>]"
proof -
  have c: "buildPortChips (sort_by port_less) ex_ports = [\<lparr>chip_label = ''90-92'' @ arrow @ ''80-82/tcp'', chip_published = True\<rparr>,
         \<lparr>chip_label = ''99'' @ arrow @ ''83/tcp'', chip_published = True\<rparr>, \<lparr>chip_label = ''84/tcp'', chip_published = False\<rparr>]"
    by code_simp
  from buildPortChips_partition[of "sort_by port_less" ex_ports] show ?thesis
    unfolding c by (metis (no_types, lifting) list_all2_lengthD)
qed

text \<open>Six ports published on both protocols: the order by container port first interleaves the protocols,
  so no run ever forms and every port is a chip of its own.\<close>

definition both_protos :: "port list" where
  "both_protos = concat (map (\<lambda>n. [\<lparr>host_ip = ''0.0.0.0'', host_port = n, container_port = n, proto = ''tcp'', published = True\<rparr>,
     \<lparr>host_ip = ''0.0.0.0'', host_port = n, container_port = n, proto = ''udp'', published = True\<rparr>]) [80, 81, 82])"

lemma chips_interleave: "length (buildPortChips (sort_by port_less) both_protos) = 6"
  by code_simp

lemma chips_one_proto:
  "buildPortChips (sort_by port_less) (filter (\<lambda>p. proto p = ''tcp'') both_protos) =
     [\<lparr>chip_label = ''80-82'' @ arrow @ ''80-82/tcp'', chip_published = True\<rparr>]"
  by code_simp

end
