(* ===== verification/Docker.thy ===== *)
theory Docker
  imports PortChips Rates
begin

text \<open>
  The Docker collector (internal/collector/docker.go): the container list and, for each container, live
  statistics, sizes and inspect data. The daemon is a function from request paths to responses, one per
  container built, so that no two requests need agree; its JSON decoders are parameters; every clock reading
  is an input. 64-bit sizes that Go reads as signed are words as well, \<open>sint\<close> their value.
\<close>

section \<open>Responses of the Docker Engine\<close>

record docker_port =
  dp_ip :: string
  dp_private :: int
  dp_public :: int
  dp_type :: string

record docker_mount =
  dm_type :: string
  dm_name :: string

record container_item =
  it_id :: string
  it_names :: "string list"
  it_image :: string
  it_state :: string
  it_status :: string
  it_ports :: "docker_port list"
  it_size_rw :: u64
  it_mounts :: "docker_mount list"

definition item_name :: "container_item \<Rightarrow> string" where
  "item_name c =
     (case it_names c of
        [] \<Rightarrow> if length (it_id c) > 12 then take 12 (it_id c) else it_id c
      | n # _ \<Rightarrow> if length n > 0 \<and> hd n = CHR ''/'' then tl n else n)"

record mem_stats =
  ms_usage :: u64
  ms_limit :: u64
  ms_cache :: u64
  ms_total_inactive :: u64
  ms_inactive :: u64

record stats_resp =
  st_cpu :: u64
  st_system :: u64
  st_online :: u64
  st_memory :: mem_stats
  st_io :: "(string \<times> u64) list"
  st_networks :: "(u64 \<times> u64) list"

record inspect_resp =
  ir_restarts :: int
  ir_health :: "string option"

definition cacheBytes :: "mem_stats \<Rightarrow> u64" where
  "cacheBytes m =
     (if ms_total_inactive m > 0 \<and> ms_total_inactive m < ms_usage m then ms_total_inactive m
      else if ms_inactive m > 0 \<and> ms_inactive m < ms_usage m then ms_inactive m
      else if ms_cache m > 0 \<and> ms_cache m < ms_usage m then ms_cache m
      else 0)"

fun blkio_loop :: "(string \<times> u64) list \<Rightarrow> u64 \<times> u64 \<Rightarrow> u64 \<times> u64" where
  "blkio_loop [] (r, w) = (r, w)"
| "blkio_loop ((op, v) # es) (r, w) =
     (if op = ''Read'' \<or> op = ''read'' then blkio_loop es (r + v, w)
      else if op = ''Write'' \<or> op = ''write'' then blkio_loop es (r, w + v)
      else blkio_loop es (r, w))"

definition blkioTotals :: "stats_resp \<Rightarrow> u64 \<times> u64" where
  "blkioTotals s = blkio_loop (st_io s) (0, 0)"

definition netTotals :: "stats_resp \<Rightarrow> u64 \<times> u64" where
  "netTotals s = fold (\<lambda>(rx, tx) (a, b). (a + rx, b + tx)) (st_networks s) (0, 0)"

text \<open>What a request returns: nothing, or a status and a body whose reading may fail.\<close>

type_synonym docker_response = "(int \<times> string option) option"

definition docker_get :: "(string \<Rightarrow> docker_response) \<Rightarrow> string \<Rightarrow> string option" where
  "docker_get srv path =
     (case srv path of None \<Rightarrow> None | Some (status, body) \<Rightarrow> if status \<ge> 400 then None else body)"

record codec =
  cd_list :: "string \<Rightarrow> container_item list option"
  cd_stats :: "string \<Rightarrow> stats_resp option"
  cd_inspect :: "string \<Rightarrow> inspect_resp option"
  cd_df :: "string \<Rightarrow> (string \<times> u64 option) list option"

section \<open>The collector\<close>

record container =
  ct_id :: string
  ct_name :: string
  ct_image :: string
  ct_state :: string
  ct_status :: string
  ct_ports :: "port list"
  ct_chips :: "port_chip list"
  ct_size_rw :: u64
  ct_volumes :: u64
  ct_restarts :: int
  ct_health :: string
  ct_cpu_pct :: f64
  ct_mem_used :: u64
  ct_mem_limit :: u64
  ct_mem_pct :: f64
  ct_block_read :: f64
  ct_block_write :: f64
  ct_net_rx :: f64
  ct_net_tx :: f64

record prev_sample =
  pv_cpu :: u64
  pv_system :: u64
  pv_blk_read :: u64
  pv_blk_write :: u64
  pv_net_rx :: u64
  pv_net_tx :: u64
  pv_at :: time

record inspect_meta =
  im_restarts :: int
  im_health :: string

record docker_collector =
  dk_containers :: "container list"
  dk_prev :: "string \<rightharpoonup> prev_sample"
  dk_last :: "string \<rightharpoonup> time"
  dk_inspect :: "string \<rightharpoonup> inspect_meta"
  dk_vol_sizes :: "string \<rightharpoonup> u64"
  dk_last_vol :: time

text \<open>A Go map gives the zero value for a key it does not hold.\<close>

definition zero_prev :: prev_sample where
  "zero_prev = \<lparr>pv_cpu = 0, pv_system = 0, pv_blk_read = 0, pv_blk_write = 0, pv_net_rx = 0, pv_net_tx = 0,
     pv_at = -62135596800 * Second\<rparr>"

definition NewDockerCollector :: "(string \<Rightarrow> docker_response) \<Rightarrow> docker_collector option" where
  "NewDockerCollector srv =
     (case docker_get srv ''/_ping'' of
        None \<Rightarrow> None
      | Some _ \<Rightarrow> Some \<lparr>dk_containers = [], dk_prev = (\<lambda>_. None), dk_last = (\<lambda>_. None), dk_inspect = (\<lambda>_. None),
          dk_vol_sizes = (\<lambda>_. None), dk_last_vol = -62135596800 * Second\<rparr>)"

definition docker_snapshot :: "docker_collector \<Rightarrow> container list" where
  "docker_snapshot d = dk_containers d"

definition prevOr :: "bool \<Rightarrow> u64 \<Rightarrow> u64" where
  "prevOr ok v = (if \<not> ok then 0 else v)"

definition stats_sample :: "stats_resp \<Rightarrow> time \<Rightarrow> prev_sample" where
  "stats_sample s now =
     (let (blkRead, blkWrite) = blkioTotals s; (netRx, netTx) = netTotals s
      in \<lparr>pv_cpu = st_cpu s, pv_system = st_system s, pv_blk_read = blkRead, pv_blk_write = blkWrite,
          pv_net_rx = netRx, pv_net_tx = netTx, pv_at = now\<rparr>)"

definition attach_cpu :: "bool \<Rightarrow> prev_sample \<Rightarrow> stats_resp \<Rightarrow> container \<Rightarrow> container" where
  "attach_cpu ok prev s c =
     (let cpuDelta = f_of_u64 (st_cpu s - prevOr ok (pv_cpu prev));
          sysDelta = f_of_u64 (st_system s - prevOr ok (pv_system prev));
          onlineCPUs = (if st_online s = 0 then 1 else st_online s)
      in if ok \<and> 0 < sysDelta \<and> 0 \<le> cpuDelta
         then c\<lparr>ct_cpu_pct := (cpuDelta / sysDelta) * f_of_int (sint onlineCPUs) * Fin 100\<rparr> else c)"

definition attach_mem :: "mem_stats \<Rightarrow> container \<Rightarrow> container" where
  "attach_mem m c =
     (let c1 = c\<lparr>ct_mem_used := ms_usage m - cacheBytes m, ct_mem_limit := ms_limit m\<rparr>
      in if ct_mem_limit c1 > 0
         then c1\<lparr>ct_mem_pct := Fin 100 * f_of_u64 (ct_mem_used c1) / f_of_u64 (ct_mem_limit c1)\<rparr> else c1)"

text \<open>One of the four rates: written only when its counter has not gone back.\<close>

definition bps :: "u64 \<Rightarrow> u64 \<Rightarrow> f64 \<Rightarrow> f64 \<Rightarrow> f64" where
  "bps cur prev dSeconds old = (if cur \<ge> prev then f_of_u64 (cur - prev) / dSeconds else old)"

definition attach_rates :: "bool \<Rightarrow> prev_sample \<Rightarrow> prev_sample \<Rightarrow> container \<Rightarrow> container" where
  "attach_rates ok prev cur c =
     (let dSeconds = seconds (t_sub (pv_at cur) (pv_at prev))
      in if ok \<and> 0 < dSeconds
         then c\<lparr>ct_block_read := bps (pv_blk_read cur) (pv_blk_read prev) dSeconds (ct_block_read c),
                ct_block_write := bps (pv_blk_write cur) (pv_blk_write prev) dSeconds (ct_block_write c),
                ct_net_rx := bps (pv_net_rx cur) (pv_net_rx prev) dSeconds (ct_net_rx c),
                ct_net_tx := bps (pv_net_tx cur) (pv_net_tx prev) dSeconds (ct_net_tx c)\<rparr>
         else c)"

definition attachLiveStats :: "codec \<Rightarrow> (string \<Rightarrow> docker_response) \<Rightarrow> string \<Rightarrow> time \<Rightarrow> container \<Rightarrow> docker_collector
    \<Rightarrow> container \<times> docker_collector" where
  "attachLiveStats cd srv cid now c d =
     (case Option.bind (docker_get srv (''/containers/'' @ cid @ ''/stats?stream=false'')) (cd_stats cd) of
        None \<Rightarrow> (c, d)
      | Some s \<Rightarrow>
          let cur = stats_sample s now;
              ok = dk_prev d cid \<noteq> None;
              prev = (case dk_prev d cid of None \<Rightarrow> zero_prev | Some p \<Rightarrow> p);
              d' = d\<lparr>dk_prev := (dk_prev d)(cid \<mapsto> cur)\<rparr>
          in (attach_rates ok prev cur (attach_mem (st_memory s) (attach_cpu ok prev s c)), d'))"

definition inspectOne :: "codec \<Rightarrow> (string \<Rightarrow> docker_response) \<Rightarrow> time \<Rightarrow> string \<Rightarrow> docker_collector \<Rightarrow> docker_collector" where
  "inspectOne cd srv now cid d =
     (let d1 = d\<lparr>dk_last := (dk_last d)(cid \<mapsto> now)\<rparr>
      in case Option.bind (docker_get srv (''/containers/'' @ cid @ ''/json'')) (cd_inspect cd) of
           None \<Rightarrow> d1
         | Some r \<Rightarrow> d1\<lparr>dk_inspect := (dk_inspect d1)(cid \<mapsto>
             \<lparr>im_restarts = ir_restarts r, im_health = (case ir_health r of None \<Rightarrow> [] | Some h \<Rightarrow> h)\<rparr>)\<rparr>)"

definition refreshVolumeSizes :: "codec \<Rightarrow> (string \<Rightarrow> docker_response) \<Rightarrow> time \<Rightarrow> docker_collector \<Rightarrow> docker_collector" where
  "refreshVolumeSizes cd srv now d =
     (let d1 = d\<lparr>dk_last_vol := now\<rparr>
      in case Option.bind (docker_get srv ''/system/df'') (cd_df cd) of
           None \<Rightarrow> d1
         | Some vs \<Rightarrow> d1\<lparr>dk_vol_sizes :=
             fold (\<lambda>(n, u) m. case u of None \<Rightarrow> m | Some z \<Rightarrow> m(n \<mapsto> z)) vs (\<lambda>_. None)\<rparr>)"

text \<open>The volumes a container mounts: the sum of the known sizes and whether any is known.\<close>

definition volume_usage :: "(string \<rightharpoonup> u64) \<Rightarrow> docker_mount list \<Rightarrow> u64 \<times> bool" where
  "volume_usage sizes mounts =
     fold (\<lambda>m (b, has). if dm_type m = ''volume''
             then (case sizes (dm_name m) of None \<Rightarrow> (b, has) | Some z \<Rightarrow> (b + z, True)) else (b, has))
       mounts (0, False)"

definition port_of :: "docker_port \<Rightarrow> port" where
  "port_of p = \<lparr>host_ip = dp_ip p, host_port = dp_public p, container_port = dp_private p, proto = dp_type p,
     published = (dp_public p \<noteq> 0)\<rparr>"

text \<open>What happens while one container is built: the daemon's answers, the clock when its age is checked, and
  the clock \<open>inspectOne\<close> reads.\<close>

record item_env =
  ie_get :: "string \<Rightarrow> docker_response"
  ie_check :: time
  ie_now :: time

definition base_container :: "(port list \<Rightarrow> port list) \<Rightarrow> container_item \<Rightarrow> container" where
  "base_container srt item =
     (let ports = map port_of (it_ports item)
      in \<lparr>ct_id = it_id item, ct_name = item_name item, ct_image = it_image item, ct_state = it_state item,
          ct_status = it_status item, ct_ports = dedupePorts srt ports, ct_chips = buildPortChips srt ports,
          ct_size_rw = it_size_rw item, ct_volumes = 0, ct_restarts = 0, ct_health = [], ct_cpu_pct = 0,
          ct_mem_used = 0, ct_mem_limit = 0, ct_mem_pct = 0, ct_block_read = 0, ct_block_write = 0,
          ct_net_rx = 0, ct_net_tx = 0\<rparr>)"

definition cached_container :: "(port list \<Rightarrow> port list) \<Rightarrow> container_item \<Rightarrow> docker_collector \<Rightarrow> container" where
  "cached_container srt item d =
     (let c = base_container srt item
      in case dk_inspect d (it_id item) of
           None \<Rightarrow> c | Some m \<Rightarrow> c\<lparr>ct_restarts := im_restarts m, ct_health := im_health m\<rparr>)"

definition live_container :: "codec \<Rightarrow> (port list \<Rightarrow> port list) \<Rightarrow> container_item \<Rightarrow> time \<Rightarrow> item_env \<Rightarrow> docker_collector
    \<Rightarrow> container \<times> docker_collector" where
  "live_container cd srt item now e d =
     (let c = cached_container srt item d
      in if it_state item = ''running'' then attachLiveStats cd (ie_get e) (it_id item) now c d else (c, d))"

definition buildContainer :: "codec \<Rightarrow> (port list \<Rightarrow> port list) \<Rightarrow> container_item \<Rightarrow> time \<Rightarrow> item_env \<Rightarrow> docker_collector
    \<Rightarrow> container \<times> docker_collector" where
  "buildContainer cd srt item now e d =
     (let (c2, d2) = live_container cd srt item now e d;
          (volBytes, hasVol) = volume_usage (dk_vol_sizes d2) (it_mounts item);
          c3 = (if hasVol then c2\<lparr>ct_volumes := volBytes\<rparr> else c2);
          last_inspect = (case dk_last d2 (it_id item) of None \<Rightarrow> -62135596800 * Second | Some t \<Rightarrow> t);
          d3 = (if t_sub (ie_check e) last_inspect > 15 * Second then inspectOne cd (ie_get e) (ie_now e) (it_id item) d2 else d2)
      in (c3, d3))"

text \<open>The loop over the items; \<open>envs i\<close> belongs to the \<open>i\<close>-th.\<close>

fun build_loop :: "codec \<Rightarrow> (port list \<Rightarrow> port list) \<Rightarrow> time \<Rightarrow> container_item list \<Rightarrow> (nat \<Rightarrow> item_env) \<Rightarrow> docker_collector
    \<Rightarrow> container list \<times> docker_collector" where
  "build_loop cd srt now [] envs d = ([], d)"
| "build_loop cd srt now (item # items) envs d =
     (let (c, d1) = buildContainer cd srt item now (envs 0) d;
          (cs, d2) = build_loop cd srt now items (\<lambda>i. envs (Suc i)) d1
      in (c # cs, d2))"

record refresh_env =
  re_get :: "string \<Rightarrow> docker_response"
  re_check :: time
  re_vol_now :: time
  re_now :: time
  re_items :: "nat \<Rightarrow> item_env"

definition docker_list :: "codec \<Rightarrow> refresh_env \<Rightarrow> container_item list option" where
  "docker_list cd e = Option.bind (docker_get (re_get e) ''/containers/json?all=true&size=true'') (cd_list cd)"

definition docker_refresh :: "codec \<Rightarrow> (port list \<Rightarrow> port list) \<Rightarrow> refresh_env \<Rightarrow> docker_collector \<Rightarrow> docker_collector" where
  "docker_refresh cd srt e d =
     (case docker_list cd e of
        None \<Rightarrow> d
      | Some items \<Rightarrow>
          let d1 = (if t_sub (re_check e) (dk_last_vol d) > 15 * Second
                    then refreshVolumeSizes cd (re_get e) (re_vol_now e) d else d);
              (out, d2) = build_loop cd srt (re_now e) items (re_items e) d1
          in d2\<lparr>dk_containers := out\<rparr>)"

section \<open>What a refresh leaves\<close>

text \<open>The part of a container that comes from the list alone.\<close>

definition identity :: "container \<Rightarrow> string \<times> string \<times> string \<times> string \<times> string \<times> port list \<times> port_chip list \<times> u64" where
  "identity c = (ct_id c, ct_name c, ct_image c, ct_state c, ct_status c, ct_ports c, ct_chips c, ct_size_rw c)"

definition meta :: "container \<Rightarrow> int \<times> string" where
  "meta c = (ct_restarts c, ct_health c)"

lemma attach_cpu_keeps [simp]: "identity (attach_cpu ok p s c) = identity c" "meta (attach_cpu ok p s c) = meta c"
  by (simp_all add: attach_cpu_def Let_def identity_def meta_def)

lemma attach_mem_keeps [simp]: "identity (attach_mem m c) = identity c" "meta (attach_mem m c) = meta c"
  by (simp_all add: attach_mem_def Let_def identity_def meta_def)

lemma attach_rates_keeps [simp]: "identity (attach_rates ok p q c) = identity c" "meta (attach_rates ok p q c) = meta c"
  by (simp_all add: attach_rates_def Let_def identity_def meta_def)

lemma attach_keeps:
  "attachLiveStats cd srv cid now c d = (c', d') \<Longrightarrow>
     identity c' = identity c \<and> meta c' = meta c \<and> dk_inspect d' = dk_inspect d \<and> dk_last d' = dk_last d
     \<and> dk_vol_sizes d' = dk_vol_sizes d"
  by (auto simp: attachLiveStats_def Let_def split: option.splits)

lemma inspect_keeps:
  "i \<noteq> cid \<Longrightarrow> dk_inspect (inspectOne cd srv now cid d) i = dk_inspect d i \<and> dk_last (inspectOne cd srv now cid d) i = dk_last d i"
  by (simp add: inspectOne_def Let_def split: option.splits)

lemma live_keeps:
  "live_container cd srt item now e d = (c2, d2) \<Longrightarrow>
     identity c2 = identity (base_container srt item)
     \<and> meta c2 = (case dk_inspect d (it_id item) of None \<Rightarrow> (0, []) | Some m \<Rightarrow> (im_restarts m, im_health m))
     \<and> dk_inspect d2 = dk_inspect d \<and> dk_last d2 = dk_last d \<and> dk_vol_sizes d2 = dk_vol_sizes d"
proof -
  assume l: "live_container cd srt item now e d = (c2, d2)"
  have c: "identity (cached_container srt item d) = identity (base_container srt item)"
    "meta (cached_container srt item d) = (case dk_inspect d (it_id item) of None \<Rightarrow> (0, []) | Some m \<Rightarrow> (im_restarts m, im_health m))"
    by (simp_all add: cached_container_def base_container_def identity_def meta_def Let_def split: option.splits)
  show ?thesis
  proof (cases "it_state item = ''running''")
    case True
    with l have "attachLiveStats cd (ie_get e) (it_id item) now (cached_container srt item d) d = (c2, d2)"
      by (simp add: live_container_def)
    from attach_keeps[OF this] c show ?thesis by simp
  next
    case False
    with l c show ?thesis by (auto simp: live_container_def Let_def)
  qed
qed

lemma build_parts:
  assumes "live_container cd srt item now e d = (c2, d2)"
  shows "identity (fst (buildContainer cd srt item now e d)) = identity c2"
    and "meta (fst (buildContainer cd srt item now e d)) = meta c2"
    and "snd (buildContainer cd srt item now e d) =
      (if t_sub (ie_check e) (case dk_last d2 (it_id item) of None \<Rightarrow> -62135596800 * Second | Some t \<Rightarrow> t) > 15 * Second
       then inspectOne cd (ie_get e) (ie_now e) (it_id item) d2 else d2)"
  by (simp_all add: buildContainer_def Let_def assms identity_def meta_def split: prod.splits)

lemma build_identity: "identity (fst (buildContainer cd srt item now e d)) = identity (base_container srt item)"
proof -
  obtain c2 d2 where l: "live_container cd srt item now e d = (c2, d2)" by fastforce
  show ?thesis using live_keeps[OF l] build_parts(1)[OF l] by simp
qed

lemma build_meta:
  "meta (fst (buildContainer cd srt item now e d)) =
     (case dk_inspect d (it_id item) of None \<Rightarrow> (0, []) | Some m \<Rightarrow> (im_restarts m, im_health m))"
proof -
  obtain c2 d2 where l: "live_container cd srt item now e d = (c2, d2)" by fastforce
  show ?thesis using live_keeps[OF l] build_parts(2)[OF l] by simp
qed

lemma build_other:
  assumes "i \<noteq> it_id item"
  shows "dk_inspect (snd (buildContainer cd srt item now e d)) i = dk_inspect d i
    \<and> dk_last (snd (buildContainer cd srt item now e d)) i = dk_last d i"
proof -
  obtain c2 d2 where l: "live_container cd srt item now e d = (c2, d2)" by fastforce
  show ?thesis unfolding build_parts(3)[OF l] using live_keeps[OF l] inspect_keeps[OF assms] by simp
qed

lemma since_zero_time: "t \<ge> 0 \<Longrightarrow> t_sub t (- 62135596800 * Second) > 15 * Second"
  by (simp add: t_sub_def max_dur_def min_dur_def)

lemma build_inspects:
  assumes "t_sub (ie_check e) (case dk_last d (it_id item) of None \<Rightarrow> -62135596800 * Second | Some t \<Rightarrow> t) > 15 * Second"
    and "docker_get (ie_get e) (''/containers/'' @ it_id item @ ''/json'') = Some raw" "cd_inspect cd raw = Some r"
  shows "dk_inspect (snd (buildContainer cd srt item now e d)) (it_id item) =
    Some \<lparr>im_restarts = ir_restarts r, im_health = (case ir_health r of None \<Rightarrow> [] | Some h \<Rightarrow> h)\<rparr>"
proof -
  obtain c2 d2 where l: "live_container cd srt item now e d = (c2, d2)" by fastforce
  show ?thesis unfolding build_parts(3)[OF l] using live_keeps[OF l] assms by (simp add: inspectOne_def Let_def)
qed

lemma build_loop_Cons:
  "fst (build_loop cd srt now (item # items) envs d) = fst (buildContainer cd srt item now (envs 0) d)
     # fst (build_loop cd srt now items (\<lambda>i. envs (Suc i)) (snd (buildContainer cd srt item now (envs 0) d)))"
  "snd (build_loop cd srt now (item # items) envs d) =
     snd (build_loop cd srt now items (\<lambda>i. envs (Suc i)) (snd (buildContainer cd srt item now (envs 0) d)))"
  by (simp_all split: prod.splits)

lemma build_loop_identity:
  "map identity (fst (build_loop cd srt now items envs d)) = map (\<lambda>i. identity (base_container srt i)) items"
  by (induction items arbitrary: envs d) (simp_all add: build_identity build_loop_Cons del: build_loop.simps(2))

text \<open>a refresh whose list request succeeds publishes exactly the listed containers, in the daemon's order, with the
  identity, state, ports and chips of the list; one that fails, at any stage, leaves the published snapshot and
  everything else as it was.\<close>

theorem docker_refresh_lists:
  "case docker_list cd e of
     None \<Rightarrow> docker_refresh cd srt e d = d
   | Some items \<Rightarrow> map identity (docker_snapshot (docker_refresh cd srt e d)) = map (\<lambda>i. identity (base_container srt i)) items"
  by (auto simp: docker_refresh_def docker_snapshot_def build_loop_identity Let_def split: option.splits prod.splits)
     (metis build_loop_identity fst_conv)+

section \<open>Inspect data\<close>

lemma build_loop_other:
  "i \<notin> it_id ` set items \<Longrightarrow> dk_inspect (snd (build_loop cd srt now items envs d)) i = dk_inspect d i
     \<and> dk_last (snd (build_loop cd srt now items envs d)) i = dk_last d i"
proof (induction items arbitrary: envs d)
  case (Cons item items)
  then show ?case by (simp add: build_loop_Cons build_other del: build_loop.simps(2))
qed simp

lemma distinct_head: "distinct (map f (x # xs)) \<Longrightarrow> j < length xs \<Longrightarrow> f (xs ! j) \<noteq> f x"
  by (metis distinct.simps(2) image_eqI list.set_map list.simps(9) nth_mem)

lemma build_loop_meta:
  assumes "distinct (map it_id items)" "i < length items"
  shows "meta (fst (build_loop cd srt now items envs d) ! i) =
    (case dk_inspect d (it_id (items ! i)) of None \<Rightarrow> (0, []) | Some m \<Rightarrow> (im_restarts m, im_health m))"
  using assms
proof (induction items arbitrary: i envs d)
  case (Cons item items)
  show ?case
  proof (cases i)
    case 0
    then show ?thesis by (simp add: build_loop_Cons build_meta del: build_loop.simps(2))
  next
    case (Suc j)
    then have "it_id (items ! j) \<noteq> it_id item" using Cons.prems by (intro distinct_head) auto
    with Cons Suc show ?thesis by (simp add: build_loop_Cons build_other del: build_loop.simps(2))
  qed
qed simp

definition last_of :: "docker_collector \<Rightarrow> string \<Rightarrow> time" where
  "last_of d cid = (case dk_last d cid of None \<Rightarrow> -62135596800 * Second | Some t \<Rightarrow> t)"

lemma build_loop_inspects:
  assumes "distinct (map it_id items)" "i < length items"
    and "t_sub (ie_check (envs i)) (last_of d (it_id (items ! i))) > 15 * Second"
    and "docker_get (ie_get (envs i)) (''/containers/'' @ it_id (items ! i) @ ''/json'') = Some raw" "cd_inspect cd raw = Some r"
  shows "dk_inspect (snd (build_loop cd srt now items envs d)) (it_id (items ! i)) =
    Some \<lparr>im_restarts = ir_restarts r, im_health = (case ir_health r of None \<Rightarrow> [] | Some h \<Rightarrow> h)\<rparr>"
  using assms
proof (induction items arbitrary: i envs d)
  case (Cons item items)
  show ?case
  proof (cases i)
    case 0
    then have "it_id item \<notin> it_id ` set items" using Cons.prems(1) by auto
    with 0 Cons.prems build_inspects[of "envs 0" d item raw cd r srt now] show ?thesis
      by (simp add: build_loop_Cons build_loop_other last_of_def del: build_loop.simps(2))
  next
    case (Suc j)
    let ?d = "snd (buildContainer cd srt item now (envs 0) d)"
    have "it_id (items ! j) \<noteq> it_id item" using Cons.prems Suc by (intro distinct_head) auto
    then have "last_of ?d (it_id (items ! j)) = last_of d (it_id (items ! j))" by (simp add: last_of_def build_other)
    with Cons.IH[of j "\<lambda>i. envs (Suc i)" ?d] Cons.prems Suc show ?thesis
      by (simp add: build_loop_Cons del: build_loop.simps(2))
  qed
qed simp

lemma volumes_keep [simp]:
  "dk_inspect (refreshVolumeSizes cd srv now d) = dk_inspect d" "dk_last (refreshVolumeSizes cd srv now d) = dk_last d"
  by (simp_all add: refreshVolumeSizes_def Let_def split: option.splits)

lemma refresh_parts:
  assumes "docker_list cd e = Some items"
  shows "\<exists>d1. dk_inspect d1 = dk_inspect d \<and> dk_last d1 = dk_last d
    \<and> docker_snapshot (docker_refresh cd srt e d) = fst (build_loop cd srt (re_now e) items (re_items e) d1)
    \<and> dk_inspect (docker_refresh cd srt e d) = dk_inspect (snd (build_loop cd srt (re_now e) items (re_items e) d1))
    \<and> dk_last (docker_refresh cd srt e d) = dk_last (snd (build_loop cd srt (re_now e) items (re_items e) d1))"
proof -
  define d1 where "d1 = (if t_sub (re_check e) (dk_last_vol d) > 15 * Second
    then refreshVolumeSizes cd (re_get e) (re_vol_now e) d else d)"
  have "dk_inspect d1 = dk_inspect d \<and> dk_last d1 = dk_last d" by (simp add: d1_def)
  moreover have "docker_refresh cd srt e d = (let (out, d2) = build_loop cd srt (re_now e) items (re_items e) d1 in d2\<lparr>dk_containers := out\<rparr>)"
    by (simp add: docker_refresh_def assms d1_def Let_def)
  ultimately show ?thesis by (intro exI[of _ d1]) (simp add: docker_snapshot_def split: prod.splits)
qed

text \<open>C24: restart count and health arrive: once the last inspection of a listed container is more than 15 seconds
  old, or there was none, one refresh asks the daemon and the next refresh that lists the container shows the answer,
  whatever else the two refreshes list.\<close>

theorem docker_meta_appears:
  assumes "docker_list cd e1 = Some items1" "distinct (map it_id items1)" "i < length items1" "it_id (items1 ! i) = cid"
    and "t_sub (ie_check (re_items e1 i)) (last_of d cid) > 15 * Second"
    and "docker_get (ie_get (re_items e1 i)) (''/containers/'' @ cid @ ''/json'') = Some raw" "cd_inspect cd raw = Some r"
    and "docker_list cd e2 = Some items2" "distinct (map it_id items2)" "j < length items2" "it_id (items2 ! j) = cid"
  shows "meta (docker_snapshot (docker_refresh cd srt e2 (docker_refresh cd srt e1 d)) ! j) =
    (ir_restarts r, case ir_health r of None \<Rightarrow> [] | Some h \<Rightarrow> h)"
proof -
  let ?d = "docker_refresh cd srt e1 d"
  obtain d1 where d1: "dk_last d1 = dk_last d"
    "dk_inspect ?d = dk_inspect (snd (build_loop cd srt (re_now e1) items1 (re_items e1) d1))"
    using refresh_parts[OF assms(1)] by metis
  have "last_of d1 cid = last_of d cid" by (simp add: last_of_def d1(1))
  with build_loop_inspects[OF assms(2,3), of "re_items e1" d1 raw cd r srt "re_now e1"] assms(4-7)
  have m: "dk_inspect ?d cid = Some \<lparr>im_restarts = ir_restarts r, im_health = (case ir_health r of None \<Rightarrow> [] | Some h \<Rightarrow> h)\<rparr>"
    unfolding d1(2) by simp
  obtain d2 where d2: "dk_inspect d2 = dk_inspect ?d"
    "docker_snapshot (docker_refresh cd srt e2 ?d) = fst (build_loop cd srt (re_now e2) items2 (re_items e2) d2)"
    using refresh_parts[OF assms(8)] by metis
  show ?thesis unfolding d2(2) build_loop_meta[OF assms(9,10)] d2(1) assms(11) m by simp
qed

definition ex_item :: container_item where
  "ex_item = \<lparr>it_id = ''abc'', it_names = [''/web''], it_image = ''nginx'', it_state = ''running'', it_status = ''Up'',
     it_ports = [], it_size_rw = 0, it_mounts = []\<rparr>"

definition ex_container :: container where
  "ex_container = base_container (sort_by port_less) ex_item"

definition ex_mem :: mem_stats where
  "ex_mem = \<lparr>ms_usage = 900, ms_limit = 1600, ms_cache = 0, ms_total_inactive = 0, ms_inactive = 500\<rparr>"

definition ex_stats :: "u64 \<Rightarrow> u64 \<Rightarrow> u64 \<Rightarrow> stats_resp" where
  "ex_stats c s io = \<lparr>st_cpu = c, st_system = s, st_online = 2, st_memory = ex_mem, st_io = [(''Read'', io), (''Sync'', 7)],
     st_networks = []\<rparr>"

definition ex_codec :: "stats_resp \<Rightarrow> codec" where
  "ex_codec s = \<lparr>cd_list = (\<lambda>_. Some [ex_item]), cd_stats = (\<lambda>_. Some s),
     cd_inspect = (\<lambda>_. Some \<lparr>ir_restarts = 3, ir_health = Some ''healthy''\<rparr>), cd_df = (\<lambda>_. None)\<rparr>"

definition ex_daemon :: "string \<Rightarrow> docker_response" where
  "ex_daemon path = Some (200, Some path)"

definition ex_refresh :: "time \<Rightarrow> refresh_env" where
  "ex_refresh t = \<lparr>re_get = ex_daemon, re_check = t, re_vol_now = t, re_now = t,
     re_items = (\<lambda>_. \<lparr>ie_get = ex_daemon, ie_check = t, ie_now = t\<rparr>)\<rparr>"

definition ex_collector :: docker_collector where
  "ex_collector = \<lparr>dk_containers = [], dk_prev = (\<lambda>_. None), dk_last = (\<lambda>_. None), dk_inspect = (\<lambda>_. None),
     dk_vol_sizes = (\<lambda>_. None), dk_last_vol = -62135596800 * Second\<rparr>"

lemma ex_collector_new: "NewDockerCollector ex_daemon = Some ex_collector"
  by (simp add: NewDockerCollector_def docker_get_def ex_daemon_def ex_collector_def)

lemma ex_list [simp]: "docker_list (ex_codec s) (ex_refresh t) = Some [ex_item]"
  by (simp add: docker_list_def docker_get_def ex_refresh_def ex_daemon_def ex_codec_def)

theorem docker_meta_appears_witness:
  "meta (docker_snapshot (docker_refresh (ex_codec (ex_stats 0 0 0)) (sort_by port_less) (ex_refresh 2)
     (docker_refresh (ex_codec (ex_stats 0 0 0)) (sort_by port_less) (ex_refresh 0) ex_collector)) ! 0) = (3, ''healthy'')"
proof -
  have "t_sub (ie_check (re_items (ex_refresh 0) 0)) (last_of ex_collector ''abc'') > 15 * Second"
    using since_zero_time[of 0] by (simp add: ex_refresh_def last_of_def ex_collector_def)
  moreover have "docker_get (ie_get (re_items (ex_refresh 0) 0)) (''/containers/'' @ ''abc'' @ ''/json'') = Some ''/containers/abc/json''"
    by (simp add: docker_get_def ex_refresh_def ex_daemon_def)
  moreover have "cd_inspect (ex_codec (ex_stats 0 0 0)) ''/containers/abc/json'' = Some \<lparr>ir_restarts = 3, ir_health = Some ''healthy''\<rparr>"
    by (simp add: ex_codec_def)
  moreover have "it_id ([ex_item] ! 0) = ''abc''" by (simp add: ex_item_def)
  ultimately show ?thesis
    using docker_meta_appears[of "ex_codec (ex_stats 0 0 0)" "ex_refresh 0" "[ex_item]" 0 "''abc''" ex_collector
        "''/containers/abc/json''" "\<lparr>ir_restarts = 3, ir_health = Some ''healthy''\<rparr>" "ex_refresh 2" "[ex_item]" 0 "sort_by port_less"] by simp
qed

section \<open>The numbers\<close>

text \<open>The floats of a container that JSON can carry: no infinity, no NaN.\<close>

definition container_finite :: "container \<Rightarrow> bool" where
  "container_finite c \<longleftrightarrow> is_fin (ct_cpu_pct c) \<and> is_fin (ct_mem_pct c) \<and> is_fin (ct_block_read c)
     \<and> is_fin (ct_block_write c) \<and> is_fin (ct_net_rx c) \<and> is_fin (ct_net_tx c)"

lemma mkf_bounded:
  assumes "\<bar>x\<bar> \<le> 2 ^ k" "k \<le> 200"
  shows "\<exists>v. mkf x = Fin v \<and> \<bar>v\<bar> \<le> 2 ^ k"
proof -
  have "(2 :: rat) ^ k \<le> 2 ^ 200" using assms(2) by (intro power_increasing) auto
  then have "mkf x = Fin (rnd x)" using assms(1) by (intro mkf_small) linarith
  moreover have "rnd x \<le> 2 ^ k" "rnd (- x) \<le> 2 ^ k" using assms(1) by (intro rnd_le_pow; simp add: abs_le_iff)+
  then have "\<bar>rnd x\<bar> \<le> 2 ^ k" by (simp add: rnd_minus abs_le_iff)
  ultimately show ?thesis by blast
qed

lemma f_of_u64_pos: "0 < (w :: u64) \<Longrightarrow> \<exists>a. f_of_u64 w = Fin a \<and> 1 \<le> a"
proof -
  assume "0 < w"
  then have "1 \<le> unat w" by (simp add: unat_gt_0 Suc_le_eq word_greater_zero_iff)
  then have "of_int 1 \<le> (of_nat (unat w) :: rat)" by (simp del: of_nat_unat)
  then have "1 \<le> rnd (of_nat (unat w))" using rnd_ge_int[of 1 "of_nat (unat w)"] by (simp del: of_nat_unat)
  then show ?thesis by (simp add: f_of_u64_fin del: of_nat_unat)
qed

lemma one_ge_powi: "(1 :: rat) \<le> x \<Longrightarrow> 2 powi (-30) \<le> x"
  by (simp add: powi_m30)

lemma cpu_fin:
  assumes "0 < f_of_u64 b"
  shows "is_fin ((f_of_u64 a / f_of_u64 b) * f_of_int (sint (n :: u64)) * Fin 100)"
proof -
  have "b \<noteq> 0" using assms by (auto simp: f_of_u64_fin)
  then have "0 < b" by (simp add: word_neq_0_conv)
  then obtain y where y: "f_of_u64 b = Fin y" "1 \<le> y" using f_of_u64_pos by blast
  obtain x where x: "f_of_u64 a = Fin x" "0 \<le> x" "x \<le> 2 ^ 64" using f_of_u64_le by blast
  have "x / y \<le> 2 ^ 64 / 1" using x y by (intro frac_le) auto
  then have "\<bar>x / y\<bar> \<le> 2 ^ 64" using x y by simp
  then obtain q where q: "mkf (x / y) = Fin q" "\<bar>q\<bar> \<le> 2 ^ 64" using mkf_bounded[of "x / y" 64] by auto
  have "\<bar>sint n\<bar> \<le> 2 ^ 63" using sint_lt[of n] sint_ge[of n] by auto
  then have "\<bar>of_int (sint n) :: rat\<bar> \<le> of_int (2 ^ 63)" by (metis of_int_abs of_int_le_iff)
  then obtain v where v: "f_of_int (sint n) = Fin v" "\<bar>v\<bar> \<le> 2 ^ 63"
    using mkf_bounded[of "of_int (sint n)" 63] by (auto simp: f_of_int_def)
  have "\<bar>q * v\<bar> \<le> 2 ^ 64 * 2 ^ 63" unfolding abs_mult using q v by (intro mult_mono) auto
  then obtain u where u: "mkf (q * v) = Fin u" "\<bar>u\<bar> \<le> 2 ^ 127" using mkf_bounded[of "q * v" 127] by auto
  have "\<bar>u * 100\<bar> \<le> 2 ^ 127 * 2 ^ 7" unfolding abs_mult using u by (intro mult_mono) auto
  then obtain t where "mkf (u * 100) = Fin t" using mkf_bounded[of "u * 100" 134] by auto
  with q u v y show ?thesis by (simp add: x(1))
qed

lemma mem_fin:
  assumes "0 < l"
  shows "is_fin (Fin 100 * f_of_u64 u / f_of_u64 l)"
proof -
  obtain y where y: "f_of_u64 l = Fin y" "1 \<le> y" using f_of_u64_pos[OF assms] by blast
  obtain x where x: "f_of_u64 u = Fin x" "0 \<le> x" "x \<le> 2 ^ 64" using f_of_u64_le by blast
  have "100 * x \<le> 2 ^ 7 * 2 ^ 64" using x by (intro mult_mono) auto
  then obtain m where m: "mkf (100 * x) = Fin m" "\<bar>m\<bar> \<le> 2 ^ 71" using mkf_bounded[of "100 * x" 71] x(2) by auto
  have "\<bar>m / y\<bar> \<le> 2 ^ 71 / 1" unfolding abs_divide using m y by (intro frac_le) auto
  then obtain t where "mkf (m / y) = Fin t" using mkf_bounded[of "m / y" 71] by auto
  with m y show ?thesis by (simp add: x(1))
qed

lemma attach_cpu_finite: "container_finite c \<Longrightarrow> container_finite (attach_cpu ok p s c)"
proof -
  assume c: "container_finite c"
  define n where "n = (if st_online s = 0 then 1 else st_online s)"
  define a where "a = st_cpu s - prevOr ok (pv_cpu p)"
  define b where "b = st_system s - prevOr ok (pv_system p)"
  show ?thesis using c cpu_fin[of b a n]
    by (simp add: attach_cpu_def Let_def n_def[symmetric] a_def[symmetric] b_def[symmetric] container_finite_def del: f64_ops)
qed

lemma attach_mem_finite: "container_finite c \<Longrightarrow> container_finite (attach_mem m c)"
  using mem_fin by (auto simp: attach_mem_def Let_def container_finite_def simp del: f64_ops)

lemma bps_finite: "0 < seconds (t_sub t u) \<Longrightarrow> is_fin old \<Longrightarrow> is_fin (bps a b (seconds (t_sub t u)) old)"
proof -
  assume s: "0 < seconds (t_sub t u)" "is_fin old"
  obtain x where x: "seconds (t_sub t u) = Fin x" "if t > u then 2 powi (-30) \<le> x else x \<le> 0" using seconds_sub by blast
  with s(1) have "2 powi (-30) \<le> x" by (auto split: if_splits)
  then obtain v where "f_of_u64 (a - b) / Fin x = Fin v" using u64_rate by blast
  then show ?thesis using s(2) by (simp add: bps_def x(1))
qed

lemma attach_rates_finite: "container_finite c \<Longrightarrow> container_finite (attach_rates ok p q c)"
  by (simp add: attach_rates_def Let_def container_finite_def bps_finite)

lemma build_finite: "container_finite (fst (buildContainer cd srt item now e d))"
proof -
  obtain c2 d2 where l: "live_container cd srt item now e d = (c2, d2)" by fastforce
  have b: "container_finite (cached_container srt item d)"
    by (simp add: cached_container_def base_container_def Let_def container_finite_def split: option.splits)
  then have "container_finite c2" using l
    by (auto simp: live_container_def attachLiveStats_def Let_def attach_cpu_finite attach_mem_finite attach_rates_finite
        split: if_splits option.splits)
  then show ?thesis by (simp add: buildContainer_def l Let_def container_finite_def split: prod.splits)
qed

lemma build_loop_finite: "list_all container_finite (fst (build_loop cd srt now items envs d))"
  by (induction items arbitrary: envs d) (simp_all add: build_loop_Cons build_finite del: build_loop.simps(2))

interpretation docker: invariant_ops "\<lambda>(cd, srt) e d. docker_refresh cd srt e d" "\<lambda>d. list_all container_finite (docker_snapshot d)"
proof (unfold_locales, clarsimp)
  fix d cd srt e assume d: "list_all container_finite (docker_snapshot d)"
  show "list_all container_finite (docker_snapshot (docker_refresh cd srt e d))"
  proof (cases "docker_list cd e")
    case None
    then show ?thesis using d by (simp add: docker_refresh_def)
  next
    case (Some items)
    from refresh_parts[OF this, of d srt] obtain d1 where
      "docker_snapshot (docker_refresh cd srt e d) = fst (build_loop cd srt (re_now e) items (re_items e) d1)" by blast
    then show ?thesis by (simp add: build_loop_finite)
  qed
qed

lemma ex_snapshot: "docker_snapshot (docker_refresh (ex_codec s) srt (ex_refresh t) d) \<noteq> []"
proof -
  from refresh_parts[where d = d and srt = srt, OF ex_list, of s t] obtain d1 where
    "docker_snapshot (docker_refresh (ex_codec s) srt (ex_refresh t) d) =
      fst (build_loop (ex_codec s) srt (re_now (ex_refresh t)) [ex_item] (re_items (ex_refresh t)) d1)" by metis
  then show ?thesis by (simp add: build_loop_Cons del: build_loop.simps(2))
qed

text \<open>C23: whatever the daemon answers and however the clock and the counters jump, every percentage and rate of every
  published container is a finite float, one that the JSON encoder accepts: it refuses infinities and NaN,
  and with them the whole response.\<close>

theorem docker_numbers_finite:
  assumes "NewDockerCollector srv = Some d0"
  shows "list_all container_finite (docker_snapshot (foldl (\<lambda>d (cs, e). docker_refresh (fst cs) (snd cs) e d) d0 polls))"
proof -
  have "list_all container_finite (docker_snapshot d0)"
    using assms by (auto simp: NewDockerCollector_def docker_snapshot_def split: option.splits)
  from docker.run_inv[OF this, of polls] show ?thesis by (simp add: split_def)
qed

theorem docker_numbers_finite_witness:
  "container_finite (hd (docker_snapshot (docker_refresh (ex_codec (ex_stats 5 9 0)) (sort_by port_less) (ex_refresh 0) ex_collector)))"
proof -
  let ?d = "docker_refresh (ex_codec (ex_stats 5 9 0)) (sort_by port_less) (ex_refresh 0) ex_collector"
  have "list_all container_finite (docker_snapshot ?d)"
    using docker_numbers_finite[OF ex_collector_new, of "[((ex_codec (ex_stats 5 9 0), sort_by port_less), ex_refresh 0)]"] by simp
  moreover have "docker_snapshot ?d \<noteq> []"
    using ex_snapshot[of "ex_stats 5 9 0" "sort_by port_less" 0 ex_collector] by auto
  ultimately show ?thesis by (cases "docker_snapshot ?d") auto
qed

section \<open>Memory\<close>

lemma cacheBytes_le: "cacheBytes m \<le> ms_usage m"
  by (auto simp: cacheBytes_def)

text \<open>the memory of a running container is its usage less the reclaimable page cache, a subtraction that never wraps,
  and, for limits below 80 TiB, its percentage is the correctly rounded share of the limit, between 0 and 100.\<close>

theorem docker_memory:
  assumes "unat (ms_usage m) \<le> unat (ms_limit m)" "0 < unat (ms_limit m)" "100 * unat (ms_limit m) < 2 ^ 53"
  shows "unat (ct_mem_used (attach_mem m c)) = unat (ms_usage m) - unat (cacheBytes m)
    \<and> ct_mem_pct (attach_mem m c) = Fin (pct (unat (ms_usage m) - unat (cacheBytes m)) (unat (ms_limit m)))
    \<and> 0 \<le> pct (unat (ms_usage m) - unat (cacheBytes m)) (unat (ms_limit m))
    \<and> pct (unat (ms_usage m) - unat (cacheBytes m)) (unat (ms_limit m)) \<le> 100"
proof -
  let ?u = "unat (ms_usage m) - unat (cacheBytes m)" and ?l = "unat (ms_limit m)"
  have u: "unat (ms_usage m - cacheBytes m) = ?u" by (rule u64_diff[OF cacheBytes_le])
  have le: "?u \<le> ?l" using assms(1) by linarith
  have lt: "?l < 2 ^ 53" "?u < 2 ^ 53" using assms(3) le by linarith+
  have "f_of_u64 (ms_limit m) = Fin (of_nat ?l)" by (rule f_of_u64_exact[OF lt(1)])
  moreover have "f_of_u64 (ms_usage m - cacheBytes m) = Fin (of_nat ?u)"
    using f_of_u64_exact[of "ms_usage m - cacheBytes m"] lt(2) u by simp
  moreover have "ms_limit m > 0" using assms(2) by (simp add: word_greater_zero_iff unat_gt_0)
  ultimately have "ct_mem_pct (attach_mem m c) = Fin (pct ?u ?l)"
    using pct_float[OF assms(2) le assms(3)] by (simp add: attach_mem_def Let_def del: f64_ops of_nat_diff)
  moreover have "ct_mem_used (attach_mem m c) = ms_usage m - cacheBytes m" by (simp add: attach_mem_def Let_def)
  ultimately show ?thesis using u pct_bounds[OF le assms(2)] by simp
qed

theorem docker_memory_witness:
  "unat (ct_mem_used (attach_mem ex_mem ex_container)) = 400 \<and> ct_mem_pct (attach_mem ex_mem ex_container) = Fin 25"
proof -
  have "cacheBytes ex_mem = 500" by (simp add: cacheBytes_def ex_mem_def)
  moreover have "rnd 25 = 25" using rnd_int[of 25] by simp
  ultimately show ?thesis using docker_memory[of ex_mem ex_container] by (simp add: ex_mem_def pct_def)
qed

section \<open>A restarted container\<close>

lemma mkf_between:
  assumes "2 ^ j \<le> x" "x \<le> 2 ^ k" "k \<le> 200"
  shows "\<exists>v. mkf x = Fin v \<and> 2 ^ j \<le> v \<and> v \<le> 2 ^ k"
proof -
  have x: "0 \<le> x" using assms(1) zero_le_power[of "2 :: rat" j] by linarith
  have "(2 :: rat) ^ k \<le> 2 ^ 200" using assms(3) by (intro power_increasing) auto
  then have "mkf x = Fin (rnd x)" using assms(2) x by (intro mkf_small) simp
  then show ?thesis using rnd_ge_pow[OF assms(1)] rnd_le_pow[OF assms(2)] by blast
qed

text \<open>the CPU counter of a container that is restarted begins again. The guard on the difference is vacuous, since the
  unsigned subtraction has wrapped before it: with a host that spent up to \<open>2^40\<close> ns since the last poll the
  published percentage is above \<open>2^29\<close>, whatever the container used.\<close>

theorem docker_restart_spike:
  assumes "st_cpu s < pv_cpu prev" "unat (pv_cpu prev) - unat (st_cpu s) \<le> 2 ^ 63"
    and "pv_system prev < st_system s" "unat (st_system s) - unat (pv_system prev) \<le> 2 ^ 40"
    and "1 \<le> sint (st_online s)"
  shows "\<exists>v. ct_cpu_pct (attach_cpu True prev s c) = Fin v \<and> 2 ^ 29 \<le> v"
proof -
  let ?a = "st_cpu s - pv_cpu prev" and ?b = "st_system s - pv_system prev"
  have "unat ?a = 2 ^ 64 - (unat (pv_cpu prev) - unat (st_cpu s))"
    using assms(1) unat_sub_if'[of "st_cpu s" "pv_cpu prev"] by (simp add: word_less_nat_alt)
  then have a: "2 ^ 63 \<le> unat ?a" "unat ?a \<le> 2 ^ 64" using assms(2) by simp_all
  have "(2 :: rat) ^ 63 \<le> of_nat (unat ?a)" "of_nat (unat ?a) \<le> (2 :: rat) ^ 64"
    using a by (metis of_nat_le_iff of_nat_numeral of_nat_power)+
  then obtain x where x: "f_of_u64 ?a = Fin x" "2 ^ 63 \<le> x" "x \<le> 2 ^ 64"
    using mkf_between[of 63 "of_nat (unat ?a)" 64] by (auto simp: f_of_u64_def)
  have "unat ?b \<le> 2 ^ 40" using u64_diff[of "pv_system prev" "st_system s"] assms(3,4) by simp
  then have b: "of_nat (unat ?b) \<le> (2 :: rat) ^ 40" by (metis of_nat_le_iff of_nat_numeral of_nat_power)
  have "0 < ?b" using assms(3) by (simp add: word_greater_zero_iff)
  then obtain y where y: "f_of_u64 ?b = Fin y" "1 \<le> y" using f_of_u64_pos by blast
  have yb: "y \<le> 2 ^ 40" using y(1) rnd_le_pow[OF b] by (simp add: f_of_u64_fin)
  have "(2 :: rat) ^ 63 / 2 ^ 40 \<le> x / y" "x / y \<le> 2 ^ 64 / 1" using x y yb by (intro frac_le; simp)+
  then obtain q where q: "mkf (x / y) = Fin q" "2 ^ 23 \<le> q" "q \<le> 2 ^ 64" using mkf_between[of 23 "x / y" 64] by auto
  have "1 \<le> sint (st_online s)" "sint (st_online s) \<le> 2 ^ 63" using assms(5) sint_lt[of "st_online s"] by auto
  moreover have "(2 :: rat) ^ 0 \<le> of_int i \<and> of_int i \<le> (2 :: rat) ^ 63" if "1 \<le> i" "i \<le> 2 ^ 63" for i :: int
    using that of_int_le_iff[of i "2 ^ 63", where ?'a = rat] by simp
  ultimately have "(2 :: rat) ^ 0 \<le> of_int (sint (st_online s))" "of_int (sint (st_online s)) \<le> (2 :: rat) ^ 63" by blast+
  then obtain n where n: "f_of_int (sint (st_online s)) = Fin n" "1 \<le> n" "n \<le> 2 ^ 63"
    using mkf_between[of 0 "of_int (sint (st_online s))" 63] by (auto simp: f_of_int_def)
  have "(2 :: rat) ^ 23 * 1 \<le> q * n" "q * n \<le> 2 ^ 64 * 2 ^ 63" using q n by (intro mult_mono; simp)+
  then obtain w where w: "mkf (q * n) = Fin w" "2 ^ 23 \<le> w" "w \<le> 2 ^ 127" using mkf_between[of 23 "q * n" 127] by auto
  have "(2 :: rat) ^ 23 * 2 ^ 6 \<le> w * 100" "w * 100 \<le> 2 ^ 127 * 2 ^ 7" using w by (intro mult_mono; simp)+
  then obtain v where v: "mkf (w * 100) = Fin v" "2 ^ 29 \<le> v" using mkf_between[of 29 "w * 100" 134] by auto
  have "st_online s \<noteq> 0" using assms(5) by auto
  then have "ct_cpu_pct (attach_cpu True prev s c) = Fin v"
    using x y q n w v by (simp add: attach_cpu_def Let_def prevOr_def)
  then show ?thesis using v(2) by blast
qed

theorem docker_restart_spike_witness:
  "\<exists>v. ct_cpu_pct (attach_cpu True (zero_prev\<lparr>pv_cpu := 5000, pv_system := 70000\<rparr>) (ex_stats 40 90000 0) ex_container) = Fin v \<and> 2 ^ 29 \<le> v"
  by (rule docker_restart_spike) (simp_all add: ex_stats_def zero_prev_def)


text \<open>The daemon gives \<open>-1\<close> for a size it does not know; it is added like any other.\<close>

lemma unknown_volume_size:
  "sint (fst (volume_usage [''a'' \<mapsto> -1, ''b'' \<mapsto> 700] [\<lparr>dm_type = ''volume'', dm_name = ''a''\<rparr>])) = -1
   \<and> sint (fst (volume_usage [''a'' \<mapsto> -1, ''b'' \<mapsto> 700] [\<lparr>dm_type = ''volume'', dm_name = ''a''\<rparr>, \<lparr>dm_type = ''volume'', dm_name = ''b''\<rparr>])) = 699"
  by (simp add: volume_usage_def)

end
