(* ===== verification/History.thy ===== *)
theory History
  imports EventLog Metrics ProcText
begin

text \<open>
  The statistics endpoints (internal/api/metric_lookup.go and handler_stats.go): the lookup of one metric in
  a snapshot, the latest snapshot, and the sparkline that averages the stored samples in buckets.
\<close>

section \<open>One metric of a snapshot\<close>

text \<open>\<open>None\<close> is \<open>(0, false)\<close>.\<close>

definition diskIOField :: "disk_io \<Rightarrow> string \<Rightarrow> f64" where
  "diskIOField io metric =
     (if metric = ''disk_io.read_bps'' then read_bps io
      else if metric = ''disk_io.write_bps'' then write_bps io
      else if metric = ''disk_io.read_iops'' then read_iops io
      else if metric = ''disk_io.write_iops'' then write_iops io
      else if metric = ''disk_io.latency_ms'' then latency_ms io
      else 0)"

definition diskIOValue :: "disk_io list \<Rightarrow> string \<Rightarrow> string \<Rightarrow> f64 option" where
  "diskIOValue all metric device =
     (if device \<noteq> [] then map_option (\<lambda>io. diskIOField io metric) (find (\<lambda>io. io_device io = device) all)
      else if length all = 0 then None
      else let (sum, mx) = foldl (\<lambda>(sum, mx) io. let v = diskIOField io metric in (sum + v, if v > mx then v else mx)) (0, 0) all
           in Some (if metric = ''disk_io.latency_ms'' then mx else sum))"

definition netField :: "net_iface \<Rightarrow> string \<Rightarrow> f64" where
  "netField n metric =
     (if metric = ''net.rx_bps'' then rx_bps n
      else if metric = ''net.tx_bps'' then tx_bps n
      else if metric = ''net.packets_ps'' then packets_ps n
      else if metric = ''net.errors_ps'' then errors_ps n
      else if metric = ''net.drops_ps'' then drops_ps n
      else 0)"

definition netValue :: "net_iface list \<Rightarrow> string \<Rightarrow> string \<Rightarrow> f64 option" where
  "netValue all metric iface =
     (if iface \<noteq> [] \<and> iface \<noteq> ''total'' then map_option (\<lambda>n. netField n metric) (find (\<lambda>n. if_name n = iface) all)
      else if length all = 0 then None
      else Some (foldl (\<lambda>sum n. sum + netField n metric) 0 all))"

definition tempValue :: "temp list \<Rightarrow> string \<Rightarrow> f64 option" where
  "tempValue all z =
     (if z \<noteq> [] then map_option celsius (find (\<lambda>t. zone t = z) all)
      else case find is_primary_cpu all of
        Some t \<Rightarrow> Some (celsius t)
      | None \<Rightarrow> if length all > 0 then Some (celsius (hd all)) else None)"

definition diskValue :: "disk list \<Rightarrow> string \<Rightarrow> string \<Rightarrow> f64 option" where
  "diskValue all metric selector =
     (let mount = (if selector = [] then ''/'' else selector) in
      map_option (\<lambda>d. if metric = ''disk.used_pct'' then d_used_pct d
                       else if metric = ''disk.avail_bytes'' then f_of_u64 (d_avail d) else f_of_u64 (d_total d))
        (find (\<lambda>d. d_mount d = mount) all))"

definition metricValue :: "metrics \<Rightarrow> string \<Rightarrow> string \<Rightarrow> f64 option" where
  "metricValue m metric selector =
     (if metric = ''cpu.usage_pct'' then Some (usage_pct (m_cpu m))
      else if metric = ''cpu.user_pct'' then Some (user_pct (m_cpu m))
      else if metric = ''cpu.system_pct'' then Some (system_pct (m_cpu m))
      else if metric = ''cpu.iowait_pct'' then Some (iowait_pct (m_cpu m))
      else if metric = ''cpu.steal_pct'' then Some (steal_pct (m_cpu m))
      else if metric = ''cpu.idle_pct'' then Some (idle_pct (m_cpu m))
      else if metric = ''load.load1'' then Some (load1 (m_load m))
      else if metric = ''load.load5'' then Some (load5 (m_load m))
      else if metric = ''load.load15'' then Some (load15 (m_load m))
      else if metric = ''load.normalized_pct'' then Some (normalized_pct (m_load m))
      else if metric = ''ram.used_pct'' then Some (ram_used_pct (m_ram m))
      else if metric = ''ram.available_pct'' then Some (ram_available_pct (m_ram m))
      else if metric = ''ram.free_pct'' then Some (ram_free_pct (m_ram m))
      else if metric = ''ram.cache_pct'' then Some (ram_cache_pct (m_ram m))
      else if metric = ''swap.used_pct'' then Some (swap_used_pct (m_swap m))
      else if metric \<in> {''disk.used_pct'', ''disk.avail_bytes'', ''disk.total_bytes''} then diskValue (m_disks m) metric selector
      else if metric \<in> {''disk_io.read_bps'', ''disk_io.write_bps'', ''disk_io.read_iops'', ''disk_io.write_iops'', ''disk_io.latency_ms''}
        then diskIOValue (m_disk_io m) metric selector
      else if metric \<in> {''net.rx_bps'', ''net.tx_bps'', ''net.packets_ps'', ''net.errors_ps'', ''net.drops_ps''}
        then netValue (m_net m) metric selector
      else if metric = ''temp.celsius'' then tempValue (m_temp m) selector
      else None)"

section \<open>The endpoints\<close>

definition Stats :: "metrics mem_store \<Rightarrow> metrics" where
  "Stats mem = (let all = GetAll mem in if length all = 0 then zero_metrics else last all)"

record history_point =
  hp_time :: int
  hp_value :: f64

record history_response =
  hr_metric :: string
  hr_points :: "history_point list"

record sample =
  sm_t :: f64
  sm_v :: f64

definition history_samples :: "metrics list \<Rightarrow> string \<Rightarrow> string \<Rightarrow> sample list" where
  "history_samples all metric selector =
     List.map_filter (\<lambda>m. map_option (\<lambda>v. \<lparr>sm_t = f_of_int (t_unix (m_time m)), sm_v = v\<rparr>) (metricValue m metric selector)) all"

definition bucket_point :: "sample list \<Rightarrow> history_point" where
  "bucket_point b =
     (let (sumV, sumT) = foldl (\<lambda>(v, t) s. (v + sm_v s, t + sm_t s)) (0, 0) b; n = f_of_int (int (length b))
      in \<lparr>hp_time = f_trunc (sumT / n), hp_value = sumV / n\<rparr>)"

text \<open>The loop over the buckets; \<open>None\<close> is a loop that never ends.\<close>

partial_function (option) history_loop :: "nat \<Rightarrow> sample list \<Rightarrow> nat \<Rightarrow> history_point list \<Rightarrow> history_point list option" where
  "history_loop bucketSize samples i out =
     (if i < length samples
      then let e = (if i + bucketSize > length samples then length samples else i + bucketSize)
           in history_loop bucketSize samples (i + bucketSize) (out @ [bucket_point (take (e - i) (drop i samples))])
      else Some out)"

definition bucket_size :: "nat \<Rightarrow> int \<Rightarrow> nat" where
  "bucket_size len points = (let b = nat (int len div points) in if b < 1 then 1 else b)"

definition History :: "metrics mem_store \<Rightarrow> string \<Rightarrow> string \<Rightarrow> string \<Rightarrow> history_response option" where
  "History mem metric selector points0 =
     (let p0 = fst (Atoi points0); points = (if p0 \<le> 0 then 60 else p0);
          samples = history_samples (GetAll mem) metric selector
      in map_option (\<lambda>out. \<lparr>hr_metric = metric, hr_points = out\<rparr>)
           (if length samples > 0 then history_loop (bucket_size (length samples) points) samples 0 [] else Some []))"

section \<open>The buckets\<close>

declare history_loop.simps [code]

text \<open>The samples cut into stretches of \<open>k\<close>, the last one perhaps shorter.\<close>

function chunks :: "nat \<Rightarrow> 'a list \<Rightarrow> 'a list list" where
  "chunks k xs = (if k = 0 \<or> xs = [] then [] else take k xs # chunks k (drop k xs))"
  by pat_completeness auto
termination by (relation "measure (\<lambda>(k, xs). length xs)") auto

declare chunks.simps [simp del]

lemma chunks_Nil [simp]: "chunks k [] = []"
  by (simp add: chunks.simps)

lemma chunks_step: "0 < k \<Longrightarrow> xs \<noteq> [] \<Longrightarrow> chunks k xs = take k xs # chunks k (drop k xs)"
  by (subst chunks.simps) simp

lemma concat_chunks: "0 < k \<Longrightarrow> concat (chunks k xs) = xs"
proof (induction k xs rule: chunks.induct)
  case (1 k xs)
  then show ?case by (cases "xs = []") (simp_all add: chunks_step)
qed

lemma chunks_size: "0 < k \<Longrightarrow> b \<in> set (chunks k xs) \<Longrightarrow> b \<noteq> [] \<and> length b \<le> k"
proof (induction k xs rule: chunks.induct)
  case (1 k xs)
  then show ?case by (cases "xs = []") (auto simp: chunks_step)
qed

lemma length_chunks: "0 < k \<Longrightarrow> length (chunks k xs) = (length xs + k - 1) div k"
proof (induction k xs rule: chunks.induct)
  case (1 k xs)
  show ?case
  proof (cases "xs = []")
    case False
    then have "length (chunks k xs) = Suc ((length xs - k + k - 1) div k)"
      using 1 by (simp add: chunks_step)
    also have "\<dots> = (length xs + k - 1) div k"
    proof (cases "length xs \<le> k")
      case True
      have "1 \<le> length xs" using False by (cases xs) auto
      then have "(length xs + k - 1) div k = Suc ((length xs - 1) div k)"
        using 1(2) div_add_self2[of k "length xs - 1"] by (metis Nat.add_diff_assoc2 Suc_eq_plus1 less_not_refl2)
      moreover have "(length xs - 1) div k = 0" "(k - 1) div k = 0" using True \<open>1 \<le> length xs\<close> 1(2) by auto
      ultimately show ?thesis using True by simp
    next
      case ge: False
      then have "length xs + k - 1 = (length xs - k + k - 1) + k" using 1(2) by linarith
      then show ?thesis using 1(2) by (metis Suc_eq_plus1 div_add_self2 not_less0)
    qed
    finally show ?thesis .
  qed (use 1 in simp)
qed

lemma history_loop_chunks:
  "0 < k \<Longrightarrow> history_loop k xs i out = Some (out @ map bucket_point (chunks k (drop i xs)))"
proof (induction "length xs - i" arbitrary: i out rule: less_induct)
  case less
  show ?case
  proof (cases "i < length xs")
    case True
    have t: "take ((if i + k > length xs then length xs else i + k) - i) (drop i xs) = take k (drop i xs)" by simp
    have "chunks k (drop i xs) = take k (drop i xs) # chunks k (drop (i + k) xs)"
      using True less.prems by (simp add: chunks_step add.commute)
    moreover have "history_loop k xs (i + k) (out @ [bucket_point (take k (drop i xs))])
        = Some ((out @ [bucket_point (take k (drop i xs))]) @ map bucket_point (chunks k (drop (i + k) xs)))"
      using True less.prems by (intro less.hyps) auto
    ultimately show ?thesis using True t by (subst history_loop.simps) (simp only: Let_def if_True, simp)
  next
    case False
    then show ?thesis by (subst history_loop.simps) simp
  qed
qed

lemma bucket_size_pos: "0 < bucket_size len points"
  by (simp add: bucket_size_def Let_def)

section \<open>Properties\<close>

definition asked_points :: "string \<Rightarrow> int" where
  "asked_points points = (if fst (Atoi points) \<le> 0 then 60 else fst (Atoi points))"

lemma History_eq:
  assumes "s = history_samples (GetAll mem) metric selector"
  shows "History mem metric selector points =
    Some \<lparr>hr_metric = metric, hr_points = map bucket_point (chunks (bucket_size (length s) (asked_points points)) s)\<rparr>"
proof -
  have "history_loop (bucket_size (length s) (asked_points points)) s 0 [] =
      Some (map bucket_point (chunks (bucket_size (length s) (asked_points points)) s))"
    using history_loop_chunks[OF bucket_size_pos, of _ _ s 0 "[]"] by simp
  then show ?thesis by (simp add: History_def Let_def assms[symmetric] asked_points_def)
qed

text \<open>C30: the sparkline always comes: whatever number of points is asked for, the loop ends, and its buckets are consecutive
  stretches that hold every sample exactly once, none of them empty.\<close>

theorem History_answers:
  "\<exists>bs. History mem metric selector points = Some \<lparr>hr_metric = metric, hr_points = map bucket_point bs\<rparr>
     \<and> concat bs = history_samples (GetAll mem) metric selector \<and> [] \<notin> set bs"
  unfolding History_eq[OF refl] using concat_chunks[OF bucket_size_pos] chunks_size[OF bucket_size_pos] by blast

lemma bucket_count:
  assumes "0 < p" "p \<le> n"
  shows "(n + (n div p) - 1) div (n div p) \<le> 2 * p - (1 :: nat)"
proof -
  define k where "k = n div p"
  have k: "0 < k" using assms by (simp add: k_def div_greater_zero_iff)
  have "n < p * k + p" using mult_div_mod_eq[of p n] mod_less_divisor[OF assms(1), of n] unfolding k_def by linarith
  then have "n + k - 1 < p * k + p + k - 1" using k by linarith
  moreover have "p + k - 1 \<le> p * k"
  proof -
    have "(p - 1) * (k - 1) \<ge> 0" by simp
    obtain a b where "p = Suc a" "k = Suc b" using assms(1) k by (metis gr0_implies_Suc)
    then show ?thesis by simp
  qed
  ultimately have "n + k - 1 < p * k + p * k" by linarith
  then have "n + k - 1 < (2 * p) * k" by (simp add: algebra_simps)
  then have "(n + k - 1) div k < 2 * p" by (rule less_mult_imp_div_less)
  then show ?thesis by (simp add: k_def)
qed

text \<open>the number of points: none is made up, and there are fewer than twice as many as asked for (60 when the
  parameter is missing, malformed or not positive).\<close>

theorem History_points:
  assumes "History mem metric selector points = Some r"
    and "p = (if fst (Atoi points) \<le> 0 then 60 else nat (fst (Atoi points)))"
    and "n = length (history_samples (GetAll mem) metric selector)"
  shows "length (hr_points r) \<le> n \<and> length (hr_points r) \<le> 2 * p - 1 \<and> (n < p \<longrightarrow> length (hr_points r) = n)"
proof -
  let ?s = "history_samples (GetAll mem) metric selector"
  define k where "k = bucket_size n (int p)"
  have p: "0 < p" using assms(2) by auto
  have "int p = asked_points points" using assms(2) by (simp add: asked_points_def)
  then have "hr_points r = map bucket_point (chunks k ?s)"
    using assms(1,3) by (auto simp: History_eq[OF refl] k_def)
  then have len: "length (hr_points r) = (n + k - 1) div k" "length (hr_points r) = length (chunks k ?s)"
    using length_chunks[of k ?s] bucket_size_pos assms(3) by (simp_all add: k_def)
  have kv: "k = (if n div p < 1 then 1 else n div p)"
    by (simp add: k_def bucket_size_def Let_def zdiv_int[symmetric])
  have "length (chunks k ?s) \<le> length (concat (chunks k ?s))"
  proof -
    have "\<forall>b \<in> set (chunks k ?s). 1 \<le> length b"
      using chunks_size[OF bucket_size_pos] unfolding k_def by (metis One_nat_def Suc_leI length_greater_0_conv)
    then have "sum_list (map (\<lambda>_. 1) (chunks k ?s)) \<le> sum_list (map length (chunks k ?s))"
      by (intro sum_list_mono) simp
    then show ?thesis by (simp add: length_concat sum_list_triv)
  qed
  then have 1: "length (hr_points r) \<le> n"
    using len(2) concat_chunks[OF bucket_size_pos, of n "int p" ?s] assms(3) by (simp add: k_def)
  show ?thesis
  proof (cases "n < p")
    case True
    then have "length (hr_points r) = n" using len(1) kv by simp
    with True p show ?thesis by simp
  next
    case ge: False
    then have "1 \<le> n div p" using p by (simp add: Suc_leI div_greater_zero_iff)
    then have "k = n div p" using kv by simp
    then have "length (hr_points r) \<le> 2 * p - 1" using bucket_count[of p n] p ge len(1) by simp
    with 1 ge show ?thesis by simp
  qed
qed

text \<open>The bound is reached: 119 samples and 60 points asked for give 119 points.\<close>

lemma History_overshoot: "bucket_size 119 60 = 1"
  by (simp add: bucket_size_def)

section \<open>The times of the points\<close>

lemma foldl_pair:
  "foldl (\<lambda>(v, t) s. (v + sm_v s, t + sm_t s)) (a, c) b = (foldl (\<lambda>v s. v + sm_v s) a b, foldl (\<lambda>t s. t + sm_t s) c b)"
  by (induction b arbitrary: a c) simp_all

lemma sum_times:
  assumes "\<forall>s \<in> set b. sm_t s = Fin (of_int (\<tau> s)) \<and> 0 \<le> \<tau> s" "0 \<le> c" "c + (\<Sum>s\<leftarrow>b. \<tau> s) < 2 ^ 53"
  shows "foldl (\<lambda>t s. t + sm_t s) (Fin (of_int c)) b = Fin (of_int (c + (\<Sum>s\<leftarrow>b. \<tau> s)))"
  using assms
proof (induction b arbitrary: c)
  case (Cons s b)
  have nn: "0 \<le> (\<Sum>s\<leftarrow>b. \<tau> s)" using Cons.prems(1) by (intro sum_list_nonneg) auto
  then have lt: "\<bar>c + \<tau> s\<bar> < 2 ^ 53" using Cons.prems by auto
  have "Fin (of_int c) + sm_t s = Fin (of_int (c + \<tau> s))"
    using mkf_int[OF lt] Cons.prems(1) by simp
  then show ?case using Cons.IH[of "c + \<tau> s"] Cons.prems by (simp add: add.assoc)
qed simp

lemma bucket_time:
  assumes "b \<noteq> []" "length b \<le> 300"
    and "\<forall>s \<in> set b. sm_t s = Fin (of_int (\<tau> s)) \<and> lo \<le> \<tau> s \<and> \<tau> s \<le> hi" "0 \<le> lo" "hi < 2 ^ 44"
  shows "lo \<le> hp_time (bucket_point b) \<and> hp_time (bucket_point b) \<le> hi"
proof -
  define S n where "S = (\<Sum>s\<leftarrow>b. \<tau> s)" and "n = int (length b)"
  have n: "0 < n" "n \<le> 300" using assms(1,2) by (simp_all add: n_def)
  have c: "(\<Sum>s\<leftarrow>b. k) = n * k" for k :: int by (simp add: n_def sum_list_triv)
  have "(\<Sum>s\<leftarrow>b. lo) \<le> S" "S \<le> (\<Sum>s\<leftarrow>b. hi)"
    using assms(3) by (auto simp: S_def intro!: sum_list_mono)
  then have S: "n * lo \<le> S" "S \<le> n * hi" by (simp_all only: c)
  have lh: "lo \<le> hi" using assms(1,3) by (cases b) auto
  have "n * hi \<le> 300 * hi" using n lh assms(4) by (intro mult_right_mono) auto
  then have lt: "S < 2 ^ 53" using S(2) assms(5) by simp
  have S0: "0 \<le> S" using S(1) n assms(4) by (meson mult_nonneg_nonneg less_imp_le order_trans)
  have 1: "foldl (\<lambda>t s. t + sm_t s) 0 b = Fin (of_int S)"
    using sum_times[of b \<tau> 0] assms(3,4) lt by (auto simp: S_def intro: order_trans)
  have 2: "f_of_int n = Fin (of_int n)" using n by (intro f_of_int_exact) simp
  define q :: rat where "q = of_int S / of_int n"
  have q: "of_int lo \<le> q" "q \<le> of_int hi"
    using S n by (simp_all add: q_def pos_le_divide_eq pos_divide_le_eq mult.commute flip: of_int_mult)
  have b: "\<bar>hi\<bar> < 2 ^ 53" "\<bar>lo\<bar> < 2 ^ 53" using assms(4,5) lh by auto
  have r: "of_int lo \<le> rnd q" "rnd q \<le> of_int hi"
    using rnd_ge_int[OF b(2) q(1)] rnd_le_int[OF b(1) q(2)] by blast+
  have "(of_int hi :: rat) \<le> of_int (2 ^ 44)" using assms(5) by (subst of_int_le_iff) simp
  then have "\<bar>q\<bar> \<le> 2 ^ 200" using q assms(4) by (simp add: abs_of_nonneg order_trans[OF _ q(1)])
  then have "Fin (of_int S) / Fin (of_int n) = Fin (rnd q)" using n by (simp add: mkf_small q_def)
  then have "hp_time (bucket_point b) = f_trunc (Fin (rnd q))"
    unfolding bucket_point_def foldl_pair Let_def prod.case 1 using 2 by (simp add: n_def)
  moreover have "0 \<le> rnd q" using r(1) assms(4) by (meson of_int_0_le_iff order_trans)
  ultimately show ?thesis using r by (simp add: le_floor_iff floor_le_iff)
qed

text \<open>every point lies in the time span of the samples: between the first and the last second of a store that was
  filled in order of time, for a store of at most 300 samples.\<close>

theorem History_times:
  assumes "History mem metric selector points = Some r" "q \<in> set (hr_points r)"
    and "length (GetAll mem) \<le> 300" "\<forall>m \<in> set (GetAll mem). lo \<le> t_unix (m_time m) \<and> t_unix (m_time m) \<le> hi"
    and "0 \<le> lo" "hi < 2 ^ 44"
  shows "lo \<le> hp_time q \<and> hp_time q \<le> hi"
proof -
  let ?s = "history_samples (GetAll mem) metric selector"
  let ?k = "bucket_size (length ?s) (asked_points points)"
  obtain b where b: "b \<in> set (chunks ?k ?s)" "q = bucket_point b"
    using assms(1,2) by (auto simp: History_eq[OF refl])
  have sub: "set b \<subseteq> set ?s" using b(1) concat_chunks[OF bucket_size_pos, of _ _ ?s] by (metis UN_upper set_concat)
  have "length b \<le> length (concat (chunks ?k ?s))" using b(1) by (simp add: length_concat member_le_sum_list)
  moreover have "length ?s \<le> length (GetAll mem)"
    by (simp add: history_samples_def List.map_filter_def)
  ultimately have "length b \<le> 300" using assms(3) concat_chunks[OF bucket_size_pos, of _ _ ?s] by simp
  moreover have "b \<noteq> []" using chunks_size[OF bucket_size_pos b(1)] by blast
  moreover have "\<exists>t. sm_t s = Fin (of_int t) \<and> lo \<le> t \<and> t \<le> hi" if "s \<in> set b" for s
  proof -
    from that sub obtain m where m: "m \<in> set (GetAll mem)" "sm_t s = f_of_int (t_unix (m_time m))"
      by (force simp: history_samples_def map_filter_mem)
    have "lo \<le> t_unix (m_time m)" "t_unix (m_time m) \<le> hi" using m(1) assms(4) by blast+
    then have "f_of_int (t_unix (m_time m)) = Fin (of_int (t_unix (m_time m)))"
      using assms(5,6) by (intro f_of_int_exact) simp
    with m assms(4) show ?thesis by auto
  qed
  then obtain \<tau> where "\<forall>s \<in> set b. sm_t s = Fin (of_int (\<tau> s)) \<and> lo \<le> \<tau> s \<and> \<tau> s \<le> hi" by metis
  ultimately show ?thesis using bucket_time[of b \<tau> lo hi] assms(5,6) b(2) by blast
qed

definition ex_store :: "metrics mem_store" where
  "ex_store = \<lparr>ms_data = [zero_metrics\<lparr>m_time := 5000000000\<rparr>, zero_metrics\<lparr>m_time := 6000000000\<rparr>], ms_max = 300\<rparr>"

lemma ex_samples: "length (history_samples (GetAll ex_store) ''cpu.usage_pct'' []) = 2"
  by (simp add: ex_store_def GetAll_def history_samples_def metricValue_def List.map_filter_simps)

theorem History_answers_witness:
  "\<exists>bs. concat bs = history_samples (GetAll ex_store) ''cpu.usage_pct'' [] \<and> [] \<notin> set bs"
  using History_answers[of ex_store "''cpu.usage_pct''" "[]" "''2''"] by blast

theorem History_points_witness:
  "length (hr_points (the (History ex_store ''cpu.usage_pct'' [] ''0''))) = 2"
  using History_points[of ex_store "''cpu.usage_pct''" "[]" "''0''" _ 60 2, OF _ _ ex_samples[symmetric]]
  by (simp add: History_eq[OF refl] ParseInt64_def ParseUint_def digit_val_def)

theorem History_times_witness:
  "5 \<le> hp_time (hd (hr_points (the (History ex_store ''cpu.usage_pct'' [] ''2''))))
   \<and> hp_time (hd (hr_points (the (History ex_store ''cpu.usage_pct'' [] ''2'')))) \<le> 6"
proof -
  let ?H = "History ex_store ''cpu.usage_pct'' [] ''2''" and ?s = "history_samples (GetAll ex_store) ''cpu.usage_pct'' []"
  have "?s \<noteq> []" using ex_samples by auto
  then have "hr_points (the ?H) \<noteq> []" by (simp add: History_eq[OF refl] chunks_step[OF bucket_size_pos])
  then have q: "hd (hr_points (the ?H)) \<in> set (hr_points (the ?H))" by simp
  have "?H = Some (the ?H)" by (simp add: History_eq[OF refl])
  then show ?thesis by (rule History_times[OF _ q]) (simp_all add: ex_store_def GetAll_def t_unix_def)
qed

end
