(* ===== verification/Host.thy ===== *)
theory Host
  imports SystemCollect "HOL-Library.List_Lexorder" "HOL-Library.Char_ord"
begin

text \<open>
  Host information (internal/collector/host.go): identity, processor, disks and their partitions, USB
  devices. Files and directories are functions from paths, \<open>None\<close> an error; \<open>exists\<close> is \<open>os.Stat\<close>
  without error. \<open>os.Hostname\<close>, \<open>runtime.NumCPU\<close>, the architecture and the output of \<open>dmidecode\<close>
  (\<open>None\<close> when there is no such program or it fails) are inputs.
\<close>

section \<open>Identity\<close>

text \<open>\<open>strings.Trim(s, cutset)\<close> for one character.\<close>

definition trim_char :: "char \<Rightarrow> string \<Rightarrow> string" where
  "trim_char c s = rev (dropWhile (\<lambda>d. d = c) (rev (dropWhile (\<lambda>d. d = c) s)))"

definition os_step :: "string \<Rightarrow> (string \<Rightarrow> string) \<Rightarrow> string \<Rightarrow> string" where
  "os_step l vals = (case split2 ''='' l of None \<Rightarrow> vals | Some (k, v) \<Rightarrow> vals(k := trim_char CHR 0x22 v))"

definition readOSRelease :: "string option \<Rightarrow> string \<times> string" where
  "readOSRelease os_release =
     (case os_release of
        None \<Rightarrow> ([], [])
      | Some data \<Rightarrow>
          let vals = fold os_step (split_on newline data) (\<lambda>_. []); pretty = vals ''PRETTY_NAME''
          in if pretty \<noteq> [] then (pretty, vals ''VERSION_ID'') else (vals ''NAME'', vals ''VERSION_ID''))"

definition readKernelVersion :: "string option \<Rightarrow> string" where
  "readKernelVersion version =
     (case version of None \<Rightarrow> [] | Some data \<Rightarrow> let flds = Fields data in if length flds \<ge> 3 then flds ! 2 else [])"

definition readArchitecture :: "string \<Rightarrow> string" where
  "readArchitecture goarch =
     (if goarch = ''amd64'' then ''x86_64'' else if goarch = ''arm64'' then ''aarch64''
      else if goarch = ''386'' then ''i686'' else if goarch = ''arm'' then ''armv7l'' else goarch)"

definition readSysfsTrimmed :: "(string \<Rightarrow> string option) \<Rightarrow> string \<Rightarrow> string" where
  "readSysfsTrimmed fs path = (case fs path of None \<Rightarrow> [] | Some data \<Rightarrow> TrimSpace data)"

definition detectVirtualization :: "(string \<Rightarrow> string option) \<Rightarrow> string" where
  "detectVirtualization fs =
     (let t = (case fs ''/sys/hypervisor/type'' of Some data \<Rightarrow> TrimSpace data | None \<Rightarrow> []) in
      if t \<noteq> [] then t
      else case fs ''/proc/cpuinfo'' of
        None \<Rightarrow> ''none''
      | Some cpuinfo \<Rightarrow>
          if \<not> contains cpuinfo ''hypervisor'' then ''none''
          else let p = (case fs ''/sys/class/dmi/id/product_name'' of Some data \<Rightarrow> TrimSpace data | None \<Rightarrow> [])
               in if p \<noteq> [] then p else ''virtualized'')"

definition readUptime :: "string option \<Rightarrow> duration" where
  "readUptime uptime =
     (case uptime of
        None \<Rightarrow> 0
      | Some data \<Rightarrow> (case Fields data of [] \<Rightarrow> 0 | f # _ \<Rightarrow> f_trunc (float_of f * Fin (of_int Second))))"

definition cpuInfoValue :: "string \<Rightarrow> string" where
  "cpuInfoValue l = (case split2 '':'' l of None \<Rightarrow> [] | Some (_, v) \<Rightarrow> TrimSpace v)"

fun cpu_identity :: "string list \<Rightarrow> string \<Rightarrow> string \<Rightarrow> string \<times> string" where
  "cpu_identity [] vendor model = (vendor, model)"
| "cpu_identity (l # ls) vendor model =
     (let vendor' = (if vendor = [] \<and> has_prefix l ''vendor_id'' then cpuInfoValue l else vendor);
          model' = (if model = [] \<and> has_prefix l ''model name'' then cpuInfoValue l else model)
      in if vendor' \<noteq> [] \<and> model' \<noteq> [] then (vendor', model') else cpu_identity ls vendor' model')"

definition readCPUIdentity :: "string option \<Rightarrow> string \<times> string" where
  "readCPUIdentity cpuinfo = (case cpuinfo of None \<Rightarrow> ([], []) | Some data \<Rightarrow> cpu_identity (split_on newline data) [] [])"

fun cpu_mhz_lines :: "string list \<Rightarrow> f64 \<times> bool" where
  "cpu_mhz_lines [] = (0, False)"
| "cpu_mhz_lines (l # ls) =
     (if has_prefix l ''cpu MHz''
      then (case ParseFloat (cpuInfoValue l) of Some v \<Rightarrow> (v, False) | None \<Rightarrow> cpu_mhz_lines ls)
      else cpu_mhz_lines ls)"

definition readCPUMHz :: "(string \<Rightarrow> string option) \<Rightarrow> f64 \<times> bool" where
  "readCPUMHz fs =
     (let current = (case fs ''/proc/cpuinfo'' of None \<Rightarrow> (0, False) | Some data \<Rightarrow> cpu_mhz_lines (split_on newline data))
      in case fs ''/sys/devices/system/cpu/cpu0/cpufreq/cpuinfo_max_freq'' of
           None \<Rightarrow> current
         | Some data \<Rightarrow>
             (case ParseFloat (TrimSpace data) of
                Some khz \<Rightarrow> if khz > 0 then (khz / Fin 1000, True) else current
              | None \<Rightarrow> current))"

text \<open>
  The pattern \<open>(?:Configured Memory Speed|Speed):\s*(\d+)\s*(?:MHz|MT/s)\<close> at the head of a text: its group and what
  follows the match. Blanks and digits exclude each other, so the greedy repetitions never have to give back.
\<close>

definition re_space :: "char \<Rightarrow> bool" where
  "re_space c = (c \<in> {CHR 0x09, CHR 0x0A, CHR 0x0C, CHR 0x0D, CHR 0x20})"

definition after_prefix :: "string list \<Rightarrow> string \<Rightarrow> string option" where
  "after_prefix ps s = (case find (has_prefix s) ps of None \<Rightarrow> None | Some p \<Rightarrow> Some (drop (length p) s))"

definition speed_match :: "string \<Rightarrow> (string \<times> string) option" where
  "speed_match s =
     (case after_prefix [''Configured Memory Speed:'', ''Speed:''] s of
        None \<Rightarrow> None
      | Some r \<Rightarrow>
          let r1 = dropWhile re_space r; ds = takeWhile is_digit r1; r2 = dropWhile re_space (dropWhile is_digit r1)
          in if ds = [] then None
             else (case after_prefix [''MHz'', ''MT/s''] r2 of None \<Rightarrow> None | Some rest \<Rightarrow> Some (ds, rest)))"

lemma after_prefix_shorter: "after_prefix ps s = Some r \<Longrightarrow> [] \<notin> set ps \<Longrightarrow> length r < length s"
proof -
  assume a: "after_prefix ps s = Some r" "[] \<notin> set ps"
  then obtain p where p: "find (has_prefix s) ps = Some p" "r = drop (length p) s"
    by (auto simp: after_prefix_def split: option.splits)
  from find_Some_iff_mem[OF p(1)] a(2) have "p \<noteq> []" "has_prefix s p" by auto
  then have "s \<noteq> []" "length p > 0" by (auto simp: has_prefix_def)
  then show ?thesis using p(2) by simp
qed

lemma speed_match_shorter: "speed_match s = Some (d, rest) \<Longrightarrow> length rest < length s"
proof -
  assume "speed_match s = Some (d, rest)"
  then obtain r where r: "after_prefix [''Configured Memory Speed:'', ''Speed:''] s = Some r"
    "after_prefix [''MHz'', ''MT/s''] (dropWhile re_space (dropWhile is_digit (dropWhile re_space r))) = Some rest"
    by (auto simp: speed_match_def Let_def split: option.splits if_splits)
  have "length rest < length (dropWhile re_space (dropWhile is_digit (dropWhile re_space r)))"
    by (rule after_prefix_shorter[OF r(2)]) simp
  also have "\<dots> \<le> length r" by (meson length_dropWhile_le order_trans)
  also have "\<dots> < length s" by (rule after_prefix_shorter[OF r(1)]) simp
  finally show ?thesis .
qed

text \<open>\<open>FindAllStringSubmatch\<close>: the groups of the matches that follow one another.\<close>

function speed_all :: "string \<Rightarrow> string list" where
  "speed_all s =
     (case s of
        [] \<Rightarrow> []
      | _ # t \<Rightarrow> (case speed_match s of Some (d, rest) \<Rightarrow> d # speed_all rest | None \<Rightarrow> speed_all t))"
  by pat_completeness auto
termination
  by (relation "measure length") (auto dest: speed_match_shorter)

declare speed_all.simps [simp del]

fun first_positive :: "string list \<Rightarrow> f64" where
  "first_positive [] = 0"
| "first_positive (d # ds) =
     (case ParseFloat d of Some v \<Rightarrow> if v > 0 then v else first_positive ds | None \<Rightarrow> first_positive ds)"

definition readRAMFrequencyMHz :: "string option \<Rightarrow> f64" where
  "readRAMFrequencyMHz dmidecode = (case dmidecode of None \<Rightarrow> 0 | Some out \<Rightarrow> first_positive (speed_all out))"

section \<open>Mounts and partitions\<close>

text \<open>A byte \<open>\134\<close>: the backslash.\<close>

abbreviation bslash :: char where "bslash \<equiv> CHR 0x5C"

fun unescape_loop :: "string \<Rightarrow> string" where
  "unescape_loop (c # a # b # d # s) =
     (if c = bslash
      then (case ParseUint [a, b, d] 8 8 of
              (v, None) \<Rightarrow> char_of v # unescape_loop s
            | (_, Some _) \<Rightarrow> c # unescape_loop (a # b # d # s))
      else c # unescape_loop (a # b # d # s))"
| "unescape_loop (c # s) = c # unescape_loop s"
| "unescape_loop [] = []"

definition unescapeMountField :: "string \<Rightarrow> string" where
  "unescapeMountField s = (if \<not> contains s [bslash] then s else unescape_loop s)"

definition partition_line :: "string \<Rightarrow> mount_entry option" where
  "partition_line line =
     (case split2 '' - '' line of
        None \<Rightarrow> None
      | Some (h0, h1) \<Rightarrow>
          let left = Fields h0; right = Fields h1 in
          if length left < 5 \<or> length right < 2 then None
          else let root = unescapeMountField (left ! 3); mount = unescapeMountField (left ! 4);
                   fstype = right ! 0; device = right ! 1
               in if root \<noteq> ''/'' then None
                  else if fstype \<in> pseudoFSTypes \<or> \<not> has_prefix device ''/dev/'' then None
                  else Some \<lparr>me_device = device, me_mount = mount, me_fstype = fstype\<rparr>)"

definition discoverPartitionMounts :: "string option \<Rightarrow> mount_entry list" where
  "discoverPartitionMounts mountinfo =
     (case mountinfo of None \<Rightarrow> [] | Some data \<Rightarrow> List.map_filter partition_line (split_on newline data))"

definition espMaxBytes :: u64 where "espMaxBytes = 2147483648"

definition isTechnicalMount :: "string \<Rightarrow> string \<Rightarrow> u64 \<Rightarrow> bool" where
  "isTechnicalMount mount fstype totalBytes =
     (if mount = ''/boot'' \<or> mount = ''/efi'' \<or> has_prefix mount ''/boot/'' then True
      else if fstype \<in> {''vfat'', ''msdos'', ''exfat''} then totalBytes > 0 \<and> totalBytes \<le> espMaxBytes
      else False)"

text \<open>The partitions of each disk according to sysfs; an association list, the latest entry of a name counts.\<close>

definition buildPartitionParents :: "(string \<Rightarrow> string list option) \<Rightarrow> (string \<Rightarrow> bool) \<Rightarrow> string list \<Rightarrow> string \<Rightarrow> string option" where
  "buildPartitionParents dirs exists diskNames =
     fold (\<lambda>disk parents.
        fold (\<lambda>name ps. if exists (''/sys/block/'' @ disk @ ''/'' @ name @ ''/partition'') then ps(name \<mapsto> disk) else ps)
          (case dirs (''/sys/block/'' @ disk) of None \<Rightarrow> [] | Some es \<Rightarrow> es) (parents(disk \<mapsto> disk)))
       diskNames Map.empty"

text \<open>The walk down a device's slaves; \<open>None\<close> is a walk that never ends, the empty name a disk not found.\<close>

partial_function (option) partitionParentDisk :: "(string \<Rightarrow> string list option) \<Rightarrow> (string \<Rightarrow> string option) \<Rightarrow> string \<Rightarrow> string option" where
  "partitionParentDisk dirs parents devName =
     (case parents devName of
        Some p \<Rightarrow> Some p
      | None \<Rightarrow>
          (case dirs (path_join [''/sys/class/block'', devName, ''slaves'']) of
             None \<Rightarrow> Some []
           | Some slaves \<Rightarrow>
               if length slaves \<noteq> 1 then Some [] else partitionParentDisk dirs parents (hd slaves)))"

record partition_info =
  pt_device :: string
  pt_fs_type :: string
  pt_mount :: string
  pt_total :: u64
  pt_used :: u64
  pt_avail :: u64
  pt_used_pct :: f64

text \<open>One mount: its disk and what is reported of it, if it is. The outer option is the walk's.\<close>

definition partition_of :: "(string \<Rightarrow> string list option) \<Rightarrow> (string \<Rightarrow> string option) \<Rightarrow> (string \<Rightarrow> statfs option) \<Rightarrow> string
    \<Rightarrow> mount_entry \<Rightarrow> (string \<times> partition_info) option option" where
  "partition_of dirs parents sfs host_root m =
     (let statPath = (if host_root \<noteq> [] then path_join [host_root, me_mount m] else me_mount m) in
      case statMount sfs \<lparr>me_device = me_device m, me_mount = statPath, me_fstype = me_fstype m\<rparr> of
        None \<Rightarrow> Some None
      | Some d \<Rightarrow>
          if isTechnicalMount (me_mount m) (d_fs_type d) (d_total d) then Some None
          else let devName = trim_prefix (me_device m) ''/dev/'' in
            (case partitionParentDisk dirs parents devName of
               None \<Rightarrow> None
             | Some parent \<Rightarrow>
                 if parent = [] then Some None
                 else Some (Some (parent, \<lparr>pt_device = devName, pt_fs_type = d_fs_type d, pt_mount = me_mount m,
                        pt_total = d_total d, pt_used = d_used d, pt_avail = d_avail d, pt_used_pct = d_used_pct d\<rparr>))))"

fun collect_partitions :: "(mount_entry \<Rightarrow> (string \<times> partition_info) option option) \<Rightarrow> mount_entry list
    \<Rightarrow> (string \<times> partition_info) list option" where
  "collect_partitions f [] = Some []"
| "collect_partitions f (m # ms) =
     (case f m of
        None \<Rightarrow> None
      | Some r \<Rightarrow> map_option (\<lambda>rs. (case r of None \<Rightarrow> rs | Some x \<Rightarrow> x # rs)) (collect_partitions f ms))"

definition readDiskPartitions :: "(partition_info list \<Rightarrow> partition_info list) \<Rightarrow> (string \<Rightarrow> string option) \<Rightarrow> (string \<Rightarrow> string list option)
    \<Rightarrow> (string \<Rightarrow> statfs option) \<Rightarrow> (string \<Rightarrow> string option) \<Rightarrow> string \<Rightarrow> string \<Rightarrow> (string \<Rightarrow> partition_info list) option" where
  "readDiskPartitions srt fs dirs sfs parents host_proc host_root =
     (if host_root = [] \<and> host_proc \<noteq> ''/proc'' then Some (\<lambda>_. [])
      else map_option (\<lambda>found name. srt (map snd (filter (\<lambda>x. fst x = name) found)))
        (collect_partitions (partition_of dirs parents sfs host_root)
          (discoverPartitionMounts (fs (path_join [host_proc, ''1'', ''mountinfo''])))))"

section \<open>Disks and devices\<close>

record disk_info =
  di_device :: string
  di_model :: string
  di_size :: u64
  di_kind :: string
  di_partitions :: "partition_info list"

record usb_device =
  usb_vendor_id :: string
  usb_product_id :: string
  usb_manufacturer :: string
  usb_product :: string

definition readDiskKind :: "(string \<Rightarrow> string option) \<Rightarrow> string \<Rightarrow> string" where
  "readDiskKind fs name =
     (case fs (''/sys/block/'' @ name @ ''/queue/rotational'') of
        None \<Rightarrow> []
      | Some data \<Rightarrow> if TrimSpace data = ''1'' then ''HDD'' else if TrimSpace data = ''0'' then ''SSD'' else [])"

definition disk_size :: "string option \<Rightarrow> u64" where
  "disk_size sectors =
     (case sectors of
        None \<Rightarrow> 0
      | Some data \<Rightarrow> (case ParseUint (TrimSpace data) 10 64 of (n, None) \<Rightarrow> of_nat n * 512 | (_, Some _) \<Rightarrow> 0))"

definition readDiskInfo :: "(partition_info list \<Rightarrow> partition_info list) \<Rightarrow> (string \<Rightarrow> string option) \<Rightarrow> (string \<Rightarrow> string list option)
    \<Rightarrow> (string \<Rightarrow> bool) \<Rightarrow> (string \<Rightarrow> statfs option) \<Rightarrow> string \<Rightarrow> string \<Rightarrow> disk_info list option" where
  "readDiskInfo srt fs dirs exists sfs host_proc host_root =
     (case dirs ''/sys/block'' of
        None \<Rightarrow> Some []
      | Some entries \<Rightarrow>
          let diskNames = filter realDiskRe entries; parents = buildPartitionParents dirs exists diskNames
          in map_option (\<lambda>byDisk. map (\<lambda>name.
               \<lparr>di_device = name,
                di_model = TrimSpace (readSysfsTrimmed fs (''/sys/block/'' @ name @ ''/device/vendor'') @ '' ''
                  @ readSysfsTrimmed fs (''/sys/block/'' @ name @ ''/device/model'')),
                di_size = disk_size (fs (''/sys/block/'' @ name @ ''/size'')),
                di_kind = readDiskKind fs name, di_partitions = byDisk name\<rparr>) diskNames)
             (readDiskPartitions srt fs dirs sfs parents host_proc host_root))"

definition usbHubClass :: string where "usbHubClass = ''09''"

definition usb_entry :: "(string \<Rightarrow> string option) \<Rightarrow> string \<Rightarrow> usb_device option" where
  "usb_entry fs name =
     (let dir = ''/sys/bus/usb/devices/'' @ name;
          vendorID = readSysfsTrimmed fs (dir @ ''/idVendor''); productID = readSysfsTrimmed fs (dir @ ''/idProduct'')
      in if vendorID = [] \<or> productID = [] then None
         else if readSysfsTrimmed fs (dir @ ''/bDeviceClass'') = usbHubClass then None
         else Some \<lparr>usb_vendor_id = vendorID, usb_product_id = productID,
                usb_manufacturer = readSysfsTrimmed fs (dir @ ''/manufacturer''),
                usb_product = readSysfsTrimmed fs (dir @ ''/product'')\<rparr>)"

definition readUSBDevices :: "(string \<Rightarrow> string option) \<Rightarrow> (string \<Rightarrow> string list option) \<Rightarrow> usb_device list" where
  "readUSBDevices fs dirs =
     (case dirs ''/sys/bus/usb/devices'' of None \<Rightarrow> [] | Some entries \<Rightarrow> List.map_filter (usb_entry fs) entries)"

record host_info =
  hi_hostname :: string
  hi_os_name :: string
  hi_os_version :: string
  hi_kernel :: string
  hi_arch :: string
  hi_virtualization :: string
  hi_cores :: int
  hi_boot_time :: time
  hi_cpu_vendor :: string
  hi_cpu_model :: string
  hi_cpu_mhz :: f64
  hi_cpu_mhz_max :: bool
  hi_ram_total_kb :: u64
  hi_ram_mhz :: f64
  hi_disks :: "disk_info list"
  hi_usb :: "usb_device list"

text \<open>What the runtime and the program \<open>dmidecode\<close> supply.\<close>

record host_env =
  he_hostname :: string
  he_goarch :: string
  he_cpus :: int
  he_now :: time
  he_dmidecode :: "string option"

definition CollectHostInfo :: "host_env \<Rightarrow> (partition_info list \<Rightarrow> partition_info list) \<Rightarrow> (string \<Rightarrow> string option)
    \<Rightarrow> (string \<Rightarrow> string list option) \<Rightarrow> (string \<Rightarrow> bool) \<Rightarrow> (string \<Rightarrow> statfs option) \<Rightarrow> string \<Rightarrow> string \<Rightarrow> host_info option" where
  "CollectHostInfo he srt fs dirs exists sfs host_proc host_root =
     (let (osName, osVersion) = readOSRelease (fs ''/etc/os-release'');
          (cpuVendor, cpuModel) = readCPUIdentity (fs ''/proc/cpuinfo'');
          (cpuMHz, cpuMHzIsMax) = readCPUMHz fs;
          (rm, _) = readMemInfo (fs ''/proc/meminfo'')
      in map_option (\<lambda>disks.
           \<lparr>hi_hostname = he_hostname he, hi_os_name = osName, hi_os_version = osVersion,
            hi_kernel = readKernelVersion (fs ''/proc/version''), hi_arch = readArchitecture (he_goarch he),
            hi_virtualization = detectVirtualization fs, hi_cores = he_cpus he,
            hi_boot_time = he_now he - readUptime (fs ''/proc/uptime''),
            hi_cpu_vendor = cpuVendor, hi_cpu_model = cpuModel, hi_cpu_mhz = cpuMHz, hi_cpu_mhz_max = cpuMHzIsMax,
            hi_ram_total_kb = ram_total_kb rm, hi_ram_mhz = readRAMFrequencyMHz (he_dmidecode he), hi_disks = disks,
            hi_usb = readUSBDevices fs dirs\<rparr>)
         (readDiskInfo srt fs dirs exists sfs host_proc host_root))"

section \<open>Escapes in mount tables\<close>

text \<open>How the kernel writes a path: blank, tab, newline, backslash and number sign as three octal digits.\<close>

definition octal :: "nat \<Rightarrow> string" where
  "octal n = [bslash, char_of (48 + n div 64), char_of (48 + n div 8 mod 8), char_of (48 + n mod 8)]"

definition kernel_escaped :: "char \<Rightarrow> bool" where
  "kernel_escaped c = (c \<in> {CHR 0x20, CHR 0x09, newline, bslash, CHR 0x23})"

definition escape_char :: "char \<Rightarrow> string" where
  "escape_char c = (if kernel_escaped c then octal (of_char c) else [c])"

definition escape_field :: "string \<Rightarrow> string" where
  "escape_field s = concat (map escape_char s)"

lemma octal_digits:
  assumes "n < 256"
  shows "ParseUint [char_of (48 + n div 64), char_of (48 + n div 8 mod 8), char_of (48 + n mod 8)] 8 8 = (n, None)"
proof -
  have d: "n div 64 < 8" "n div 8 mod 8 < 8" "n mod 8 < 8" using assms by auto
  have v: "digit_val (char_of (48 + k)) = Some k" if "k < 8" for k :: nat using that by simp
  have s: "(n div 64 * 8 + n div 8 mod 8) * 8 + n mod 8 = n"
  proof -
    have "n div 64 = n div 8 div 8" by (simp add: div_mult2_eq[symmetric])
    then show ?thesis by simp
  qed
  then have "n div 64 * 8 + n div 8 mod 8 \<le> 255" using assms by linarith
  moreover have "\<not> 8 \<le> n mod 8" "\<not> 8 \<le> n div 8 mod 8" "\<not> 8 \<le> n div 64" using d by linarith+
  ultimately show ?thesis using assms s by (simp add: ParseUint_def v)
qed

lemma unescape_octal: "n < 256 \<Longrightarrow> unescape_loop (octal n @ s) = char_of n # unescape_loop s"
  using octal_digits[of n] by (simp add: octal_def)

lemma unescape_plain: "c \<noteq> bslash \<Longrightarrow> unescape_loop (c # s) = c # unescape_loop s"
  by (cases s; cases "tl s"; cases "tl (tl s)") auto

lemma unescape_escape: "unescape_loop (escape_field s) = s"
proof (induction s)
  case (Cons c s)
  have b: "of_char c < (256 :: nat)" by (metis mod_less_divisor of_char_mod_256 zero_less_numeral)
  show ?case
  proof (cases "kernel_escaped c")
    case True
    then show ?thesis using Cons unescape_octal[OF b] by (simp add: escape_field_def escape_char_def)
  next
    case False
    then have "c \<noteq> bslash" by (simp add: kernel_escaped_def)
    then show ?thesis using Cons False by (simp add: escape_field_def escape_char_def unescape_plain)
  qed
qed (simp add: escape_field_def)

lemma unescape_no_bslash: "bslash \<notin> set s \<Longrightarrow> unescape_loop s = s"
  by (induction s) (auto simp: unescape_plain)

text \<open>A path comes back from the mount table exactly as it is, whatever characters it has.\<close>

lemma unescapeMountField_kernel: "unescapeMountField (escape_field s) = s"
proof (cases "contains (escape_field s) [bslash]")
  case True
  then show ?thesis by (simp add: unescapeMountField_def unescape_escape)
next
  case False
  then have "bslash \<notin> set (escape_field s)" using contains_char by blast
  then show ?thesis using unescape_no_bslash unescape_escape[of s] False by (simp add: unescapeMountField_def)
qed

section \<open>/proc/1/mountinfo as the kernel prints it\<close>

text \<open>
  Mount id, parent, device number, root and mount point (escaped), options and optional fields, a lone
  hyphen, then the type of the file system, its source and its options.
\<close>

record kernel_mount =
  km_ids :: "string list"
  km_root :: string
  km_mount :: string
  km_opts :: "string list"
  km_fstype :: string
  km_source :: string
  km_super :: "string list"

definition mount_text :: "kernel_mount \<Rightarrow> string" where
  "mount_text k = hd (km_ids k) @ spaced (tl (km_ids k) @ [escape_field (km_root k), escape_field (km_mount k)] @ km_opts k)
     @ '' - '' @ km_fstype k @ spaced (km_source k # km_super k)"

definition kernel_mount_ok :: "kernel_mount \<Rightarrow> bool" where
  "kernel_mount_ok k \<longleftrightarrow> length (km_ids k) = 3 \<and> list_all is_word (km_ids k) \<and> list_all is_word (km_opts k)
     \<and> ''-'' \<notin> set (km_ids k) \<and> ''-'' \<notin> set (km_opts k) \<and> is_word (km_fstype k) \<and> list_all is_word (km_source k # km_super k)
     \<and> km_root k \<noteq> [] \<and> km_mount k \<noteq> [] \<and> hd (km_root k) = CHR ''/'' \<and> hd (km_mount k) = CHR ''/''
     \<and> list_all (\<lambda>c. visible c \<or> kernel_escaped c) (km_root k) \<and> list_all (\<lambda>c. visible c \<or> kernel_escaped c) (km_mount k)"

lemma octal_visible: "n < 256 \<Longrightarrow> list_all visible (octal n)"
proof -
  assume "n < 256"
  then have d: "n div 64 < 8" "n div 8 mod 8 < 8" "n mod 8 < 8" by auto
  have v: "visible (char_of (48 + k))" if "k < 8" for k :: nat
    using that by (simp add: visible_def of_char_of Let_def)
  have "visible bslash" by (simp add: visible_def)
  then show ?thesis using v[OF d(1)] v[OF d(2)] v[OF d(3)] by (simp add: octal_def)
qed

lemma escape_field_word: "list_all (\<lambda>c. visible c \<or> kernel_escaped c) s \<Longrightarrow> s \<noteq> [] \<Longrightarrow> is_word (escape_field s)"
proof -
  assume a: "list_all (\<lambda>c. visible c \<or> kernel_escaped c) s" "s \<noteq> []"
  have b: "of_char c < (256 :: nat)" for c by (metis mod_less_divisor of_char_mod_256 zero_less_numeral)
  have "list_all visible (escape_char c)" if "visible c \<or> kernel_escaped c" for c
    using that octal_visible[OF b] by (auto simp: escape_char_def)
  then have "list_all visible (escape_field s)"
    using a(1) unfolding escape_field_def by (induction s) auto
  moreover have "escape_field s \<noteq> []"
    using a(2) by (cases s) (simp_all add: escape_field_def escape_char_def octal_def)
  ultimately show ?thesis by (simp add: is_word_def)
qed

lemma split2_dash_word:
  "list_all visible v \<Longrightarrow> split2 '' - '' (v @ s) = map_option (\<lambda>(a, b). (v @ a, b)) (split2 '' - '' s)"
proof (induction v)
  case Nil
  then show ?case by (cases "split2 '' - '' s") auto
next
  case (Cons c v)
  then have "\<not> has_prefix (c # v @ s) '' - ''" by (auto simp: has_prefix_def visible_def)
  then show ?case using Cons by (cases "split2 '' - '' s") auto
qed

lemma split2_dash:
  "list_all is_word ws \<Longrightarrow> ''-'' \<notin> set ws \<Longrightarrow> split2 '' - '' (spaced ws @ '' - '' @ r) = Some (spaced ws, r)"
proof (induction ws)
  case Nil
  then show ?case by (simp add: spaced_def has_prefix_def)
next
  case (Cons w ws)
  then have w: "list_all visible w" "w \<noteq> []" "w \<noteq> ''-''" by (auto simp: is_word_def)
  have sp: "spaced (w # ws) @ '' - '' @ r = CHR '' '' # w @ spaced ws @ '' - '' @ r" by (simp add: spaced_def)
  obtain t where t: "spaced ws @ '' - '' @ r = CHR '' '' # t" by (cases ws) (auto simp: spaced_def)
  have "\<not> has_prefix (CHR '' '' # w @ CHR '' '' # t) '' - ''"
  proof (cases w)
    case (Cons c v)
    then show ?thesis using w by (cases v) (auto simp: has_prefix_def visible_def)
  qed (use w in simp)
  then have "split2 '' - '' (CHR '' '' # w @ spaced ws @ '' - '' @ r)
      = map_option (\<lambda>(a, b). (CHR '' '' # a, b)) (split2 '' - '' (w @ spaced ws @ '' - '' @ r))"
    unfolding t by simp
  also have "split2 '' - '' (w @ spaced ws @ '' - '' @ r) = Some (w @ spaced ws, r)"
    using split2_dash_word[OF w(1)] Cons by simp
  finally show ?case unfolding sp by (simp add: spaced_def)
qed

lemma escape_not_dash: "s \<noteq> [] \<Longrightarrow> hd s = CHR ''/'' \<Longrightarrow> ''-'' \<noteq> escape_field s"
  by (cases s) (auto simp: escape_field_def escape_char_def kernel_escaped_def)

lemma partition_line_text:
  assumes "kernel_mount_ok k"
  shows "partition_line (mount_text k) =
    (if km_root k = ''/'' \<and> km_fstype k \<notin> pseudoFSTypes \<and> has_prefix (km_source k) ''/dev/''
     then Some \<lparr>me_device = km_source k, me_mount = km_mount k, me_fstype = km_fstype k\<rparr> else None)"
proof -
  obtain a b c where ids: "km_ids k = [a, b, c]"
    using assms by (auto simp: kernel_mount_ok_def length_Suc_conv numeral_3_eq_3)
  define ws where "ws = [b, c, escape_field (km_root k), escape_field (km_mount k)] @ km_opts k"
  have ok: "list_all is_word ws" "''-'' \<notin> set ws" "is_word a" "is_word (km_fstype k)" "list_all is_word (km_source k # km_super k)"
    using assms escape_field_word escape_not_dash by (auto simp: kernel_mount_ok_def ids ws_def)
  have m: "mount_text k = a @ spaced ws @ '' - '' @ km_fstype k @ spaced (km_source k # km_super k)"
    by (simp add: mount_text_def ids ws_def)
  have "list_all visible a" using ok(3) by (simp add: is_word_def)
  then have sp: "split2 '' - '' (mount_text k) = Some (a @ spaced ws, km_fstype k @ spaced (km_source k # km_super k))"
    unfolding m using split2_dash_word split2_dash[OF ok(1,2)] by simp
  have f: "Fields (a @ spaced ws) = a # ws" "Fields (km_fstype k @ spaced (km_source k # km_super k)) = km_fstype k # km_source k # km_super k"
    by (rule Fields_spaced[OF ok(3,1)], rule Fields_spaced[OF ok(4,5)])
  show ?thesis
    unfolding partition_line_def sp option.case prod.case Let_def f
    by (simp add: ws_def unescapeMountField_kernel)
qed

lemma mount_text_no_newline:
  assumes "kernel_mount_ok k"
  shows "newline \<notin> set (mount_text k)"
proof -
  have "is_word (hd (km_ids k))" "list_all is_word (tl (km_ids k))"
    using assms by (auto simp: kernel_mount_ok_def list_all_iff length_Suc_conv numeral_3_eq_3)
  then show ?thesis
    using assms escape_field_word[of "km_root k"] escape_field_word[of "km_mount k"]
    by (simp add: mount_text_def kernel_mount_ok_def word_no_newline spaced_no_newline)
qed

text \<open>C32: the host's mount table read back: of every line in the kernel's format, with any escaped characters in its paths and
  any optional fields, exactly the mounts of a whole file system (root \<open>/\<close>) from a device and of a real type are
  found, with the mount point as it is; bind mounts of a subdirectory never are.\<close>

theorem discoverPartitionMounts_kernel:
  assumes "list_all kernel_mount_ok ks"
  shows "discoverPartitionMounts (Some (unlines (map mount_text ks))) =
    map (\<lambda>k. \<lparr>me_device = km_source k, me_mount = km_mount k, me_fstype = km_fstype k\<rparr>)
      (filter (\<lambda>k. km_root k = ''/'' \<and> km_fstype k \<notin> pseudoFSTypes \<and> has_prefix (km_source k) ''/dev/'') ks)"
proof -
  have nn: "\<forall>l \<in> set (map mount_text ks). newline \<notin> set l" using assms mount_text_no_newline by (auto simp: list_all_iff)
  have e: "partition_line [] = None" by (simp add: partition_line_def)
  have "List.map_filter partition_line (map mount_text ks @ [[]]) =
    map (\<lambda>k. \<lparr>me_device = km_source k, me_mount = km_mount k, me_fstype = km_fstype k\<rparr>)
      (filter (\<lambda>k. km_root k = ''/'' \<and> km_fstype k \<notin> pseudoFSTypes \<and> has_prefix (km_source k) ''/dev/'') ks)"
    using assms by (induction ks) (simp_all add: List.map_filter_simps e partition_line_text)
  then show ?thesis by (simp add: discoverPartitionMounts_def split_on_unlines[OF nn])
qed

definition ex_mount :: "string \<Rightarrow> string \<Rightarrow> kernel_mount" where
  "ex_mount rt mount = \<lparr>km_ids = [''36'', ''35'', ''8:1''], km_root = rt, km_mount = mount, km_opts = [''rw'', ''shared:1''],
     km_fstype = ''ext4'', km_source = ''/dev/sda1'', km_super = [''rw'']\<rparr>"

theorem discoverPartitionMounts_kernel_witness:
  "discoverPartitionMounts (Some (unlines (map mount_text [ex_mount ''/'' ''/my disk'', ex_mount ''/etc/hosts'' ''/etc/hosts'']))) =
     [\<lparr>me_device = ''/dev/sda1'', me_mount = ''/my disk'', me_fstype = ''ext4''\<rparr>]"
proof -
  have "kernel_mount_ok (ex_mount ''/'' ''/my disk'')" "kernel_mount_ok (ex_mount ''/etc/hosts'' ''/etc/hosts'')"
    by code_simp+
  then show ?thesis
    by (subst discoverPartitionMounts_kernel) (simp_all add: ex_mount_def pseudoFSTypes_def has_prefix_def)
qed

section \<open>Whose partition\<close>

text \<open>One step down: the only slave of a device that sysfs does not attribute to a disk itself.\<close>

definition slave_of :: "(string \<Rightarrow> string list option) \<Rightarrow> (string \<Rightarrow> string option) \<Rightarrow> string \<Rightarrow> string \<Rightarrow> bool" where
  "slave_of dirs parents d s \<longleftrightarrow> parents d = None \<and> dirs (path_join [''/sys/class/block'', d, ''slaves'']) = Some [s]"

lemma partitionParentDisk_step: "slave_of dirs parents d s \<Longrightarrow> partitionParentDisk dirs parents d = partitionParentDisk dirs parents s"
  by (subst partitionParentDisk.simps) (simp add: slave_of_def)

lemma partitionParentDisk_stop:
  "\<nexists>s. slave_of dirs parents d s \<Longrightarrow> partitionParentDisk dirs parents d = Some (case parents d of Some p \<Rightarrow> p | None \<Rightarrow> [])"
proof -
  assume n: "\<nexists>s. slave_of dirs parents d s"
  show ?thesis
  proof (cases "parents d")
    case None
    have "length slaves \<noteq> 1" if "dirs (path_join [''/sys/class/block'', d, ''slaves'']) = Some slaves" for slaves
      using n that None by (auto simp: slave_of_def length_Suc_conv)
    with None show ?thesis by (subst partitionParentDisk.simps) (auto split: option.split)
  qed (subst partitionParentDisk.simps, simp)
qed

lemma walk_ends:
  assumes "wfp (\<lambda>s d. slave_of dirs parents d s)"
  shows "\<exists>e. (slave_of dirs parents)\<^sup>*\<^sup>* d e \<and> (\<nexists>s. slave_of dirs parents e s) \<and>
    partitionParentDisk dirs parents d = Some (case parents e of Some p \<Rightarrow> p | None \<Rightarrow> [])"
  using assms
proof (induction d rule: wfp_induct_rule)
  case (less d)
  show ?case
  proof (cases "\<exists>s. slave_of dirs parents d s")
    case True
    then obtain s where s: "slave_of dirs parents d s" by blast
    from less[OF s] obtain e where e: "(slave_of dirs parents)\<^sup>*\<^sup>* s e" "\<nexists>t. slave_of dirs parents e t"
      "partitionParentDisk dirs parents s = Some (case parents e of Some p \<Rightarrow> p | None \<Rightarrow> [])" by blast
    have "(slave_of dirs parents)\<^sup>*\<^sup>* d e" using s e(1) by (rule converse_rtranclp_into_rtranclp)
    with e partitionParentDisk_step[OF s] show ?thesis by auto
  next
    case False
    with partitionParentDisk_stop[OF False] show ?thesis by blast
  qed
qed

text \<open>C33: stacked devices: as long as no device is, through its slaves, below itself, the walk to the disk ends, at the last device
  of the chain of only slaves, with the disk sysfs gives for that one, or with none.\<close>

theorem partitionParentDisk_ends:
  assumes "wfp (\<lambda>s d. slave_of dirs parents d s)"
  shows "\<exists>e. (slave_of dirs parents)\<^sup>*\<^sup>* d e \<and> (\<nexists>s. slave_of dirs parents e s) \<and>
    partitionParentDisk dirs parents d = Some (case parents e of Some p \<Rightarrow> p | None \<Rightarrow> [])"
  using assms by (rule walk_ends)

definition ex_slaves :: "string \<Rightarrow> string list option" where
  "ex_slaves p = (if p = ''/sys/class/block/dm-0/slaves'' then Some [''sda2''] else None)"

definition ex_parents :: "string \<Rightarrow> string option" where
  "ex_parents d = (if d = ''sda2'' then Some ''sda'' else None)"

lemma ex_slave_of: "slave_of ex_slaves ex_parents d s \<Longrightarrow> d \<noteq> ''sda2'' \<and> s = ''sda2''"
  by (auto simp: slave_of_def ex_slaves_def ex_parents_def split: if_splits)

lemma ex_dm0: "slave_of ex_slaves ex_parents ''dm-0'' ''sda2''"
proof -
  have "path_join [''/sys/class/block'', ''dm-0'', ''slaves''] = ''/sys/class/block/dm-0/slaves''" by code_simp
  then show ?thesis by (simp add: slave_of_def ex_slaves_def ex_parents_def)
qed

theorem partitionParentDisk_ends_witness: "partitionParentDisk ex_slaves ex_parents ''dm-0'' = Some ''sda''"
proof -
  have wf: "wfp (\<lambda>s d. slave_of ex_slaves ex_parents d s)"
    by (rule wfp_if_convertible_to_nat[where f = "\<lambda>d. if d = ''sda2'' then 0 else 1"]) (use ex_slave_of in force)
  from partitionParentDisk_ends[OF wf, of "''dm-0''"] obtain e where
    e: "(slave_of ex_slaves ex_parents)\<^sup>*\<^sup>* ''dm-0'' e" "\<nexists>s. slave_of ex_slaves ex_parents e s"
      "partitionParentDisk ex_slaves ex_parents ''dm-0'' = Some (case ex_parents e of Some p \<Rightarrow> p | None \<Rightarrow> [])" by blast
  from e(1) have "e = ''dm-0'' \<or> e = ''sda2''" by (induction rule: rtranclp_induct) (auto dest: ex_slave_of)
  with e(2) ex_dm0 have "e = ''sda2''" by blast
  with e(3) show ?thesis by (simp add: ex_parents_def)
qed

text \<open>Then the whole collection returns.\<close>

definition no_cycle :: "(string \<Rightarrow> string list option) \<Rightarrow> bool" where
  "no_cycle dirs \<longleftrightarrow> wfp (\<lambda>s d. dirs (path_join [''/sys/class/block'', d, ''slaves'']) = Some [s])"

lemma no_cycle_walk: "no_cycle dirs \<Longrightarrow> \<exists>p. partitionParentDisk dirs parents d = Some p"
proof -
  assume "no_cycle dirs"
  then have "wfp (\<lambda>s d. slave_of dirs parents d s)"
    unfolding no_cycle_def by (rule wfp_subset) (auto simp: slave_of_def)
  from walk_ends[OF this, of d] show ?thesis by blast
qed

lemma no_cycle_partitions: "no_cycle dirs \<Longrightarrow> \<exists>rs. collect_partitions (partition_of dirs parents sfs host_root) ms = Some rs"
proof (induction ms)
  case (Cons m ms)
  obtain p where "partitionParentDisk dirs parents (trim_prefix (me_device m) ''/dev/'') = Some p"
    using no_cycle_walk[OF Cons.prems] by blast
  then obtain r where "partition_of dirs parents sfs host_root m = Some r"
    unfolding partition_of_def Let_def by (cases "p = []") (force split: option.splits if_splits)+
  with Cons show ?case by auto
qed simp

lemma no_cycle_host:
  assumes "no_cycle dirs"
  shows "\<exists>h. CollectHostInfo he srt fs dirs exists sfs host_proc host_root = Some h"
proof -
  have "\<exists>m. readDiskPartitions srt fs dirs sfs parents host_proc host_root = Some m" for parents
    using no_cycle_partitions[OF assms] by (fastforce simp: readDiskPartitions_def)
  then have "\<exists>ds. readDiskInfo srt fs dirs exists sfs host_proc host_root = Some ds"
    unfolding readDiskInfo_def Let_def by (fastforce split: option.split)
  then show ?thesis by (auto simp: CollectHostInfo_def split: prod.split)
qed

text \<open>A device that is its own slave sends the walk around for ever.\<close>

lemma partitionParentDisk_cycle:
  assumes "\<forall>d. parents d = None" "\<forall>p. dirs p = Some [''dm-0'']"
  shows "partitionParentDisk dirs parents d = None"
proof -
  have "(\<forall>d. parents d = None) \<longrightarrow> (\<forall>p. dirs p = Some [''dm-0'']) \<longrightarrow> False"
    if "partitionParentDisk dirs parents d = Some y" for y
  proof (induction dirs parents d y rule: partitionParentDisk.raw_induct)
    case (1 f dirs parents d y)
    show ?case
    proof (intro impI)
      assume ab: "\<forall>d. parents d = None" "\<forall>p. dirs p = Some [''dm-0'']"
      have "f dirs parents ''dm-0'' = Some y" using 1(2) ab by simp
      from 1(1)[OF this] ab show False by blast
    qed
  qed (rule that)
  with assms have "partitionParentDisk dirs parents d \<noteq> Some y" for y by blast
  then show ?thesis by (cases "partitionParentDisk dirs parents d") auto
qed


section \<open>Which disk a partition is shown under\<close>

lemma walk_chain:
  assumes "partitionParentDisk dirs parents d = Some p"
  shows "p \<noteq> [] \<longrightarrow> (\<exists>e. (slave_of dirs parents)\<^sup>*\<^sup>* d e \<and> parents e = Some p)"
proof (induction dirs parents d p rule: partitionParentDisk.raw_induct)
  case (1 f dirs parents d p)
  show ?case
  proof (intro impI)
    assume p: "p \<noteq> []"
    show "\<exists>e. (slave_of dirs parents)\<^sup>*\<^sup>* d e \<and> parents e = Some p"
    proof (cases "parents d")
      case (Some q)
      with 1(2) show ?thesis by auto
    next
      case None
      obtain slaves where sl: "dirs (path_join [''/sys/class/block'', d, ''slaves'']) = Some slaves"
        using 1(2) None p by (cases "dirs (path_join [''/sys/class/block'', d, ''slaves''])") auto
      with 1(2) None p have "length slaves = 1" "f dirs parents (hd slaves) = Some p" by (auto split: if_splits)
      then obtain s where s: "slaves = [s]" "f dirs parents s = Some p" by (cases slaves) auto
      have "p \<noteq> [] \<longrightarrow> (\<exists>e. (slave_of dirs parents)\<^sup>*\<^sup>* s e \<and> parents e = Some p)" by (rule 1(1)[OF s(2)])
      with p obtain e where e: "(slave_of dirs parents)\<^sup>*\<^sup>* s e" "parents e = Some p" by auto
      have "slave_of dirs parents d s" using None sl s(1) by (simp add: slave_of_def)
      then have "(slave_of dirs parents)\<^sup>*\<^sup>* d e" using e(1) by (rule converse_rtranclp_into_rtranclp)
      with e(2) show ?thesis by blast
    qed
  qed
qed (rule assms)

text \<open>What sysfs says of a device: it is the disk, or a partition of it known to the kernel.\<close>

definition on_disk :: "(string \<Rightarrow> bool) \<Rightarrow> string \<Rightarrow> string \<Rightarrow> bool" where
  "on_disk exists dev disk \<longleftrightarrow> dev = disk \<or> exists (''/sys/block/'' @ disk @ ''/'' @ dev @ ''/partition'')"

lemma parents_on_disk:
  assumes "buildPartitionParents dirs exists names dev = Some disk"
  shows "on_disk exists dev disk"
proof -
  define Q where "Q = (\<lambda>ps :: string \<Rightarrow> string option. \<forall>n k. ps n = Some k \<longrightarrow> on_disk exists n k)"
  have upd: "Q (ps(n \<mapsto> k))" if "Q ps" "on_disk exists n k" for ps n k using that by (simp add: Q_def)
  have one: "Q (if exists (''/sys/block/'' @ d @ ''/'' @ n @ ''/partition'') then ps(n \<mapsto> d) else ps)" if "Q ps" for ps n d
    using that upd[OF that, of n d] by (simp add: on_disk_def)
  have inner: "Q (fold (\<lambda>n ps. if exists (''/sys/block/'' @ d @ ''/'' @ n @ ''/partition'') then ps(n \<mapsto> d) else ps) es ps)"
    if "Q ps" for d es ps
  proof (rule fold_invariant[where P = Q and Q = "\<lambda>_. True"])
    show "Q ps" by (rule that)
    show "Q (if exists (''/sys/block/'' @ d @ ''/'' @ x @ ''/partition'') then s(x \<mapsto> d) else s)" if "Q s" for x s
      using that by (rule one)
  qed simp
  have "Q (buildPartitionParents dirs exists names)"
    unfolding buildPartitionParents_def
  proof (rule fold_invariant[where P = Q and Q = "\<lambda>_. True"])
    show "Q Map.empty" by (simp add: Q_def)
    show "Q (fold (\<lambda>name ps. if exists (''/sys/block/'' @ x @ ''/'' @ name @ ''/partition'') then ps(name \<mapsto> x) else ps)
        (case dirs (''/sys/block/'' @ x) of None \<Rightarrow> [] | Some es \<Rightarrow> es) (s(x \<mapsto> x)))" if "Q s" for x s
      by (rule inner[OF upd[OF that]]) (simp add: on_disk_def)
  qed simp
  then show ?thesis using assms by (simp add: Q_def)
qed

lemma collect_partitions_mem:
  "collect_partitions f ms = Some found \<Longrightarrow> x \<in> set found \<Longrightarrow> \<exists>m \<in> set ms. f m = Some (Some x)"
  by (induction ms arbitrary: found) (fastforce split: option.splits)+

definition mount_less :: "partition_info \<Rightarrow> partition_info \<Rightarrow> bool" where
  "mount_less a b = (pt_mount a < pt_mount b)"

lemma mount_less_weak: "weak_order_on (\<lambda>_. True) mount_less"
  by (auto simp: weak_order_on_def mount_less_def)

interpretation parts: slice_sort "\<lambda>_. True" mount_less "sort_by mount_less"
  by (rule sort_by_slice_sort[OF mount_less_weak])

definition disk_parents :: "(string \<Rightarrow> string list option) \<Rightarrow> (string \<Rightarrow> bool) \<Rightarrow> string \<Rightarrow> string option" where
  "disk_parents dirs exists =
     buildPartitionParents dirs exists (filter realDiskRe (case dirs ''/sys/block'' of None \<Rightarrow> [] | Some es \<Rightarrow> es))"

lemma partition_of_Some:
  assumes "partition_of dirs parents sfs host_root m = Some (Some (k, p))"
  shows "partitionParentDisk dirs parents (pt_device p) = Some k \<and> k \<noteq> [] \<and> \<not> isTechnicalMount (pt_mount p) (pt_fs_type p) (pt_total p)"
  using assms by (auto simp: partition_of_def Let_def split: option.splits if_splits)

text \<open>C34: every partition shown under a disk is mounted from a device from which the chain of only slaves leads to that very
  disk or to a partition the kernel knows on it, is no firmware or boot mount, and is shown only where the
  program can read the host's file system: with a bind mount of its root or outside a container. The
  partitions of a disk are in the order of their mount points.\<close>

theorem partition_on_disk:
  assumes "slice_sort (\<lambda>_. True) mount_less srt"
    and "readDiskInfo srt fs dirs exists sfs host_proc host_root = Some ds" "d \<in> set ds" "p \<in> set (di_partitions d)"
  shows "(\<exists>dev. (slave_of dirs (disk_parents dirs exists))\<^sup>*\<^sup>* (pt_device p) dev \<and> on_disk exists dev (di_device d))
    \<and> \<not> isTechnicalMount (pt_mount p) (pt_fs_type p) (pt_total p) \<and> (host_root \<noteq> [] \<or> host_proc = ''/proc'')
    \<and> sorted_wrt (\<lambda>a b. pt_mount a \<le> pt_mount b) (di_partitions d)"
proof -
  let ?P = "disk_parents dirs exists"
  obtain es by_disk where es: "dirs ''/sys/block'' = Some es" "readDiskPartitions srt fs dirs sfs ?P host_proc host_root = Some by_disk"
    and d: "di_partitions d = by_disk (di_device d)"
    using assms(2,3) by (auto simp: readDiskInfo_def disk_parents_def Let_def split: option.splits)
  have root: "\<not> (host_root = [] \<and> host_proc \<noteq> ''/proc'')"
  proof
    assume "host_root = [] \<and> host_proc \<noteq> ''/proc''"
    then have "readDiskPartitions srt fs dirs sfs ?P host_proc host_root = Some (\<lambda>_. [])" by (simp add: readDiskPartitions_def)
    with es(2) have "by_disk = (\<lambda>_. [])" by simp
    then show False using assms(4) d by simp
  qed
  with es(2) obtain found where f: "collect_partitions (partition_of dirs ?P sfs host_root)
      (discoverPartitionMounts (fs (path_join [host_proc, ''1'', ''mountinfo'']))) = Some found"
    and by_disk: "by_disk = (\<lambda>name. srt (map snd (filter (\<lambda>x. fst x = name) found)))"
    unfolding readDiskPartitions_def by (simp only: if_False) auto
  have sorted: "sorted_wrt (\<lambda>a b. pt_mount a \<le> pt_mount b) (srt ps)" for ps
    using slice_sort.srt_ordered[OF assms(1), of ps] by (simp add: mount_less_def not_less list_all_iff)
  have "(di_device d, p) \<in> set found"
    using assms(4) unfolding d by_disk slice_sort.srt_set[OF assms(1)] by auto
  from collect_partitions_mem[OF f this] obtain m where "partition_of dirs ?P sfs host_root m = Some (Some (di_device d, p))" by blast
  note k = partition_of_Some[OF this]
  then obtain dev where dev: "(slave_of dirs ?P)\<^sup>*\<^sup>* (pt_device p) dev" "?P dev = Some (di_device d)"
    using walk_chain[of dirs ?P "pt_device p" "di_device d"] by auto
  have "on_disk exists dev (di_device d)" using parents_on_disk dev(2) by (simp add: disk_parents_def)
  then show ?thesis using dev(1) k root sorted d by_disk by auto
qed


definition ex_hfs :: "string \<Rightarrow> string option" where
  "ex_hfs p = (if p = ''/proc/1/mountinfo'' then Some ''1 0 8:1 / /data rw - ext4 /dev/sda1 rw'' else None)"

definition ex_hdirs :: "string \<Rightarrow> string list option" where
  "ex_hdirs p = (if p = ''/sys/block'' then Some [''sda'', ''loop0''] else if p = ''/sys/block/sda'' then Some [''queue'', ''sda1''] else None)"

definition ex_hexists :: "string \<Rightarrow> bool" where
  "ex_hexists p = (p = ''/sys/block/sda/sda1/partition'')"

definition ex_hstat :: "string \<Rightarrow> statfs option" where
  "ex_hstat p = Some \<lparr>st_bsize = 0, st_blocks = 0, st_bfree = 0, st_bavail = 0\<rparr>"

definition ex_part :: partition_info where
  "ex_part = \<lparr>pt_device = ''sda1'', pt_fs_type = ''ext4'', pt_mount = ''/data'', pt_total = 0, pt_used = 0, pt_avail = 0, pt_used_pct = 0\<rparr>"

definition ex_disk :: disk_info where
  "ex_disk = \<lparr>di_device = ''sda'', di_model = [], di_size = 0, di_kind = [], di_partitions = [ex_part]\<rparr>"

lemma ex_disk_info: "readDiskInfo (sort_by mount_less) ex_hfs ex_hdirs ex_hexists ex_hstat ''/proc'' [] = Some [ex_disk]"
proof -
  have j: "path_join [''/proc'', ''1'', ''mountinfo''] = ''/proc/1/mountinfo''" by code_simp
  have m: "discoverPartitionMounts (ex_hfs ''/proc/1/mountinfo'') = [\<lparr>me_device = ''/dev/sda1'', me_mount = ''/data'', me_fstype = ''ext4''\<rparr>]"
    by code_simp
  have p: "buildPartitionParents ex_hdirs ex_hexists [''sda''] = [''sda'' \<mapsto> ''sda'', ''sda1'' \<mapsto> ''sda'']"
    by (simp add: buildPartitionParents_def ex_hdirs_def ex_hexists_def)
  have r: "filter realDiskRe [''sda'', ''loop0''] = [''sda'']" by code_simp
  have t: "trim_prefix ''/dev/sda1'' ''/dev/'' = ''sda1''" "\<not> isTechnicalMount ''/data'' ''ext4'' 0"
    by (simp_all add: trim_prefix_def has_prefix_def isTechnicalMount_def)
  have w: "partitionParentDisk ex_hdirs [''sda'' \<mapsto> ''sda'', ''sda1'' \<mapsto> ''sda''] ''sda1'' = Some ''sda''"
    by (subst partitionParentDisk.simps) simp
  have o: "partition_of ex_hdirs [''sda'' \<mapsto> ''sda'', ''sda1'' \<mapsto> ''sda''] ex_hstat []
      \<lparr>me_device = ''/dev/sda1'', me_mount = ''/data'', me_fstype = ''ext4''\<rparr> = Some (Some (''sda'', ex_part))"
    by (simp add: partition_of_def statMount_def ex_hstat_def t w ex_part_def Let_def)
  have d: "readDiskPartitions (sort_by mount_less) ex_hfs ex_hdirs ex_hstat [''sda'' \<mapsto> ''sda'', ''sda1'' \<mapsto> ''sda''] ''/proc'' [] =
      Some (\<lambda>name. sort_by mount_less (map snd (filter (\<lambda>x. fst x = name) [(''sda'', ex_part)])))"
    unfolding readDiskPartitions_def j m collect_partitions.simps o by simp
  have f: "ex_hfs (''/sys/block/sda/device/vendor'') = None" "ex_hfs (''/sys/block/sda/device/model'') = None"
    "ex_hfs (''/sys/block/sda/size'') = None" "ex_hfs (''/sys/block/sda/queue/rotational'') = None"
    "ex_hdirs ''/sys/block'' = Some [''sda'', ''loop0'']" by (simp_all add: ex_hfs_def ex_hdirs_def)
  have s: "TrimSpace '' '' = []" by code_simp
  show ?thesis unfolding readDiskInfo_def f(5) option.case Let_def r p d
    by (simp add: f s readSysfsTrimmed_def readDiskKind_def disk_size_def ex_disk_def)
qed

theorem partition_on_disk_witness:
  "\<exists>dev. (slave_of ex_hdirs (disk_parents ex_hdirs ex_hexists))\<^sup>*\<^sup>* ''sda1'' dev \<and> on_disk ex_hexists dev ''sda''"
proof -
  have "pt_device ex_part = ''sda1''" "di_device ex_disk = ''sda''" by (simp_all add: ex_part_def ex_disk_def)
  moreover have "ex_disk \<in> set [ex_disk]" "ex_part \<in> set (di_partitions ex_disk)" by (simp_all add: ex_disk_def)
  ultimately show ?thesis using partition_on_disk[OF parts.slice_sort_axioms ex_disk_info, of ex_disk ex_part] by simp
qed

text \<open>Volumes of the device mapper are mounted from /dev/mapper/..., a name sysfs does not have: they are never shown.\<close>

lemma mapper_never_shown:
  assumes "me_device m = ''/dev/mapper/'' @ v" "parents (''mapper/'' @ v) = None"
    and "dirs (path_join [''/sys/class/block'', ''mapper/'' @ v, ''slaves'']) = None"
  shows "partition_of dirs parents sfs host_root m = Some None"
proof -
  have "trim_prefix (me_device m) ''/dev/'' = ''mapper/'' @ v" by (simp add: assms(1) trim_prefix_def has_prefix_def)
  moreover have "partitionParentDisk dirs parents (''mapper/'' @ v) = Some []"
    using assms(2,3) by (subst partitionParentDisk.simps) simp
  ultimately show ?thesis by (simp add: partition_of_def Let_def split: option.split)
qed

end
