(* ===== verification/Monitor.thy ===== *)
theory Monitor
  imports Startup Connections SshLog Uptime Processes SystemCollect Docker History Host
begin

text \<open>
  The parts together (internal/app/app.go and the data endpoints of internal/api): the loop that collects a
  snapshot every second and hands it to the store, the uptime log and the alarms, with the goroutines of the
  store running beside it, and what the endpoints answer from the state it leaves.
\<close>

section \<open>The loop\<close>

text \<open>What the background loop owns, and the samples whose saving goroutine has not run yet.\<close>

record monitor =
  mo_sys :: sys_collector
  mo_procs :: process_collector
  mo_uptime :: up_log
  mo_alarms :: evaluator
  mo_mem :: "metrics mem_store"
  mo_pending :: "metrics multiset"

text \<open>What one turn of the loop reads from outside.\<close>

record tick_env =
  te_now :: time
  te_reading :: reading
  te_dir :: "string list option"
  te_stat :: "int \<Rightarrow> string option"
  te_top_now :: time
  te_uptime :: "string option"
  te_io :: io

definition build_monitor :: "config \<Rightarrow> string list \<Rightarrow> (string \<Rightarrow> string option) \<Rightarrow> (string \<Rightarrow> up_session option)
    \<Rightarrow> string option \<Rightarrow> monitor" where
  "build_monitor cfg zones fs dec up_file =
     \<lparr>mo_sys = NewSystemCollector (DiskMounts cfg) (HostProcPath cfg) zones fs,
      mo_procs = NewProcessCollector (HostProcPath cfg), mo_uptime = NewLog dec up_file,
      mo_alarms = NewEvaluator DefaultThresholds, mo_mem = NewMemoryStore, mo_pending = {#}\<rparr>"

definition snapshot :: "(process_info list \<Rightarrow> process_info list) \<Rightarrow> tick_env \<Rightarrow> monitor \<Rightarrow> metrics" where
  "snapshot srt e mo =
     (fst (Collect (te_reading e) (mo_sys mo)))
       \<lparr>m_processes := fst (Top srt (te_dir e) (te_stat e) (te_top_now e) 6 (mo_procs mo))\<rparr>"

definition tick :: "(process_info list \<Rightarrow> process_info list) \<Rightarrow> (up_session \<Rightarrow> string option) \<Rightarrow> tick_env \<Rightarrow> monitor \<Rightarrow> monitor" where
  "tick srt enc e mo =
     (let m = snapshot srt e mo
      in mo\<lparr>mo_sys := snd (Collect (te_reading e) (mo_sys mo)),
            mo_procs := snd (Top srt (te_dir e) (te_stat e) (te_top_now e) 6 (mo_procs mo)),
            mo_pending := add_mset m (mo_pending mo),
            mo_uptime := Observe enc (te_io e) (te_now e) (ReadBootTime (te_uptime e) (te_now e)) (mo_uptime mo),
            mo_alarms := Evaluate m (mo_alarms mo)\<rparr>)"

text \<open>The goroutine \<open>MultiStore.Save\<close> started for the sample \<open>p\<close> runs.\<close>

definition save_pending :: "metrics \<Rightarrow> monitor \<Rightarrow> monitor" where
  "save_pending p mo = mo\<lparr>mo_pending := mo_pending mo - {#p#}, mo_mem := Save p (mo_mem mo)\<rparr>"

inductive monitor_run :: "(process_info list \<Rightarrow> process_info list) \<Rightarrow> (up_session \<Rightarrow> string option) \<Rightarrow> monitor
    \<Rightarrow> metrics list \<Rightarrow> monitor \<Rightarrow> bool" for srt enc mo0 where
  start: "monitor_run srt enc mo0 [] mo0"
| turn: "monitor_run srt enc mo0 ms mo \<Longrightarrow> orders_ok (te_reading e) \<Longrightarrow>
     monitor_run srt enc mo0 (ms @ [snapshot srt e mo]) (tick srt enc e mo)"
| saved: "monitor_run srt enc mo0 ms mo \<Longrightarrow> p \<in># mo_pending mo \<Longrightarrow> monitor_run srt enc mo0 ms (save_pending p mo)"

section \<open>The data endpoints\<close>

record api_handler =
  ah_mem :: "metrics mem_store"
  ah_host :: host_info
  ah_docker :: "docker_collector option"
  ah_alarms :: evaluator
  ah_uptime :: up_log
  ah_ssh :: "ssh_watcher option"
  ah_conn :: "conn_watcher option"

datatype reply =
  StatsReply metrics
| HistoryReply history_response
| HostReply host_info
| ContainersReply "container list"
| AlarmsReply "alarm list" nat
| SessionsReply "session_response list"
| SSHReply "ssh_event list" bool
| ConnectionsReply "conn_event list" bool

definition AlarmsList :: "api_handler \<Rightarrow> reply" where
  "AlarmsList h = (let alarms = Latest (ah_alarms h) in AlarmsReply alarms (length alarms))"

definition Containers :: "api_handler \<Rightarrow> reply" where
  "Containers h = ContainersReply (case ah_docker h of None \<Rightarrow> [] | Some d \<Rightarrow> docker_snapshot d)"

definition HostInfo :: "api_handler \<Rightarrow> reply" where
  "HostInfo h = HostReply (ah_host h)"

definition SSHEvents :: "api_handler \<Rightarrow> reply" where
  "SSHEvents h =
     (case ah_ssh h of None \<Rightarrow> SSHReply [] False | Some w \<Rightarrow> SSHReply (Recent 200 (ssh_log w)) True)"

definition ConnectionEvents :: "api_handler \<Rightarrow> reply" where
  "ConnectionEvents h =
     (case ah_conn h of None \<Rightarrow> ConnectionsReply [] False | Some w \<Rightarrow> ConnectionsReply (Recent 200 (conn_log w)) True)"

text \<open>
  The registered patterns. \<open>query\<close> is \<open>r.URL.Query().Get\<close>; \<open>None\<close> is a path that is not registered, or a
  handler that does not return.
\<close>

definition Register :: "api_handler \<Rightarrow> time \<Rightarrow> (string \<Rightarrow> string) \<Rightarrow> string \<Rightarrow> reply option" where
  "Register h t query path =
     (if path = ''/api/stats'' then Some (StatsReply (Stats (ah_mem h)))
      else if path = ''/api/history''
        then map_option HistoryReply (History (ah_mem h) (query ''metric'') (query ''of'') (query ''points''))
      else if path = ''/api/host'' then Some (HostInfo h)
      else if path = ''/api/containers'' then Some (Containers h)
      else if path = ''/api/alarms'' then Some (AlarmsList h)
      else if path = ''/api/uptime/sessions'' then Some (SessionsReply (UptimeSessions t (ah_uptime h)))
      else if path = ''/api/security/ssh'' then Some (SSHEvents h)
      else if path = ''/api/security/connections'' then Some (ConnectionEvents h)
      else None)"

text \<open>The handler shares what the loop and the pollers own; a collaborator that is not enabled is \<open>None\<close>.\<close>

definition build_handler :: "host_info \<Rightarrow> docker_collector option \<Rightarrow> ssh_watcher option \<Rightarrow> conn_watcher option \<Rightarrow> monitor \<Rightarrow> api_handler" where
  "build_handler host docker ssh conn mo =
     \<lparr>ah_mem = mo_mem mo, ah_host = host, ah_docker = docker, ah_alarms = mo_alarms mo, ah_uptime = mo_uptime mo,
      ah_ssh = ssh, ah_conn = conn\<rparr>"

section \<open>Every registered path is answered\<close>

text \<open>exactly the paths the session mode guards as data are registered, and each of them is answered, whatever the
  query, whatever is disabled and before anything has been collected: the only handler with a loop whose step
  comes from the request ends as well.\<close>

theorem data_paths_answered: "Register h t query path \<noteq> None \<longleftrightarrow> path \<in> set data_paths"
  by (simp add: Register_def data_paths_def History_eq[OF refl])


section \<open>Alarms and lookups use the same keys\<close>

text \<open>The metric an alarm id stands for.\<close>

definition metric_of :: "string \<Rightarrow> string" where
  "metric_of i =
     (if i = ''cpu.usage'' then ''cpu.usage_pct'' else if i = ''ram.used'' then ''ram.used_pct''
      else if i = ''cpu.iowait'' then ''cpu.iowait_pct'' else if i = ''cpu.steal'' then ''cpu.steal_pct''
      else if has_prefix i ''disk.'' then ''disk.used_pct'' else if has_prefix i ''diskio.'' then ''disk_io.latency_ms''
      else ''temp.celsius'')"

definition metrics_ok :: "(string \<times> alarm) list \<Rightarrow> bool" where
  "metrics_ok act \<longleftrightarrow> (\<forall>(i, a) \<in> set act. al_metric a = metric_of i)"

text \<open>No mount point, device or zone of the snapshot has the empty name, which the lookup reads as a default.\<close>

definition named :: "metrics \<Rightarrow> bool" where
  "named m \<longleftrightarrow> [] \<notin> d_mount ` set (m_disks m) \<and> [] \<notin> io_device ` set (m_disk_io m) \<and> [] \<notin> zone ` set (m_temp m)"

lemma metric_of_simps [simp]:
  "metric_of (disk_id d) = ''disk.used_pct''" "metric_of (io_id x) = ''disk_io.latency_ms''" "metric_of (temp_id z) = ''temp.celsius''"
  "metric_of ''cpu.usage'' = ''cpu.usage_pct''" "metric_of ''ram.used'' = ''ram.used_pct''"
  "metric_of ''cpu.iowait'' = ''cpu.iowait_pct''" "metric_of ''cpu.steal'' = ''cpu.steal_pct''"
  by (simp_all add: metric_of_def disk_id_def io_id_def temp_id_def has_prefix_def)

lemma part_metrics:
  "c \<in> set (cpu_calls th u) \<Longrightarrow> fst (snd c) = metric_of (fst c) \<and> fst c = ''cpu.usage'' \<and> snd (snd (snd (snd c))) = usage_pct u"
  "c \<in> set (ram_calls th r) \<Longrightarrow> fst (snd c) = metric_of (fst c) \<and> fst c = ''ram.used'' \<and> snd (snd (snd (snd c))) = ram_used_pct r"
  "c \<in> set (iowait_calls th u) \<Longrightarrow> fst (snd c) = metric_of (fst c) \<and> fst c = ''cpu.iowait'' \<and> snd (snd (snd (snd c))) = iowait_pct u"
  "c \<in> set (steal_calls th u) \<Longrightarrow> fst (snd c) = metric_of (fst c) \<and> fst c = ''cpu.steal'' \<and> snd (snd (snd (snd c))) = steal_pct u"
  "c \<in> set (disk_calls th d) \<Longrightarrow> fst (snd c) = metric_of (fst c) \<and> fst c = disk_id d \<and> snd (snd (snd (snd c))) = d_used_pct d"
  "c \<in> set (io_calls th x) \<Longrightarrow> fst (snd c) = metric_of (fst c) \<and> fst c = io_id x \<and> snd (snd (snd (snd c))) = latency_ms x"
  "c \<in> set (temp_calls th z) \<Longrightarrow> fst (snd c) = metric_of (fst c) \<and> fst c = temp_id z \<and> snd (snd (snd (snd c))) = celsius z"
  by (auto simp: call_defs split: if_splits)

lemma calls_cases:
  "c \<in> set (calls th m) \<longleftrightarrow> c \<in> set (cpu_calls th (m_cpu m)) \<or> c \<in> set (ram_calls th (m_ram m))
     \<or> c \<in> set (iowait_calls th (m_cpu m)) \<or> c \<in> set (steal_calls th (m_cpu m))
     \<or> (\<exists>d \<in> set (m_disks m). c \<in> set (disk_calls th d)) \<or> (\<exists>x \<in> set (m_disk_io m). c \<in> set (io_calls th x))
     \<or> (\<exists>z \<in> set (m_temp m). c \<in> set (temp_calls th z))"
  by (auto simp: calls_def)

lemma calls_metric: "c \<in> set (calls th m) \<Longrightarrow> fst (snd c) = metric_of (fst c)"
  unfolding calls_cases by (elim disjE bexE; drule part_metrics; simp)

lemma calls_lookup:
  assumes "c \<in> set (calls th m)" "names_distinct m" "named m"
  shows "\<exists>sel. metricValue m (fst (snd c)) sel = Some (snd (snd (snd (snd c))))"
proof -
  have disk: "metricValue m ''disk.used_pct'' (d_mount d) = Some (d_used_pct d)" if "d \<in> set (m_disks m)" for d
  proof -
    have "find (\<lambda>x. d_mount x = d_mount d) (m_disks m) = Some d"
      using assms(2) that by (intro find_unique) (simp_all add: names_distinct_def)
    moreover have "d_mount d \<noteq> []" using assms(3) that by (force simp: named_def)
    ultimately show ?thesis by (simp add: metricValue_def diskValue_def)
  qed
  have dio: "metricValue m ''disk_io.latency_ms'' (io_device x) = Some (latency_ms x)" if "x \<in> set (m_disk_io m)" for x
  proof -
    have "find (\<lambda>y. io_device y = io_device x) (m_disk_io m) = Some x"
      using assms(2) that by (intro find_unique) (simp_all add: names_distinct_def)
    moreover have "io_device x \<noteq> []" using assms(3) that by (force simp: named_def)
    ultimately show ?thesis by (simp add: metricValue_def diskIOValue_def diskIOField_def)
  qed
  have tmp: "metricValue m ''temp.celsius'' (zone z) = Some (celsius z)" if "z \<in> set (m_temp m)" for z
  proof -
    have "find (\<lambda>y. zone y = zone z) (m_temp m) = Some z"
      using assms(2) that by (intro find_unique) (simp_all add: names_distinct_def)
    moreover have "zone z \<noteq> []" using assms(3) that by (force simp: named_def)
    ultimately show ?thesis by (simp add: metricValue_def tempValue_def)
  qed
  have fixed: "metricValue m ''cpu.usage_pct'' [] = Some (usage_pct (m_cpu m))" "metricValue m ''ram.used_pct'' [] = Some (ram_used_pct (m_ram m))"
    "metricValue m ''cpu.iowait_pct'' [] = Some (iowait_pct (m_cpu m))" "metricValue m ''cpu.steal_pct'' [] = Some (steal_pct (m_cpu m))"
    by (simp_all add: metricValue_def)
  show ?thesis using assms(1) unfolding calls_cases
  proof (elim disjE bexE)
    assume "c \<in> set (cpu_calls th (m_cpu m))"
    from part_metrics(1)[OF this] fixed show ?thesis by auto
  next
    assume "c \<in> set (ram_calls th (m_ram m))"
    from part_metrics(2)[OF this] fixed show ?thesis by auto
  next
    assume "c \<in> set (iowait_calls th (m_cpu m))"
    from part_metrics(3)[OF this] fixed show ?thesis by auto
  next
    assume "c \<in> set (steal_calls th (m_cpu m))"
    from part_metrics(4)[OF this] fixed show ?thesis by auto
  next
    fix d assume "d \<in> set (m_disks m)" "c \<in> set (disk_calls th d)"
    from part_metrics(5)[OF this(2)] disk[OF this(1)] show ?thesis by auto
  next
    fix x assume "x \<in> set (m_disk_io m)" "c \<in> set (io_calls th x)"
    from part_metrics(6)[OF this(2)] dio[OF this(1)] show ?thesis by auto
  next
    fix z assume "z \<in> set (m_temp m)" "c \<in> set (temp_calls th z)"
    from part_metrics(7)[OF this(2)] tmp[OF this(1)] show ?thesis by auto
  qed
qed


lemma Evaluate_origin:
  assumes "a \<in> set (Latest (Evaluate m e))" "active_ok (ev_active e)"
  shows "\<exists>c \<in> set (calls (ev_th e) m). a = raised_as (m_time m) (ev_active e) c"
proof -
  let ?n = "ev_active (Evaluate m e)"
  from assms(1) obtain i where i: "(i, a) \<in> set ?n" unfolding Latest_def Evaluate_last by auto
  have "distinct (map fst ?n)" using Evaluate_ok[OF assms(2)] by (simp add: active_ok_def)
  with i have "map_of ?n i = Some a" by simp
  then obtain c where "find (\<lambda>c. fst c = i) (rev (calls (ev_th e) m)) = Some c" "a = raised_as (m_time m) (ev_active e) c"
    by (auto simp: Evaluate_lookup)
  with find_Some_iff_mem[OF this(1)] show ?thesis by auto
qed

lemma raised_as_metric:
  assumes "metrics_ok act" "fst (snd c) = metric_of (fst c)"
  shows "al_metric (raised_as t act c) = fst (snd c) \<and> al_value (raised_as t act c) = snd (snd (snd (snd c)))"
proof -
  obtain i me se ms v where c: "c = (i, me, se, ms, v)" by (metis surj_pair)
  show ?thesis
  proof (cases "map_of act i")
    case None
    then show ?thesis by (simp add: c raised_as_def)
  next
    case (Some a)
    then have "al_metric a = metric_of i" using assms(1) map_of_SomeD[OF Some] by (force simp: metrics_ok_def)
    with Some assms(2) show ?thesis by (simp add: c raised_as_def)
  qed
qed

lemma Evaluate_metrics_ok:
  assumes "metrics_ok (ev_active e)"
  shows "metrics_ok (ev_active (Evaluate m e))"
proof -
  have "al_metric a = metric_of i" if "(i, a) \<in> set (ev_active (Evaluate m e))" for i a
  proof -
    have "distinct (map fst (ev_active (Evaluate m e)))" by (simp add: Evaluate_def Let_def fold_raise_distinct)
    with that have "map_of (ev_active (Evaluate m e)) i = Some a" by simp
    then obtain c where c: "find (\<lambda>c. fst c = i) (rev (calls (ev_th e) m)) = Some c" "a = raised_as (m_time m) (ev_active e) c"
      by (auto simp: Evaluate_lookup)
    then have "c \<in> set (calls (ev_th e) m)" "fst c = i" using find_Some_iff_mem[OF c(1)] by auto
    with raised_as_metric[OF assms calls_metric] calls_metric c(2) show ?thesis by metis
  qed
  then show ?thesis by (auto simp: metrics_ok_def)
qed

section \<open>What every run of the loop keeps\<close>

definition alarms_ok :: "evaluator \<Rightarrow> bool" where
  "alarms_ok e \<longleftrightarrow> active_ok (ev_active e) \<and> metrics_ok (ev_active e) \<and> ev_th e = DefaultThresholds"

lemma Evaluate_alarms_ok: "alarms_ok e \<Longrightarrow> alarms_ok (Evaluate m e)"
  by (simp add: alarms_ok_def Evaluate_ok Evaluate_metrics_ok)

lemma run_saves:
  "monitor_run srt enc mo0 ms mo \<Longrightarrow> mo_mem mo0 = NewMemoryStore \<Longrightarrow> mo_pending mo0 = {#} \<Longrightarrow> multi_run ms (mo_pending mo, mo_mem mo)"
  by (induction rule: monitor_run.induct) (auto simp: tick_def save_pending_def Let_def intro: multi_run.intros)

lemma run_alarms:
  assumes "monitor_run srt enc mo0 ms mo" "mo_alarms mo0 = NewEvaluator DefaultThresholds"
  shows "alarms_ok (mo_alarms mo) \<and> (if ms = [] then mo_alarms mo = NewEvaluator DefaultThresholds
    else \<exists>e. alarms_ok e \<and> mo_alarms mo = Evaluate (last ms) e)"
  using assms
proof (induction rule: monitor_run.induct)
  case start
  then show ?case by (simp add: alarms_ok_def active_ok_def metrics_ok_def NewEvaluator_def)
next
  case (turn ms mo e)
  then have "alarms_ok (mo_alarms mo)" by simp
  with Evaluate_alarms_ok[OF this] show ?case by (auto simp: tick_def Let_def)
next
  case (saved ms mo p)
  then show ?case by (simp add: save_pending_def)
qed


lemma path_base_not_Nil: "path_base p \<noteq> []"
proof -
  have "takeWhile (\<lambda>c. c \<noteq> CHR ''/'') (dropWhile (\<lambda>c. c = CHR ''/'') (rev p)) \<noteq> []"
    if "dropWhile (\<lambda>c. c = CHR ''/'') (rev p) \<noteq> []"
    using hd_dropWhile[OF that] that by (cases "dropWhile (\<lambda>c. c = CHR ''/'') (rev p)") auto
  then show ?thesis by (simp add: path_base_def Let_def)
qed

lemma mem_update: "x \<in> set (AList.update k v al) \<Longrightarrow> x = (k, v) \<or> x \<in> set al"
  by (induction al) (auto split: if_splits)

lemma readDiskStats_real: "readDiskStats f t = Some cur \<Longrightarrow> x \<in> set cur \<Longrightarrow> realDiskRe (fst x)"
proof -
  have step: "\<forall>x \<in> set (disk_step t l a). realDiskRe (fst x)" if "\<forall>x \<in> set a. realDiskRe (fst x)" for l a
  proof (cases "disk_line t l")
    case None
    then show ?thesis using that by (simp add: disk_step_def)
  next
    case (Some y)
    then have "realDiskRe (fst y)" by (auto simp: disk_line_def Let_def split: if_splits)
    then show ?thesis using that Some by (cases y) (auto simp: disk_step_def dest!: mem_update)
  qed
  have every: "\<forall>x \<in> set (fold (disk_step t) ls a). realDiskRe (fst x)" if "\<forall>x \<in> set a. realDiskRe (fst x)" for ls a
    using that
  proof (induction ls arbitrary: a)
    case (Cons l ls)
    from Cons.IH[OF step[OF Cons.prems]] show ?case by simp
  qed simp
  show "readDiskStats f t = Some cur \<Longrightarrow> x \<in> set cur \<Longrightarrow> realDiskRe (fst x)"
    using every[of "[]"] by (auto simp: readDiskStats_def split: option.splits)
qed

lemma statMount_mount: "statMount sfs m = Some d \<Longrightarrow> d_mount d = me_mount m"
  by (auto simp: statMount_def Let_def split: option.splits if_splits)

lemma read_temp_zone: "read_temp fs z = Some t \<Longrightarrow> zone t = path_base (tz_path z)"
  by (auto simp: read_temp_def split: option.splits prod.splits)

lemma Collect_named:
  assumes "[] \<notin> me_mount ` set (diskMounts c)" "orders_ok r"
  shows "named (fst (Collect r c))"
proof -
  have "[] \<notin> d_mount ` set (m_disks (fst (Collect r c)))"
    using assms(1) unfolding Collect_metrics(4) readDisks_def
    by (auto simp: map_filter_mem image_iff dest!: statMount_mount)
  moreover have "[] \<notin> zone ` set (m_temp (fst (Collect r c)))"
    unfolding Collect_metrics(5) readTemps_def by (auto simp: map_filter_mem path_base_not_Nil[symmetric] dest!: read_temp_zone)
  moreover have "realDiskRe (io_device x)" if "x \<in> set (m_disk_io (fst (Collect r c)))" for x
  proof -
    define cur where "cur = (case disk_of r of None \<Rightarrow> [] | Some m \<Rightarrow> m)"
    from that obtain p where "x \<in> set (diskIODeltas p (rd_disk_order r cur))"
      unfolding Collect_metrics(3) cur_def by (auto split: option.splits)
    then obtain s where "(io_device x, s) \<in> set (rd_disk_order r cur)" by (auto simp: diskIODeltas_def blk.mem_deltas)
    moreover have "set (rd_disk_order r cur) = set cur" using assms(2) by (metis orders_ok_def set_mset_mset)
    ultimately have "(io_device x, s) \<in> set cur" by simp
    then show ?thesis using readDiskStats_real[of _ _ cur] by (fastforce simp: cur_def disk_of_def split: option.splits)
  qed
  moreover have "\<not> realDiskRe []" by (simp add: realDiskRe_def has_prefix_def)
  ultimately show ?thesis unfolding named_def by (metis imageE)
qed

lemma run_sys:
  assumes "monitor_run srt enc mo0 ms mo"
  shows "\<exists>rs. mo_sys mo = run_collect rs (mo_sys mo0)"
  using assms
proof (induction rule: monitor_run.induct)
  case start
  have "mo_sys mo0 = run_collect [] (mo_sys mo0)" by (simp add: run_collect_def)
  then show ?case by blast
next
  case (turn ms mo e)
  then obtain rs where "mo_sys mo = run_collect rs (mo_sys mo0)" by blast
  then have "mo_sys (tick srt enc e mo) = run_collect (rs @ [te_reading e]) (mo_sys mo0)"
    by (simp add: tick_def Let_def run_collect_snoc)
  then show ?case by blast
next
  case (saved ms mo p)
  then show ?case by (simp add: save_pending_def)
qed

text \<open>The configurations whose mount points and thermal zones have names of their own.\<close>

definition places_ok :: "config \<Rightarrow> string list \<Rightarrow> (string \<Rightarrow> string option) \<Rightarrow> bool" where
  "places_ok cfg zones fs \<longleftrightarrow>
     distinct (map me_mount (resolveDiskMounts (DiskMounts cfg) (fs ''/proc/mounts'')))
     \<and> [] \<notin> me_mount ` set (resolveDiskMounts (DiskMounts cfg) (fs ''/proc/mounts''))
     \<and> distinct (map (path_base \<circ> tz_path) (resolveThermalZones fs zones))"

lemma run_snapshots:
  assumes "monitor_run srt enc mo0 ms mo" "mo0 = build_monitor cfg zones fs dec up" "places_ok cfg zones fs" "m \<in> set ms"
  shows "names_distinct m \<and> named m"
  using assms
proof (induction rule: monitor_run.induct)
  case (turn ms mo e)
  show ?case
  proof (cases "m \<in> set ms")
    case False
    obtain rs where rs: "mo_sys mo = run_collect rs (mo_sys mo0)" using run_sys[OF turn.hyps(1)] by blast
    have sys: "mo_sys mo0 = NewSystemCollector (DiskMounts cfg) (HostProcPath cfg) zones fs"
      by (simp add: turn.prems(1) build_monitor_def)
    let ?m = "fst (Collect (te_reading e) (mo_sys mo))"
    have "names_distinct ?m"
      using Collect_names_distinct[OF rs[unfolded sys] turn.hyps(2)] turn.prems(2) by (simp add: places_ok_def)
    moreover have "diskMounts (mo_sys mo) = resolveDiskMounts (DiskMounts cfg) (fs ''/proc/mounts'')"
      unfolding rs sys using run_collect_fixed by (simp add: NewSystemCollector_def)
    then have "named ?m" using turn.prems(2) turn.hyps(2) by (intro Collect_named) (simp_all add: places_ok_def)
    moreover have "m = snapshot srt e mo" using False turn.prems(3) by simp
    ultimately show ?thesis by (simp add: snapshot_def names_distinct_def named_def)
  qed (use turn in simp)
qed simp_all

section \<open>What the endpoints show\<close>

text \<open>the alarms of the dashboard: after any number of turns of the loop, with the goroutines of the store scheduled in any
  way, the endpoint answers exactly the alarms the default thresholds call for on the last snapshot collected,
  with their number, and each shows the value that the metric lookup of the sparklines finds in that snapshot under
  the alarm's own metric key.\<close>

theorem alarms_endpoint:
  assumes "monitor_run srt enc (build_monitor cfg zones fs dec up) ms mo" "places_ok cfg zones fs" "ms \<noteq> []"
    and "Register (build_handler host docker ssh conn mo) t query ''/api/alarms'' = Some (AlarmsReply as n)"
  shows "n = length as \<and> (\<lambda>a. (al_id a, al_severity a, al_value a)) ` set as = alarm_spec DefaultThresholds (last ms)
    \<and> distinct (map al_id as) \<and> list_all (\<lambda>a. \<exists>sel. metricValue (last ms) (al_metric a) sel = Some (al_value a)) as"
proof -
  have m: "names_distinct (last ms)" "named (last ms)" using run_snapshots[OF assms(1) refl assms(2)] assms(3) by simp_all
  obtain e where e: "alarms_ok e" "mo_alarms mo = Evaluate (last ms) e"
    using run_alarms[OF assms(1)] assms(3) by (auto simp: build_monitor_def)
  have as: "as = Latest (Evaluate (last ms) e)" "n = length as"
    using assms(4) by (auto simp: Register_def AlarmsList_def build_handler_def Let_def e(2))
  have "\<exists>sel. metricValue (last ms) (al_metric a) sel = Some (al_value a)" if "a \<in> set as" for a
  proof -
    from Evaluate_origin[of a "last ms" e] that as(1) e(1) obtain c where
      c: "c \<in> set (calls (ev_th e) (last ms))" "a = raised_as (m_time (last ms)) (ev_active e) c" by (auto simp: alarms_ok_def)
    have "metrics_ok (ev_active e)" using e(1) by (simp add: alarms_ok_def)
    from raised_as_metric[OF this calls_metric[OF c(1)]] calls_lookup[OF c(1) m] c(2) show ?thesis by simp
  qed
  with Evaluate_spec[OF m(1), of e] e(1) as show ?thesis by (simp add: alarms_ok_def list_all_iff)
qed


text \<open>the snapshots: whatever the scheduling, the endpoint for the current one answers a snapshot the loop has
  collected (or the empty one before any has been stored), the store never holds more than 300, and up to 300
  each collected snapshot is stored once or waiting; and from every such state the waiting ones can all be saved,
  with no further turn of the loop.\<close>

theorem stats_endpoint:
  assumes "monitor_run srt enc (build_monitor cfg zones fs dec up) ms mo"
    and "Register (build_handler host docker ssh conn mo) t query ''/api/stats'' = Some (StatsReply m)"
  shows "m \<in> insert zero_metrics (set ms) \<and> length (GetAll (mo_mem mo)) \<le> 300
    \<and> (\<exists>mo'. monitor_run srt enc (build_monitor cfg zones fs dec up) ms mo' \<and> mo_pending mo' = {#}
         \<and> (length ms \<le> 300 \<longrightarrow> mset (GetAll (mo_mem mo')) = mset ms))"
proof -
  let ?mo0 = "build_monitor cfg zones fs dec up"
  have 0: "mo_mem ?mo0 = NewMemoryStore" "mo_pending ?mo0 = {#}" by (simp_all add: build_monitor_def)
  have keep: "length (GetAll (mo_mem x)) \<le> 300 \<and> (length ms \<le> 300 \<longrightarrow> mset (GetAll (mo_mem x)) + mo_pending x = mset ms)"
    if "monitor_run srt enc ?mo0 ms x" for x
    using multi_run_count[OF run_saves[OF that 0] refl] by (simp add: mem_ok_def GetAll_def)
  have "m = Stats (mo_mem mo)" using assms(2) by (simp add: Register_def build_handler_def)
  then have 1: "m \<in> insert zero_metrics (set ms)"
    using multi_run_stored[OF run_saves[OF assms(1) 0]]
    by (cases "ms_data (mo_mem mo) = []") (auto simp: Stats_def GetAll_def Let_def intro: subsetD[OF _ last_in_set])
  have "\<exists>mo'. monitor_run srt enc ?mo0 ms mo' \<and> mo_pending mo' = {#}" if "monitor_run srt enc ?mo0 ms x" for x
    using that
  proof (induction "size (mo_pending x)" arbitrary: x)
    case (Suc k)
    then obtain p where p: "p \<in># mo_pending x" by (metis Zero_not_Suc multiset_nonemptyE size_empty)
    then have "k = size (mo_pending (save_pending p x))" using Suc.hyps(2) by (simp add: save_pending_def size_Diff_singleton)
    with Suc.hyps(1) monitor_run.saved[OF Suc.prems p] show ?case by blast
  qed auto
  with assms(1) obtain mo' where mo': "monitor_run srt enc ?mo0 ms mo'" "mo_pending mo' = {#}" by blast
  with keep[OF mo'(1)] keep[OF assms(1)] 1 show ?thesis by auto
qed


section \<open>A full disk\<close>

definition ex_tick :: tick_env where
  "ex_tick = \<lparr>te_now = 5, te_reading = (ex_reading (\<lambda>_. None) 5)
       \<lparr>rd_statfs := (\<lambda>_. Some \<lparr>st_bsize = 1, st_blocks = 100, st_bfree = 4, st_bavail = 4\<rparr>)\<rparr>,
     te_dir = None, te_stat = (\<lambda>_. None), te_top_now = 5, te_uptime = None,
     te_io = \<lparr>io_create = False, io_written = None, io_rename = False\<rparr>\<rparr>"

definition ex_monitor :: monitor where
  "ex_monitor = build_monitor default_config [] (\<lambda>_. None) (\<lambda>_. None) None"

definition ex_snapshot :: metrics where
  "ex_snapshot = snapshot (\<lambda>ps. ps) ex_tick ex_monitor"

definition ex_after :: monitor where
  "ex_after = tick (\<lambda>ps. ps) (\<lambda>_. None) ex_tick ex_monitor"

lemma ex_run: "monitor_run (\<lambda>ps. ps) (\<lambda>_. None) (build_monitor default_config [] (\<lambda>_. None) (\<lambda>_. None) None) [ex_snapshot] ex_after"
  using monitor_run.turn[OF monitor_run.start, of ex_tick "\<lambda>ps. ps" "\<lambda>_. None" ex_monitor]
  by (simp add: ex_snapshot_def ex_after_def orders_ok_def ex_tick_def ex_reading_def ex_monitor_def)

lemma ex_disks: "m_disks ex_snapshot = [\<lparr>d_mount = ''/'', d_device = ''/'', d_fs_type = ''unknown'', d_total = 100, d_used = 96, d_avail = 4, d_used_pct = Fin 96\<rparr>]"
proof -
  have "f_of_u64 96 = Fin 96" "f_of_u64 100 = Fin 100" using f_of_u64_exact[of 96] f_of_u64_exact[of 100] by simp_all
  moreover have "mkf 9600 = Fin 9600" "mkf 96 = Fin 96" using mkf_int[of 9600] mkf_int[of 96] by simp_all
  ultimately have "statMount (\<lambda>_. Some \<lparr>st_bsize = 1, st_blocks = 100, st_bfree = 4, st_bavail = 4\<rparr>) root_entry =
      Some \<lparr>d_mount = ''/'', d_device = ''/'', d_fs_type = ''unknown'', d_total = 100, d_used = 96, d_avail = 4, d_used_pct = Fin 96\<rparr>"
    by (simp add: statMount_def root_entry_def)
  then show ?thesis
    by (simp add: ex_snapshot_def snapshot_def Collect_metrics readDisks_def ex_tick_def ex_reading_def ex_monitor_def build_monitor_def
        NewSystemCollector_def resolveDiskMounts_def discoverMounts_def default_config_def List.map_filter_simps)
qed

lemma ex_places: "places_ok default_config [] (\<lambda>_. None)"
  by (simp add: places_ok_def default_config_def resolveDiskMounts_def discoverMounts_def root_entry_def resolveThermalZones_def
      pick_zone_def first_label_def List.map_filter_simps)

theorem alarms_endpoint_witness:
  "(''disk./.used'', ''crit'', Fin 96) \<in> (\<lambda>a. (al_id a, al_severity a, al_value a)) ` set (Latest (mo_alarms ex_after))"
proof -
  let ?as = "Latest (mo_alarms ex_after)"
  have "Register (build_handler host docker ssh conn ex_after) 9 (\<lambda>_. []) ''/api/alarms'' = Some (AlarmsReply ?as (length ?as))"
    for host docker ssh conn by (simp add: Register_def AlarmsList_def build_handler_def Let_def)
  from alarms_endpoint[OF ex_run ex_places _ this] have
    "(\<lambda>a. (al_id a, al_severity a, al_value a)) ` set ?as = alarm_spec DefaultThresholds ex_snapshot" by auto
  moreover have "(''disk./.used'', ''crit'', Fin 96) \<in> alarm_spec DefaultThresholds ex_snapshot"
    by (simp add: alarm_spec_def ex_disks level_def DefaultThresholds_def)
  ultimately show ?thesis by simp
qed

theorem stats_endpoint_witness:
  "\<exists>mo'. monitor_run (\<lambda>ps. ps) (\<lambda>_. None) (build_monitor default_config [] (\<lambda>_. None) (\<lambda>_. None) None) [ex_snapshot] mo'
     \<and> mo_pending mo' = {#} \<and> mset (GetAll (mo_mem mo')) = {#ex_snapshot#}"
proof -
  have "Register (build_handler host docker ssh conn ex_after) 9 (\<lambda>_. []) ''/api/stats'' = Some (StatsReply (Stats (mo_mem ex_after)))"
    for host docker ssh conn by (simp add: Register_def build_handler_def)
  from stats_endpoint[OF ex_run this] show ?thesis by auto
qed


text \<open>The goroutines of two snapshots may run in either order: the current snapshot can be the older one.\<close>

lemma stats_not_latest:
  assumes "monitor_run srt enc mo0 [m1, m2] mo" "mo_pending mo = {#m1, m2#}" "mo_mem mo = NewMemoryStore"
  shows "\<exists>mo'. monitor_run srt enc mo0 [m1, m2] mo' \<and> mo_pending mo' = {#} \<and> Stats (mo_mem mo') = m1"
proof -
  let ?a = "save_pending m2 mo"
  have a: "monitor_run srt enc mo0 [m1, m2] ?a" using assms(1) by (rule monitor_run.saved) (simp add: assms(2))
  have "monitor_run srt enc mo0 [m1, m2] (save_pending m1 ?a)"
    using a by (rule monitor_run.saved) (simp add: save_pending_def assms(2))
  moreover have "mo_pending (save_pending m1 ?a) = {#}" by (simp add: save_pending_def assms(2))
  moreover have "Stats (mo_mem (save_pending m1 ?a)) = m1"
    by (simp add: save_pending_def assms(3) Stats_def GetAll_def) (simp add: Save_def NewMemoryStore_def)
  ultimately show ?thesis by blast
qed

end
