(* ===== verification/Influx.thy ===== *)
theory Influx
  imports History
begin

text \<open>
  The optional second store (internal/storage/influx.go): the point a snapshot becomes. The client library that
  writes it is not under src/: \<open>write\<close> stands for \<open>WritePoint\<close> and its error.
\<close>

record influx_point =
  ip_measurement :: string
  ip_fields :: "(string \<times> f64) list"
  ip_time :: time

definition root_used_pct :: "disk list \<Rightarrow> f64" where
  "root_used_pct disks = (case find (\<lambda>d. d_mount d = ''/'') disks of None \<Rightarrow> 0 | Some d \<Rightarrow> d_used_pct d)"

definition InfluxSave :: "(influx_point \<Rightarrow> 'err) \<Rightarrow> metrics \<Rightarrow> 'err" where
  "InfluxSave write p =
     write \<lparr>ip_measurement = ''system'',
       ip_fields = [(''cpu_usage_pct'', usage_pct (m_cpu p)), (''ram_used_pct'', ram_used_pct (m_ram p)),
                    (''load1'', load1 (m_load p)), (''disk_used_pct'', root_used_pct (m_disks p))],
       ip_time = m_time p\<rparr>"

text \<open>the two stores agree: the fields written to the database for a snapshot are the values the metric lookup of
  the dashboard finds in it under the corresponding keys, the root's usage being 0 where the lookup finds none.\<close>

theorem influx_agrees:
  "ip_time (InfluxSave (\<lambda>q. q) m) = m_time m
   \<and> map_of (ip_fields (InfluxSave (\<lambda>q. q) m)) ''cpu_usage_pct'' = metricValue m ''cpu.usage_pct'' []
   \<and> map_of (ip_fields (InfluxSave (\<lambda>q. q) m)) ''ram_used_pct'' = metricValue m ''ram.used_pct'' []
   \<and> map_of (ip_fields (InfluxSave (\<lambda>q. q) m)) ''load1'' = metricValue m ''load.load1'' []
   \<and> map_of (ip_fields (InfluxSave (\<lambda>q. q) m)) ''disk_used_pct'' =
       Some (case metricValue m ''disk.used_pct'' [] of None \<Rightarrow> 0 | Some v \<Rightarrow> v)"
  by (simp add: InfluxSave_def root_used_pct_def metricValue_def diskValue_def split: option.split)

end
