(* ===== verification/Program.thy ===== *)
theory Program
  imports Monitor Influx
begin

text \<open>
  The program (cmd/server/main.go, \<open>Build\<close> in internal/app/app.go): what is started on which configuration, the
  goroutines that run from then on (the loop, the goroutines of the store, the three pollers, the hourly
  purge) interleaved with the requests, and what holds of it as a whole.
\<close>

section \<open>Starting\<close>

text \<open>What \<open>Build\<close> finds when it runs: the file system, the Docker socket, the database, the decoders.\<close>

record boot =
  bo_zones :: "string list"
  bo_fs :: "string \<Rightarrow> string option"
  bo_dirs :: "string \<Rightarrow> string list option"
  bo_exists :: "string \<Rightarrow> bool"
  bo_statfs :: "string \<Rightarrow> statfs option"
  bo_host :: host_env
  bo_parts :: "partition_info list \<Rightarrow> partition_info list"
  bo_docker :: "string \<Rightarrow> docker_response"
  bo_users :: "string \<Rightarrow> store option"
  bo_env :: env
  bo_up :: "string \<Rightarrow> up_session option"
  bo_ssh :: "string \<Rightarrow> ssh_event option"
  bo_conn :: "string \<Rightarrow> conn_event option"

text \<open>The file of a log under the data directory.\<close>

definition log_path :: "string \<Rightarrow> string \<Rightarrow> string" where
  "log_path dir name = path_join [if dir = [] then ''./data'' else dir, name]"

definition start_docker :: "boot \<Rightarrow> config \<Rightarrow> docker_collector option" where
  "start_docker b cfg = (if DockerEnabled cfg then NewDockerCollector (bo_docker b) else None)"

definition start_ssh :: "boot \<Rightarrow> config \<Rightarrow> ssh_watcher option" where
  "start_ssh b cfg =
     (if SSHWatchEnabled cfg
      then Some (NewSSHWatcher (bo_ssh b) (SSHLogPath cfg) (bo_fs b (log_path (DataDir cfg) ''ssh_events.jsonl''))) else None)"

definition start_conn :: "boot \<Rightarrow> config \<Rightarrow> conn_watcher option" where
  "start_conn b cfg =
     (if ConnWatchEnabled cfg \<and> (ConnWatchAuto cfg \<or> length (ConnWatchPorts cfg) > 0)
      then Some (NewConnWatcher (bo_conn b) (ConnWatchPorts cfg) (ConnWatchAuto cfg) (HostProcPath cfg)
             (bo_fs b (log_path (DataDir cfg) ''connection_events.jsonl''))) else None)"

definition start_monitor :: "boot \<Rightarrow> config \<Rightarrow> monitor" where
  "start_monitor b cfg =
     build_monitor cfg (bo_zones b) (bo_fs b) (bo_up b) (bo_fs b (log_path (DataDir cfg) ''uptime_sessions.jsonl''))"

definition start_host :: "boot \<Rightarrow> config \<Rightarrow> host_info option" where
  "start_host b cfg =
     CollectHostInfo (bo_host b) (bo_parts b) (bo_fs b) (bo_dirs b) (bo_exists b) (bo_statfs b) (HostProcPath cfg) (HostRootPath cfg)"

record program =
  pr_host :: host_info
  pr_mon :: monitor
  pr_docker :: "docker_collector option"
  pr_ssh :: "ssh_watcher option"
  pr_conn :: "conn_watcher option"
  pr_access :: access

text \<open>\<open>None\<close>: the collection of the host information does not return. \<open>Inl\<close>: the message the process ends with.\<close>

definition Build :: "bcrypt \<Rightarrow> boot \<Rightarrow> config \<Rightarrow> (string + program) option" where
  "Build bc b cfg =
     (case start_host b cfg of
        None \<Rightarrow> None
      | Some host \<Rightarrow> Some
          (case build_access bc (bo_env b) (bo_users b (path_join [DataDir cfg, ''users.db''])) cfg of
             Inl msg \<Rightarrow> Inl msg
           | Inr a \<Rightarrow> Inr \<lparr>pr_host = host, pr_mon = start_monitor b cfg, pr_docker = start_docker b cfg,
                 pr_ssh = start_ssh b cfg, pr_conn = start_conn b cfg, pr_access = a\<rparr>))"


section \<open>Running\<close>

text \<open>What stays the same while the program runs: the codecs, the sorting functions, the static files.\<close>

record world =
  wo_bcrypt :: bcrypt
  wo_json :: "reply \<Rightarrow> string option"
  wo_files :: "request \<Rightarrow> response"
  wo_codec :: codec
  wo_ports :: "port list \<Rightarrow> port list"
  wo_procs :: "process_info list \<Rightarrow> process_info list"
  wo_up :: "up_session \<Rightarrow> string option"
  wo_ssh :: "ssh_event \<Rightarrow> string option"
  wo_conn :: "conn_event \<Rightarrow> string option"

text \<open>The pollers: \<open>Run\<close> after some ticks. Docker is polled once before the first tick.\<close>

definition docker_Run :: "world \<Rightarrow> refresh_env \<Rightarrow> refresh_env list \<Rightarrow> docker_collector \<Rightarrow> docker_collector" where
  "docker_Run w e polls d =
     foldl (\<lambda>d e. docker_refresh (wo_codec w) (wo_ports w) e d) (docker_refresh (wo_codec w) (wo_ports w) e d) polls"

type_synonym ssh_tick = "(nat \<Rightarrow> time \<times> io) \<times> nat option \<times> (nat \<Rightarrow> fsys)"

definition ssh_Run :: "world \<Rightarrow> ssh_tick list \<Rightarrow> ssh_watcher \<Rightarrow> ssh_watcher" where
  "ssh_Run w polls s = foldl (\<lambda>s (env, short, fs). ssh_poll (wo_ssh w) env short fs s) s polls"

type_synonym conn_tick = "(nat \<Rightarrow> time \<times> io) \<times> (string \<Rightarrow> string option)"

definition conn_Run :: "world \<Rightarrow> conn_tick list \<Rightarrow> conn_watcher \<Rightarrow> conn_watcher" where
  "conn_Run w polls c = foldl (\<lambda>c (env, fs). poll_files (wo_conn w) env fs c) c polls"

text \<open>An encoder that refuses a value writes nothing; the status is 200 already.\<close>

definition writeJSON :: "(reply \<Rightarrow> string option) \<Rightarrow> reply \<Rightarrow> response" where
  "writeJSON enc v = resp 200 (case enc v of Some s \<Rightarrow> BPage s | None \<Rightarrow> BEmpty)"

text \<open>The handler shares the state of the goroutines; behind its paths lies the file server.\<close>

definition program_handler :: "program \<Rightarrow> api_handler" where
  "program_handler p = build_handler (pr_host p) (pr_docker p) (pr_ssh p) (pr_conn p) (pr_mon p)"

definition dashboard :: "world \<Rightarrow> time \<Rightarrow> (string \<Rightarrow> string) \<Rightarrow> program \<Rightarrow> request \<Rightarrow> response" where
  "dashboard w t query p r =
     (case Register (program_handler p) t query (r_path r) of
        Some v \<Rightarrow> writeJSON (wo_json w) v
      | None \<Rightarrow> wo_files w r)"

definition program_answer :: "world \<Rightarrow> renv \<Rightarrow> time \<Rightarrow> (string \<Rightarrow> string) \<Rightarrow> request \<Rightarrow> program \<Rightarrow> response \<times> access" where
  "program_answer w re t query r p = answer (wo_bcrypt w) re (dashboard w t query p) r (pr_access p)"

text \<open>One step of one goroutine. A request carries the query and the time its handler reads.\<close>

datatype step =
  Turn tick_env
| Saved metrics
| DockerTick refresh_env
| SSHTick ssh_tick
| ConnTick conn_tick
| PurgeTick env
| Request renv time "string \<Rightarrow> string" request

definition access_purge :: "env \<Rightarrow> access \<Rightarrow> access" where
  "access_purge e a = (case a of ServeSessions srv \<Rightarrow> ServeSessions (purge_tick e srv) | _ \<Rightarrow> a)"

fun program_step :: "world \<Rightarrow> step \<Rightarrow> program \<Rightarrow> program" where
  "program_step w (Turn e) p = p\<lparr>pr_mon := tick (wo_procs w) (wo_up w) e (pr_mon p)\<rparr>"
| "program_step w (Saved m) p = (if m \<in># mo_pending (pr_mon p) then p\<lparr>pr_mon := save_pending m (pr_mon p)\<rparr> else p)"
| "program_step w (DockerTick e) p =
     p\<lparr>pr_docker := map_option (docker_refresh (wo_codec w) (wo_ports w) e) (pr_docker p)\<rparr>"
| "program_step w (SSHTick (env, short, fs)) p = p\<lparr>pr_ssh := map_option (ssh_poll (wo_ssh w) env short fs) (pr_ssh p)\<rparr>"
| "program_step w (ConnTick (env, fs)) p = p\<lparr>pr_conn := map_option (poll_files (wo_conn w) env fs) (pr_conn p)\<rparr>"
| "program_step w (PurgeTick e) p = p\<lparr>pr_access := access_purge e (pr_access p)\<rparr>"
| "program_step w (Request re t query r) p = p\<lparr>pr_access := snd (program_answer w re t query r p)\<rparr>"

definition program_run :: "world \<Rightarrow> step list \<Rightarrow> program \<Rightarrow> program" where
  "program_run w ss p = foldl (\<lambda>p s. program_step w s p) p ss"

section \<open>Each goroutine by itself\<close>

definition docker_ticks :: "step list \<Rightarrow> refresh_env list" where
  "docker_ticks ss = List.map_filter (\<lambda>s. case s of DockerTick e \<Rightarrow> Some e | _ \<Rightarrow> None) ss"

definition ssh_ticks :: "step list \<Rightarrow> ssh_tick list" where
  "ssh_ticks ss = List.map_filter (\<lambda>s. case s of SSHTick x \<Rightarrow> Some x | _ \<Rightarrow> None) ss"

definition conn_ticks :: "step list \<Rightarrow> conn_tick list" where
  "conn_ticks ss = List.map_filter (\<lambda>s. case s of ConnTick x \<Rightarrow> Some x | _ \<Rightarrow> None) ss"

definition of_monitor :: "step \<Rightarrow> bool" where
  "of_monitor s = (case s of Turn _ \<Rightarrow> True | Saved _ \<Rightarrow> True | _ \<Rightarrow> False)"

definition of_access :: "step \<Rightarrow> bool" where
  "of_access s = (case s of PurgeTick _ \<Rightarrow> True | Request _ _ _ _ \<Rightarrow> True | _ \<Rightarrow> False)"

text \<open>What the two goroutines with several kinds of steps do to their own state.\<close>

definition monitor_tick :: "world \<Rightarrow> step \<Rightarrow> monitor \<Rightarrow> monitor" where
  "monitor_tick w s mo =
     (case s of
        Turn e \<Rightarrow> tick (wo_procs w) (wo_up w) e mo
      | Saved m \<Rightarrow> if m \<in># mo_pending mo then save_pending m mo else mo
      | _ \<Rightarrow> mo)"

definition access_tick :: "world \<Rightarrow> step \<Rightarrow> access \<Rightarrow> access" where
  "access_tick w s a =
     (case s of
        PurgeTick e \<Rightarrow> access_purge e a
      | Request re t query r \<Rightarrow> snd (answer (wo_bcrypt w) re (wo_files w) r a)
      | _ \<Rightarrow> a)"

lemma program_run_simps [simp]:
  "program_run w [] p = p" "program_run w (s # ss) p = program_run w ss (program_step w s p)"
  "program_run w (ss @ ss') p = program_run w ss' (program_run w ss p)"
  by (simp_all add: program_run_def)

lemma mux_state: "snd (mux bc re pages c r srv) = snd (mux bc re pages' c r srv)"
  by (simp add: mux_def split: route.split)

lemma Middleware_state:
  "(\<And>c. snd (nxt c r srv) = snd (nxt' c r srv)) \<Longrightarrow> snd (Middleware e nxt r srv) = snd (Middleware e nxt' r srv)"
  by (simp add: Middleware_def Let_def split: option.split)

text \<open>What is behind the access control has no influence on its state.\<close>

lemma answer_state: "snd (answer bc re pages r a) = snd (answer bc re pages' r a)"
proof (cases a)
  case (ServeSessions srv)
  have "snd (serve bc re pages r srv) = snd (serve bc re pages' r srv)"
    unfolding serve_def by (rule Middleware_state, rule mux_state)
  with ServeSessions show ?thesis by (simp add: answer_def split_def Let_def)
qed (simp_all add: answer_def)

lemma step_threads:
  "pr_host (program_step w s p) = pr_host p"
  "pr_mon (program_step w s p) = monitor_tick w s (pr_mon p)"
  "pr_access (program_step w s p) = access_tick w s (pr_access p)"
proof -
  show "pr_host (program_step w s p) = pr_host p" "pr_mon (program_step w s p) = monitor_tick w s (pr_mon p)"
    by (cases "(w, s, p)" rule: program_step.cases; simp add: monitor_tick_def)+
  show "pr_access (program_step w s p) = access_tick w s (pr_access p)"
  proof (cases s)
    case (Request re t query r)
    then show ?thesis by (simp add: access_tick_def program_answer_def) (rule answer_state)
  qed (auto simp: access_tick_def)
qed

lemma ticks_simps [simp]:
  "docker_ticks [] = []" "docker_ticks (s # ss) = (case s of DockerTick e \<Rightarrow> e # docker_ticks ss | _ \<Rightarrow> docker_ticks ss)"
  "ssh_ticks [] = []" "ssh_ticks (s # ss) = (case s of SSHTick x \<Rightarrow> x # ssh_ticks ss | _ \<Rightarrow> ssh_ticks ss)"
  "conn_ticks [] = []" "conn_ticks (s # ss) = (case s of ConnTick x \<Rightarrow> x # conn_ticks ss | _ \<Rightarrow> conn_ticks ss)"
  by (simp_all add: docker_ticks_def ssh_ticks_def conn_ticks_def List.map_filter_simps split: step.split)

lemma run_mon: "pr_mon (program_run w ss p) = foldl (\<lambda>mo s. monitor_tick w s mo) (pr_mon p) (filter of_monitor ss)"
  by (induction ss arbitrary: p) (auto simp: step_threads monitor_tick_def of_monitor_def split: step.split)

lemma run_access: "pr_access (program_run w ss p) = foldl (\<lambda>a s. access_tick w s a) (pr_access p) (filter of_access ss)"
  by (induction ss arbitrary: p) (auto simp: step_threads access_tick_def of_access_def split: step.split)

lemma run_docker:
  "pr_docker (program_run w ss p) =
     map_option (\<lambda>d. foldl (\<lambda>d e. docker_refresh (wo_codec w) (wo_ports w) e d) d (docker_ticks ss)) (pr_docker p)"
proof (induction ss arbitrary: p)
  case (Cons s ss)
  show ?case by (cases "(w, s, p)" rule: program_step.cases) (simp_all add: Cons.IH option.map_comp comp_def)
qed (simp add: option.map_ident)

lemma run_ssh: "pr_ssh (program_run w ss p) = map_option (ssh_Run w (ssh_ticks ss)) (pr_ssh p)"
proof (induction ss arbitrary: p)
  case Nil
  show ?case by (cases "pr_ssh p") (simp_all add: ssh_Run_def)
next
  case (Cons s ss)
  show ?case by (cases "(w, s, p)" rule: program_step.cases) (simp_all add: Cons.IH option.map_comp comp_def ssh_Run_def)
qed

lemma run_conn: "pr_conn (program_run w ss p) = map_option (conn_Run w (conn_ticks ss)) (pr_conn p)"
proof (induction ss arbitrary: p)
  case Nil
  show ?case by (cases "pr_conn p") (simp_all add: conn_Run_def)
next
  case (Cons s ss)
  show ?case by (cases "(w, s, p)" rule: program_step.cases) (simp_all add: Cons.IH option.map_comp comp_def conn_Run_def)
qed

lemma run_host: "pr_host (program_run w ss p) = pr_host p"
  by (induction ss arbitrary: p) (simp_all add: step_threads)

section \<open>Who sees what\<close>

text \<open>The requests the access control lets through to the data.\<close>

definition admitted :: "env \<Rightarrow> request \<Rightarrow> access \<Rightarrow> bool" where
  "admitted e r a =
     (case a of
        ServeOpen \<Rightarrow> True
      | ServeBasic u pw \<Rightarrow> r_basic r = Some (u, pw)
      | ServeSessions srv \<Rightarrow> sameOrigin r \<and>
          (case r_cookie r of None \<Rightarrow> False | Some v \<Rightarrow> SessionUser e (srv_store srv) (HashToken v) \<noteq> None))"

text \<open>What the others get.\<close>

definition refusal :: "request \<Rightarrow> access \<Rightarrow> response" where
  "refusal r a =
     (case a of
        ServeSessions srv \<Rightarrow> if sameOrigin r then writeError 401 msg_session else writeError 403 msg_origin
      | _ \<Rightarrow> (resp 401 (BError ''Unauthorized''))\<lparr>challenge := True\<rparr>)"

lemma data_path_facts:
  assumes "p \<in> set data_paths"
  shows "route_of m p = RData p" "\<not> publicPaths p" "p \<noteq> ''/api/auth/me''" "has_prefix p ''/api/''"
proof -
  have "list_all (\<lambda>q. id_segment q = None \<and> \<not> publicPaths q \<and> has_prefix q ''/api/'' \<and>
      q \<notin> {''/api/auth/login'', ''/api/auth/logout'', ''/api/auth/me'', ''/api/auth/password'', ''/api/users''}) data_paths"
    by code_simp
  with assms have p: "id_segment p = None" "\<not> publicPaths p" "has_prefix p ''/api/''"
    "p \<notin> {''/api/auth/login'', ''/api/auth/logout'', ''/api/auth/me'', ''/api/auth/password'', ''/api/users''}"
    by (auto simp: list_all_iff)
  then show "\<not> publicPaths p" "p \<noteq> ''/api/auth/me''" "has_prefix p ''/api/''" by simp_all
  show "route_of m p = RData p" using p assms by (simp add: route_of_def)
qed

lemma data_answer:
  assumes "r_path r \<in> set data_paths"
  shows "fst (answer bc re pages r a) = (if admitted (re 0) r a then pages r else refusal r a)"
proof (cases a)
  case (ServeSessions srv)
  note d = data_path_facts[OF assms]
  have "mux bc re pages c r srv = (pages r, srv)" for c by (simp add: mux_def d(1))
  then have "fst (serve bc re pages r srv) = (if admitted (re 0) r a then pages r else refusal r a)"
    using d by (auto simp: serve_def Middleware_def admitted_def refusal_def ServeSessions deny_def Let_def split: option.split)
  then show ?thesis by (simp add: ServeSessions answer_def split_def Let_def)
next
  case (ServeBasic u pw)
  with data_path_facts(3)[OF assms] show ?thesis
    by (auto simp: answer_def BasicAuth_def plain_mux_def admitted_def refusal_def resp_def split: option.split)
qed (use data_path_facts(3)[OF assms] in \<open>simp add: answer_def plain_mux_def admitted_def\<close>)

text \<open>C8: in every access mode, each data path answers a request 200 with the JSON of its handler's value for the state at
  that moment when the access control admits the request, and 401 or 403 with an error message when it does not.\<close>

theorem data_served:
  assumes "r_path r \<in> set data_paths"
  shows "(\<exists>v. Register (program_handler p) t query (r_path r) = Some v \<and>
      fst (program_answer w re t query r p) =
        (if admitted (re 0) r (pr_access p) then writeJSON (wo_json w) v else refusal r (pr_access p)))
    \<and> status (refusal r (pr_access p)) \<in> {401, 403}"
proof -
  obtain v where v: "Register (program_handler p) t query (r_path r) = Some v"
    using data_paths_answered[of "program_handler p" t query "r_path r"] assms by auto
  then have "dashboard w t query p r = writeJSON (wo_json w) v" by (simp add: dashboard_def)
  with v data_answer[OF assms, of "wo_bcrypt w" re "dashboard w t query p" "pr_access p"] show ?thesis
    by (simp add: program_answer_def refusal_def split: access.split)
qed

section \<open>What leaks\<close>

text \<open>The responses to the requests that are not admitted, in their order.\<close>

fun public_view :: "world \<Rightarrow> step list \<Rightarrow> program \<Rightarrow> response list" where
  "public_view w [] p = []"
| "public_view w (s # ss) p =
     (case s of
        Request re t query r \<Rightarrow>
          if admitted (re 0) r (pr_access p) then [] else [fst (program_answer w re t query r p)]
      | _ \<Rightarrow> []) @ public_view w ss (program_step w s p)"

text \<open>The same computed from the access control alone.\<close>

fun access_view :: "world \<Rightarrow> step list \<Rightarrow> access \<Rightarrow> response list" where
  "access_view w [] a = []"
| "access_view w (s # ss) a =
     (case s of
        Request re t query r \<Rightarrow> if admitted (re 0) r a then [] else [fst (answer (wo_bcrypt w) re (wo_files w) r a)]
      | _ \<Rightarrow> []) @ access_view w ss (access_tick w s a)"

lemma refused_pages:
  assumes "\<not> admitted (re 0) r a" "r_path r \<notin> set data_paths \<Longrightarrow> pages r = pages' r"
  shows "fst (answer bc re pages r a) = fst (answer bc re pages' r a)"
proof (cases a)
  case ServeOpen
  with assms(1) show ?thesis by (simp add: admitted_def)
next
  case (ServeBasic u pw)
  with assms(1) show ?thesis by (auto simp: answer_def BasicAuth_def admitted_def split: option.split)
next
  case (ServeSessions srv)
  have "fst (serve bc re pages r srv) = fst (serve bc re pages' r srv)"
  proof (cases "sameOrigin r \<and> publicPaths (r_path r)")
    case True
    then have "r_path r \<notin> set data_paths" using data_path_facts(2) by blast
    then have "pages r = pages' r" by (rule assms(2))
    then have "mux bc re pages c r srv = mux bc re pages' c r srv" for c by (simp add: mux_def split: route.split)
    then show ?thesis by (simp add: serve_def Middleware_def Let_def split: option.split)
  next
    case False
    then show ?thesis
      using assms(1) by (auto simp: serve_def Middleware_def Let_def admitted_def ServeSessions split: option.splits)
  qed
  then show ?thesis by (simp add: ServeSessions answer_def split_def Let_def)
qed

lemma dashboard_files: "r_path r \<notin> set data_paths \<Longrightarrow> dashboard w t query p r = wo_files w r"
  using data_paths_answered[of "program_handler p" t query "r_path r"] by (auto simp: dashboard_def)

lemma public_view_access: "public_view w ss p = access_view w (filter of_access ss) (pr_access p)"
proof (induction ss arbitrary: p)
  case (Cons s ss)
  show ?case
  proof (cases s)
    case (Request re t query r)
    have "fst (program_answer w re t query r p) = fst (answer (wo_bcrypt w) re (wo_files w) r (pr_access p))"
      if "\<not> admitted (re 0) r (pr_access p)"
      unfolding program_answer_def using that by (rule refused_pages) (rule dashboard_files)
    moreover have "pr_access (program_step w s p) = access_tick w s (pr_access p)" by (rule step_threads(3))
    ultimately show ?thesis unfolding Request by (simp add: Cons.IH of_access_def Request del: program_step.simps)
  next
    case (PurgeTick e)
    then show ?thesis by (simp add: Cons.IH of_access_def access_tick_def)
  qed (use step_threads(3)[of w s p] in \<open>simp_all add: Cons.IH of_access_def access_tick_def del: program_step.simps\<close>)
qed simp

text \<open>C3: nothing the program observes of its host leaks past the access control: take two runs that agree on the
  accounts at the start and on the requests and purges, and differ in everything else: the host, the
  configuration of the collectors, every snapshot, container, log line and connection. Every request that is not
  admitted gets the same response in both, whatever it asks for, and the accounts and sessions end up the same.\<close>

theorem nothing_leaks:
  assumes "pr_access p = pr_access p'" "filter of_access ss = filter of_access ss'"
  shows "public_view w ss p = public_view w ss' p' \<and> pr_access (program_run w ss p) = pr_access (program_run w ss' p')"
  using assms by (simp add: public_view_access run_access)

section \<open>What every run keeps\<close>

text \<open>The order in which a Go map is iterated is the runtime's, but it visits what the map holds.\<close>

definition step_ok :: "step \<Rightarrow> bool" where
  "step_ok s = (case s of Turn e \<Rightarrow> orders_ok (te_reading e) | _ \<Rightarrow> True)"

text \<open>The snapshots the loop has collected in a run.\<close>

fun snapshots :: "world \<Rightarrow> step list \<Rightarrow> program \<Rightarrow> metrics list" where
  "snapshots w [] p = []"
| "snapshots w (s # ss) p =
     (case s of Turn e \<Rightarrow> [snapshot (wo_procs w) e (pr_mon p)] | _ \<Rightarrow> []) @ snapshots w ss (program_step w s p)"

lemma snapshots_append: "snapshots w (ss @ ss') p = snapshots w ss p @ snapshots w ss' (program_run w ss p)"
  by (induction ss arbitrary: p) simp_all

lemma program_monitor:
  "list_all step_ok ss \<Longrightarrow> monitor_run (wo_procs w) (wo_up w) (pr_mon p) (snapshots w ss p) (pr_mon (program_run w ss p))"
proof (induction ss rule: rev_induct)
  case Nil
  show ?case by (simp add: monitor_run.start)
next
  case (snoc s ss)
  let ?q = "program_run w ss p"
  have r: "monitor_run (wo_procs w) (wo_up w) (pr_mon p) (snapshots w ss p) (pr_mon ?q)" using snoc by simp
  show ?case
  proof (cases s)
    case (Turn e)
    with snoc.prems have "orders_ok (te_reading e)" by (simp add: step_ok_def)
    from monitor_run.turn[OF r this] Turn show ?thesis by (simp add: snapshots_append)
  next
    case (Saved m)
    with r monitor_run.saved[OF r, of m] show ?thesis by (simp add: snapshots_append)
  qed (use r step_threads(2)[of w s ?q] in \<open>simp_all add: snapshots_append monitor_tick_def del: program_step.simps\<close>)
qed

definition access_ok :: "access \<Rightarrow> bool" where
  "access_ok a = (case a of ServeSessions srv \<Rightarrow> server_ok srv | _ \<Rightarrow> True)"

lemma purge_tick_ok: "server_ok srv \<Longrightarrow> server_ok (purge_tick e srv)"
  using store_exec_ok[of "srv_store srv" undefined e OpPurge] store_exec_admin[of "srv_store srv" undefined e OpPurge]
  by (simp add: server_ok_def purge_tick_def)

lemma access_tick_ok: "access_ok a \<Longrightarrow> access_ok (access_tick w s a)"
  by (cases s; cases a) (simp_all add: access_tick_def access_ok_def access_purge_def purge_tick_ok answer_def serve_ok split_def Let_def)

text \<open>The invariant of the program, one conjunct per part that has one.\<close>

definition program_ok :: "program \<Rightarrow> bool" where
  "program_ok p \<longleftrightarrow> access_ok (pr_access p) \<and> mem_ok 299 (mo_mem (pr_mon p)) \<and> alarms_ok (mo_alarms (pr_mon p))
     \<and> distinct (map al_id (Latest (mo_alarms (pr_mon p)))) \<and> pred_option (\<lambda>d. list_all container_finite (docker_snapshot d)) (pr_docker p)"

lemma Latest_distinct:
  assumes "alarms_ok e"
  shows "distinct (map al_id (Latest (Evaluate m e)))"
proof -
  have "active_ok (ev_active (Evaluate m e))" using assms by (intro Evaluate_ok) (simp add: alarms_ok_def)
  then have d: "distinct (map fst (ev_active (Evaluate m e)))" "\<forall>(i, a) \<in> set (ev_active (Evaluate m e)). al_id a = i"
    by (simp_all add: active_ok_def)
  have e: "map al_id (map snd (ev_active (Evaluate m e))) = map fst (ev_active (Evaluate m e))"
    using d(2) by (auto intro!: map_cong)
  from d(1) show ?thesis unfolding Latest_def Evaluate_last e .
qed

lemma monitor_tick_ok:
  assumes "mem_ok 299 (mo_mem mo)" "alarms_ok (mo_alarms mo)" "distinct (map al_id (Latest (mo_alarms mo)))"
  shows "mem_ok 299 (mo_mem (monitor_tick w s mo)) \<and> alarms_ok (mo_alarms (monitor_tick w s mo))
    \<and> distinct (map al_id (Latest (mo_alarms (monitor_tick w s mo))))"
  using assms mem.put_ok[OF assms(1)]
  by (cases s) (simp_all add: monitor_tick_def tick_def save_pending_def Let_def Evaluate_alarms_ok Latest_distinct)

lemma docker_tick_ok:
  assumes "list_all container_finite (docker_snapshot d)"
  shows "list_all container_finite (docker_snapshot (docker_refresh cd srt e d))"
  using docker.exec_inv[OF assms, of "(cd, srt)" e] by simp

interpretation prog: invariant_ops program_step program_ok
proof
  fix p w s assume p: "program_ok p"
  have "pred_option (\<lambda>d. list_all container_finite (docker_snapshot d)) (pr_docker (program_step w s p))"
    using p by (cases "(w, s, p)" rule: program_step.cases; cases "pr_docker p") (simp_all add: program_ok_def docker_tick_ok)
  with p show "program_ok (program_step w s p)"
    by (simp add: program_ok_def step_threads access_tick_ok monitor_tick_ok)
qed

lemma program_run_ok: "program_ok p \<Longrightarrow> program_ok (program_run w ss p)"
  using prog.run_inv[of p "map (Pair w) ss"] by (simp add: program_run_def foldl_map)

text \<open>The databases a session mode may be started on.\<close>

definition database_ok :: "store option \<Rightarrow> bool" where
  "database_ok s \<longleftrightarrow> (\<forall>st. s = Some st \<longrightarrow> store_ok st \<and> (users st = [] \<or> has_admin st))"

lemma Build_started:
  assumes "Build bc b cfg = Some (Inr p)"
  shows "build_access bc (bo_env b) (bo_users b (path_join [DataDir cfg, ''users.db''])) cfg = Inr (pr_access p)"
    "pr_mon p = start_monitor b cfg" "pr_docker p = start_docker b cfg" "pr_ssh p = start_ssh b cfg" "pr_conn p = start_conn b cfg"
  using assms by (auto simp: Build_def split: option.splits sum.splits)

lemma build_access_ok:
  assumes "build_access bc e s cfg = Inr a" "database_ok s"
  shows "access_ok a"
proof (cases s)
  case None
  with assms(1) show ?thesis
    by (auto simp: build_access_def access_ok_def openUserStore_def split: if_splits)
next
  case (Some st)
  have "server_ok (NewSession st')" if "openUserStore bc e (Some st) cfg = Inr st'" for st'
    using openUserStore_ok[OF that] assms(2) Some by (simp add: database_ok_def server_ok_def NewSession_def)
  with assms(1) Some show ?thesis by (auto simp: build_access_def access_ok_def split: if_splits sum.splits)
qed

lemma Build_ok:
  assumes "Build bc b cfg = Some (Inr p)" "database_ok (bo_users b (path_join [DataDir cfg, ''users.db'']))"
  shows "program_ok p"
proof -
  note b = Build_started[OF assms(1)]
  have "mem_ok 299 (mo_mem (pr_mon p))" "alarms_ok (mo_alarms (pr_mon p))" "distinct (map al_id (Latest (mo_alarms (pr_mon p))))"
    by (simp_all add: b start_monitor_def build_monitor_def NewMemoryStore_def mem_ok_def alarms_ok_def active_ok_def metrics_ok_def NewEvaluator_def Latest_def)
  moreover have "pred_option (\<lambda>d. list_all container_finite (docker_snapshot d)) (pr_docker p)"
    by (auto simp: b start_docker_def NewDockerCollector_def docker_snapshot_def split: option.splits)
  ultimately show ?thesis using build_access_ok[OF b(1) assms(2)] by (simp add: program_ok_def)
qed

text \<open>C2: the program as a whole: started in any mode on any configuration, with a database that is fresh or has an
  active admin, after any interleaving of collections, saves, polls, purges and requests the account store is
  well formed and has an active admin, at most 300 snapshots are kept, each alarm is shown once, every number of a
  container is one JSON can carry, and the access mode is still the one it was started in.\<close>

theorem program_invariants:
  assumes "Build bc b cfg = Some (Inr p0)" "database_ok (bo_users b (path_join [DataDir cfg, ''users.db'']))" "p = program_run w ss p0"
  shows "(case pr_access p of
        ServeSessions srv \<Rightarrow> AuthMode cfg = ''session'' \<and> store_ok (srv_store srv) \<and> (\<exists>r \<in> set (users (srv_store srv)). u_role r = ''admin'' \<and> u_active r)
      | ServeBasic u pw \<Rightarrow> AuthMode cfg = ''basic'' \<and> u = AuthUser cfg \<and> pw = AuthPassword cfg \<and> u \<noteq> [] \<and> pw \<noteq> []
      | ServeOpen \<Rightarrow> AuthMode cfg = ''none'')
    \<and> length (GetAll (mo_mem (pr_mon p))) \<le> 300
    \<and> distinct (map al_id (Latest (mo_alarms (pr_mon p))))
    \<and> pred_option (\<lambda>d. list_all container_finite (docker_snapshot d)) (pr_docker p)"
proof -
  have p: "program_ok p" using program_run_ok[OF Build_ok[OF assms(1,2)]] assms(3) by simp
  have mode: "case a of ServeSessions srv \<Rightarrow> AuthMode cfg = ''session''
      | ServeBasic u pw \<Rightarrow> AuthMode cfg = ''basic'' \<and> u = AuthUser cfg \<and> pw = AuthPassword cfg \<and> u \<noteq> [] \<and> pw \<noteq> []
      | ServeOpen \<Rightarrow> AuthMode cfg = ''none''"
    if "a = foldl (\<lambda>a s. access_tick w s a) (pr_access p0) xs" for a xs
    using that
  proof (induction xs arbitrary: a rule: rev_induct)
    case Nil
    with Build_started(1)[OF assms(1)] show ?case
      by (cases "pr_access p0") (auto simp: build_access_def split: if_splits sum.splits)
  next
    case (snoc s xs)
    let ?a = "foldl (\<lambda>a s. access_tick w s a) (pr_access p0) xs"
    have a: "a = access_tick w s ?a" using snoc.prems by simp
    show ?case using snoc.IH[OF refl] unfolding a
      by (cases ?a; cases s) (simp_all add: access_tick_def access_purge_def answer_def split_def Let_def)
  qed
  from p mode[OF refl, of "filter of_access ss"] show ?thesis
    by (auto simp: assms(3) run_access program_ok_def mem_ok_def GetAll_def access_ok_def server_ok_def has_admin_def
        is_active_admin_def RoleAdmin_def split: access.splits)
qed

section \<open>The page of the alarms\<close>

text \<open>C5: the alarms as a client gets them: after any interleaving of the loop, the saves, the pollers, the purges and
  other requests, an admitted request for the alarms is answered with the JSON of exactly those alarms the default
  thresholds call for on the last snapshot collected, each once, and each with the value that the metric lookup of
  the sparklines finds in that snapshot under the alarm's own metric key.\<close>

theorem alarms_page:
  assumes "Build bc b cfg = Some (Inr p0)" "places_ok cfg (bo_zones b) (bo_fs b)"
    and "list_all step_ok ss" "snapshots w ss p0 \<noteq> []" "p = program_run w ss p0"
    and "r_path r = ''/api/alarms''" "admitted (re 0) r (pr_access p)"
  shows "\<exists>as. fst (program_answer w re t query r p) = writeJSON (wo_json w) (AlarmsReply as (length as))
    \<and> (\<lambda>a. (al_id a, al_severity a, al_value a)) ` set as = alarm_spec DefaultThresholds (last (snapshots w ss p0))
    \<and> distinct (map al_id as)
    \<and> list_all (\<lambda>a. \<exists>sel. metricValue (last (snapshots w ss p0)) (al_metric a) sel = Some (al_value a)) as"
proof -
  let ?as = "Latest (mo_alarms (pr_mon p))"
  have reg: "Register (program_handler p) t query ''/api/alarms'' = Some (AlarmsReply ?as (length ?as))"
    by (simp add: Register_def AlarmsList_def program_handler_def build_handler_def Let_def)
  have "r_path r \<in> set data_paths" by (simp add: assms(6) data_paths_def)
  from data_answer[OF this, of "wo_bcrypt w" re "dashboard w t query p" "pr_access p"] assms(7)
  have "fst (program_answer w re t query r p) = dashboard w t query p r" by (simp add: program_answer_def)
  then have 1: "fst (program_answer w re t query r p) = writeJSON (wo_json w) (AlarmsReply ?as (length ?as))"
    using reg by (simp add: dashboard_def assms(6))
  have run: "monitor_run (wo_procs w) (wo_up w) (build_monitor cfg (bo_zones b) (bo_fs b) (bo_up b)
      (bo_fs b (log_path (DataDir cfg) ''uptime_sessions.jsonl''))) (snapshots w ss p0) (pr_mon p)"
    using program_monitor[OF assms(3), of w p0] Build_started(2)[OF assms(1)] by (simp add: assms(5) start_monitor_def)
  from alarms_endpoint[OF run assms(2,4) reg[unfolded program_handler_def]] 1 show ?thesis by blast
qed

section \<open>The current snapshot\<close>

definition is_saved :: "step \<Rightarrow> bool" where
  "is_saved s = (case s of Saved _ \<Rightarrow> True | _ \<Rightarrow> False)"

lemma saves_no_snapshots: "list_all is_saved ss \<Longrightarrow> snapshots w ss p = []"
  by (induction ss arbitrary: p) (auto simp: is_saved_def split: step.splits)

lemma saves_end: "\<exists>ss. list_all is_saved ss \<and> mo_pending (pr_mon (program_run w ss p)) = {#}"
proof (induction "size (mo_pending (pr_mon p))" arbitrary: p)
  case 0
  then show ?case by (intro exI[of _ "[]"]) simp
next
  case (Suc k)
  then obtain m where m: "m \<in># mo_pending (pr_mon p)" by (metis Zero_not_Suc multiset_nonemptyE size_empty)
  then have "k = size (mo_pending (pr_mon (program_step w (Saved m) p)))"
    using Suc.hyps(2) by (simp add: save_pending_def size_Diff_singleton)
  from Suc.hyps(1)[OF this] obtain ss where "list_all is_saved ss" "mo_pending (pr_mon (program_run w ss (program_step w (Saved m) p))) = {#}"
    by blast
  then show ?case by (intro exI[of _ "Saved m # ss"]) (simp add: is_saved_def)
qed

lemma Build_saves:
  assumes "Build bc b cfg = Some (Inr p0)" "list_all step_ok ss" "p = program_run w ss p0"
  shows "multi_run (snapshots w ss p0) (mo_pending (pr_mon p), mo_mem (pr_mon p))"
  using run_saves[OF program_monitor[OF assms(2), of w p0]] Build_started(2)[OF assms(1)]
  by (simp add: assms(3) start_monitor_def build_monitor_def)

text \<open>C22: the current snapshot as a client gets it: whatever the interleaving, an admitted request is answered with the
  JSON of a snapshot the loop has collected (or of the empty one before any has been saved), never more than 300
  are kept, and the goroutines of the store alone can always bring every snapshot in: as long as no more than
  300 have been collected, each of them is then stored exactly once.\<close>

theorem stats_page:
  assumes "Build bc b cfg = Some (Inr p0)" "list_all step_ok ss" "p = program_run w ss p0"
    and "r_path r = ''/api/stats''" "admitted (re 0) r (pr_access p)"
  shows "\<exists>m. fst (program_answer w re t query r p) = writeJSON (wo_json w) (StatsReply m)
    \<and> m \<in> insert zero_metrics (set (snapshots w ss p0)) \<and> length (GetAll (mo_mem (pr_mon p))) \<le> 300
    \<and> (\<exists>ss'. list_all is_saved ss' \<and> mo_pending (pr_mon (program_run w ss' p)) = {#}
         \<and> (length (snapshots w ss p0) \<le> 300 \<longrightarrow> mset (GetAll (mo_mem (pr_mon (program_run w ss' p)))) = mset (snapshots w ss p0)))"
proof -
  let ?m = "Stats (mo_mem (pr_mon p))"
  have reg: "Register (program_handler p) t query ''/api/stats'' = Some (StatsReply ?m)"
    by (simp add: Register_def program_handler_def build_handler_def)
  have "r_path r \<in> set data_paths" by (simp add: assms(4) data_paths_def)
  from data_answer[OF this, of "wo_bcrypt w" re "dashboard w t query p" "pr_access p"] assms(5) reg
  have 1: "fst (program_answer w re t query r p) = writeJSON (wo_json w) (StatsReply ?m)"
    by (simp add: program_answer_def dashboard_def assms(4))
  note run = Build_saves[OF assms(1-3)]
  have 2: "?m \<in> insert zero_metrics (set (snapshots w ss p0))"
    using multi_run_stored[OF run] by (cases "ms_data (mo_mem (pr_mon p)) = []") (auto simp: Stats_def GetAll_def Let_def dest: last_in_set)
  obtain ss' where ss': "list_all is_saved ss'" "mo_pending (pr_mon (program_run w ss' p)) = {#}" using saves_end by blast
  then have "list_all step_ok (ss @ ss')"
    using assms(2) by (auto simp: list_all_iff is_saved_def step_ok_def split: step.splits)
  from Build_saves[OF assms(1) this refl, of w] have
    "multi_run (snapshots w ss p0) (mo_pending (pr_mon (program_run w ss' p)), mo_mem (pr_mon (program_run w ss' p)))"
    by (simp add: snapshots_append saves_no_snapshots[OF ss'(1)] assms(3))
  from multi_run_count[OF this refl] multi_run_count[OF run refl] ss' 1 2 show ?thesis
    by (auto simp: GetAll_def mem_ok_def)
qed

section \<open>Which configurations start\<close>

text \<open>C7: starting: unless the stacked devices of the host form a cycle \<open>Build\<close> returns, and the process goes on serving
  exactly when the mode is a known one with what it needs: basic a name and a password, session a database
  that opens and answers, holding a user already or with a configured first admin that can be created.
  The watchers exist exactly when they are configured, the Docker collector when its daemon answers as well.\<close>

theorem Build_outcome:
  assumes "no_cycle (bo_dirs b)"
  shows "\<exists>res. Build bc b cfg = Some res
    \<and> ((\<exists>p. res = Inr p) \<longleftrightarrow>
        AuthMode cfg = ''none''
        \<or> AuthMode cfg = ''basic'' \<and> AuthUser cfg \<noteq> [] \<and> AuthPassword cfg \<noteq> []
        \<or> AuthMode cfg = ''session'' \<and> (\<exists>st. bo_users b (path_join [DataDir cfg, ''users.db'']) = Some st \<and> \<not> faults (bo_env b) DbCount
             \<and> (users st \<noteq> [] \<or> AuthUser cfg \<noteq> [] \<and> AuthPassword cfg \<noteq> []
                  \<and> (\<exists>u st'. Create bc (bo_env b) st (AuthUser cfg) (AuthPassword cfg) RoleAdmin = (Inr u, st')))))
    \<and> (\<forall>p. res = Inr p \<longrightarrow>
        (pr_ssh p \<noteq> None) = SSHWatchEnabled cfg
        \<and> (pr_conn p \<noteq> None) = (ConnWatchEnabled cfg \<and> (ConnWatchAuto cfg \<or> ConnWatchPorts cfg \<noteq> []))
        \<and> (pr_docker p \<noteq> None) = (DockerEnabled cfg \<and> docker_get (bo_docker b) ''/_ping'' \<noteq> None))"
proof -
  let ?s = "bo_users b (path_join [DataDir cfg, ''users.db''])"
  obtain h where h: "start_host b cfg = Some h" unfolding start_host_def using no_cycle_host[OF assms] by blast
  have access: "(\<exists>a. build_access bc (bo_env b) ?s cfg = Inr a) \<longleftrightarrow>
        AuthMode cfg = ''none''
        \<or> AuthMode cfg = ''basic'' \<and> AuthUser cfg \<noteq> [] \<and> AuthPassword cfg \<noteq> []
        \<or> AuthMode cfg = ''session'' \<and> (\<exists>st. ?s = Some st \<and> \<not> faults (bo_env b) DbCount
             \<and> (users st \<noteq> [] \<or> AuthUser cfg \<noteq> [] \<and> AuthPassword cfg \<noteq> []
                  \<and> (\<exists>u st'. Create bc (bo_env b) st (AuthUser cfg) (AuthPassword cfg) RoleAdmin = (Inr u, st'))))"
    by (auto simp: build_access_def openUserStore_def Count_def split: option.split sum.split prod.split if_splits)
  show ?thesis
  proof (cases "build_access bc (bo_env b) ?s cfg")
    case (Inl msg)
    with h access show ?thesis by (simp add: Build_def)
  next
    case (Inr a)
    with h have B: "Build bc b cfg = Some (Inr \<lparr>pr_host = h, pr_mon = start_monitor b cfg, pr_docker = start_docker b cfg,
                 pr_ssh = start_ssh b cfg, pr_conn = start_conn b cfg, pr_access = a\<rparr>)"
      by (simp add: Build_def)
    have "(start_docker b cfg \<noteq> None) = (DockerEnabled cfg \<and> docker_get (bo_docker b) ''/_ping'' \<noteq> None)"
      by (auto simp: start_docker_def NewDockerCollector_def split: option.split)
    with B access Inr show ?thesis by (simp add: start_ssh_def start_conn_def)
  qed
qed


section \<open>From the login to the data\<close>

text \<open>The steps between a login and the use of its cookie: those of the goroutines, with the purges before the expiry,
  and any requests that are not admitted, other logins among them.\<close>

fun quiet :: "world \<Rightarrow> time \<Rightarrow> step list \<Rightarrow> program \<Rightarrow> bool" where
  "quiet w ex [] p = True"
| "quiet w ex (s # ss) p =
     ((case s of
         PurgeTick e \<Rightarrow> t_unix (now e) < t_unix ex
       | Request re t query r \<Rightarrow> \<not> admitted (re 0) r (pr_access p)
       | _ \<Rightarrow> True) \<and> quiet w ex ss (program_step w s p))"

text \<open>The access control holds the session \<open>t\<close> of the account \<open>q\<close>.\<close>

definition holds_session :: "session_row \<Rightarrow> user_row \<Rightarrow> access \<Rightarrow> bool" where
  "holds_session t q a =
     (case a of
        ServeSessions srv \<Rightarrow> store_ok (srv_store srv) \<and> t \<in> set (sessions (srv_store srv))
          \<and> find_row (srv_store srv) (user_id t) = Some q \<and> u_active q
      | _ \<Rightarrow> False)"

lemma holds_session_user:
  assumes "holds_session t q (ServeSessions srv)" "\<not> faults e DbQuerySession"
  shows "SessionUser e (srv_store srv) (token_hash t) = (if t_unix (now e) < expires_at t then Some (scanUser q) else None)"
proof -
  have h: "store_ok (srv_store srv)" "find_row (srv_store srv) (user_id t) = Some q" "u_active q"
    and f: "find_session (srv_store srv) (token_hash t) = Some t"
    using assms(1) find_session_eq by (auto simp: holds_session_def)
  show ?thesis
  proof (cases "t_unix (now e) < expires_at t")
    case True
    then have "SessionUser e (srv_store srv) (token_hash t) = Some (scanUser q)"
      unfolding SessionUser_iff[OF h(1)] using assms(2) f h(2,3) by auto
    with True show ?thesis by simp
  next
    case False
    have "SessionUser e (srv_store srv) (token_hash t) \<noteq> Some u" for u
      unfolding SessionUser_iff[OF h(1)] using f False by auto
    with False show ?thesis by auto
  qed
qed

lemma login_keeps_sessions:
  "set (sessions (srv_store srv)) \<subseteq> set (sessions (srv_store (snd (login bc re c r srv))))
   \<and> users (srv_store (snd (login bc re c r srv))) = users (srv_store srv)"
proof -
  have "set (sessions s) \<subseteq> set (sessions (snd (CreateSession e s uid ttl)))" for e s uid ttl
    by (auto simp: CreateSession_def Let_def)
  with login_store[of bc re c r srv] show ?thesis by (metis login_accounts order_refl)
qed

lemma refused_keeps_session:
  assumes "holds_session t q a" "\<not> admitted (re 0) r a"
  shows "holds_session t q (snd (answer bc re pages r a))"
proof (cases a)
  case (ServeSessions srv)
  let ?srv = "snd (serve bc re pages r srv)"
  have "set (sessions (srv_store srv)) \<subseteq> set (sessions (srv_store ?srv)) \<and> users (srv_store ?srv) = users (srv_store srv)"
  proof (rule Middleware_cases[of "re 0" "mux bc re pages" r srv])
    assume n: "Middleware (re 0) (mux bc re pages) r srv = mux bc re pages None r srv" "publicPaths (r_path r)"
    then show ?thesis
      using public_route[OF n(2), of "r_method r"] login_keeps_sessions[of srv bc re None r] by (auto simp: serve_def mux_def)
  next
    fix v u assume "sameOrigin r" "r_cookie r = Some v" "SessionUser (re 0) (srv_store srv) (HashToken v) = Some u"
    with assms(2) show ?thesis by (simp add: ServeSessions admitted_def)
  qed (simp add: serve_def)
  moreover have "store_ok (srv_store ?srv)"
    using serve_store[of bc re pages r srv] assms(1) by (auto simp: ServeSessions holds_session_def store_exec_ok)
  ultimately show ?thesis
    using assms(1) by (auto simp: ServeSessions holds_session_def answer_def split_def Let_def find_row_def)
qed (use assms(1) in \<open>simp_all add: holds_session_def\<close>)

lemma purge_keeps_session:
  "holds_session t q a \<Longrightarrow> t_unix (now e) < expires_at t \<Longrightarrow> holds_session t q (access_purge e a)"
  using PurgeExpiredSessions_ok
  by (cases a) (auto simp: holds_session_def access_purge_def purge_tick_def PurgeExpiredSessions_def find_row_def)

lemma quiet_keeps_session:
  "holds_session t q (pr_access p) \<Longrightarrow> expires_at t = t_unix ex \<Longrightarrow> quiet w ex ss p \<Longrightarrow> holds_session t q (pr_access (program_run w ss p))"
proof (induction ss arbitrary: p)
  case (Cons s ss)
  have "holds_session t q (pr_access (program_step w s p))"
    unfolding step_threads access_tick_def using Cons.prems
    by (cases s) (auto intro: refused_keeps_session purge_keeps_session)
  with Cons show ?case by simp
qed simp

lemma login_holds_session:
  assumes "store_ok (srv_store srv)" "serve bc re pages r srv = (rs, srv1)"
    and "sameOrigin r" "r_method r = ''POST''" "r_path r = ''/api/auth/login''" "cookie rs = SetSession tok ex sec"
  shows "\<exists>q. holds_session \<lparr>token_hash = HashToken tok, user_id = u_id q, expires_at = t_unix ex\<rparr> q (ServeSessions srv1)
    \<and> resp_body rs = BMe ''session'' (Some (scanUser q)) \<and> ex = now (re 4) + sessionTTL"
proof -
  have l: "login bc re None r srv = (rs, srv1)" using serve_login[OF assms(3-5)] assms(2) by metis
  from login_200[where re = re, OF l assms(6)] obtain u st where
    u: "CreateSession (re 4) (srv_store srv) (u_id u) sessionTTL = (Inr (tok, ex), st)"
      "srv_store srv1 = st" "\<exists>un pw. Authenticate bc (re 2) (srv_store srv) un pw = Some u"
      "resp_body rs = BMe ''session'' (Some u)" by blast
  then obtain q where q: "q \<in> set (users (srv_store srv))" "u = scanUser q" "u_active q"
    using Authenticate_Some by blast
  have row: "find_row (srv_store srv) (u_id q) = Some q" using find_row_eq[OF assms(1) q(1)] .
  from CreateSession_Inr[OF u(1)] have
    c: "ex = now (re 4) + sessionTTL" "st = (srv_store srv)\<lparr>sessions := sessions (srv_store srv) @
           [\<lparr>token_hash = HashToken tok, user_id = u_id u, expires_at = t_unix ex\<rparr>]\<rparr>" by auto
  have "store_ok st" using CreateSession_ok[OF assms(1), of "re 4" "u_id u" sessionTTL] u(1) by simp
  then have "holds_session \<lparr>token_hash = HashToken tok, user_id = u_id q, expires_at = t_unix ex\<rparr> q (ServeSessions srv1)"
    using row q c(2) by (simp add: holds_session_def u(2) find_row_def)
  with u(4) q(2) c(1) show ?thesis by blast
qed

text \<open>C4: from the login to the data: after a login that hands out a cookie, let the goroutines collect, save, poll and
  purge and let anyone send requests that are not admitted, other logins included, in any order. A
  same-origin request for any data path that carries the cookie is then answered with the current data as long
  as it comes before the expiry, seven days after the login, and 401 from then on.\<close>

theorem login_opens_data:
  assumes "pr_access p = ServeSessions srv" "store_ok (srv_store srv)"
    and "sameOrigin r" "r_method r = ''POST''" "r_path r = ''/api/auth/login''"
    and "cookie (fst (program_answer w re t query r p)) = SetSession tok ex sec"
    and "p1 = program_step w (Request re t query r) p" "quiet w ex ss p1" "p2 = program_run w ss p1"
    and "sameOrigin r2" "r_path r2 \<in> set data_paths" "r_cookie r2 = Some tok" "\<not> faults (re2 0) DbQuerySession"
  shows "ex = now (re 4) + 7 * 24 * Hour
    \<and> (\<exists>v. Register (program_handler p2) t2 query2 (r_path r2) = Some v \<and> fst (program_answer w re2 t2 query2 r2 p2) =
        (if t_unix (now (re2 0)) < t_unix ex then writeJSON (wo_json w) v else writeError 401 msg_session))"
proof -
  obtain rs srv1 where s: "serve (wo_bcrypt w) re (dashboard w t query p) r srv = (rs, srv1)" by fastforce
  have a: "program_answer w re t query r p = (rs, ServeSessions srv1)"
    by (simp add: program_answer_def answer_def assms(1) s)
  from login_holds_session[where re = re, OF assms(2) s assms(3-5)] assms(6) a obtain q where
    q: "holds_session \<lparr>token_hash = HashToken tok, user_id = u_id q, expires_at = t_unix ex\<rparr> q (pr_access p1)"
      "ex = now (re 4) + sessionTTL" by (auto simp: assms(7))
  then have h: "holds_session \<lparr>token_hash = HashToken tok, user_id = u_id q, expires_at = t_unix ex\<rparr> q (pr_access p2)"
    using quiet_keeps_session[OF q(1) _ assms(8)] by (simp add: assms(9))
  then obtain srv2 where srv2: "pr_access p2 = ServeSessions srv2" by (auto simp: holds_session_def split: access.splits)
  have adm: "admitted (re2 0) r2 (pr_access p2) \<longleftrightarrow> t_unix (now (re2 0)) < t_unix ex"
    using holds_session_user[OF h[unfolded srv2] assms(13)] assms(10,12) by (simp add: srv2 admitted_def)
  obtain v where v: "Register (program_handler p2) t2 query2 (r_path r2) = Some v"
    using data_paths_answered[of "program_handler p2" t2 query2 "r_path r2"] assms(11) by auto
  then have "dashboard w t2 query2 p2 r2 = writeJSON (wo_json w) v" by (simp add: dashboard_def)
  with v data_answer[OF assms(11), of "wo_bcrypt w" re2 "dashboard w t2 query2 p2" "pr_access p2"] adm srv2 assms(10) q(2)
  show ?thesis by (simp add: program_answer_def refusal_def sessionTTL_def)
qed

section \<open>From the logout on\<close>

text \<open>The step is a login that draws a token with the hash of \<open>tok\<close>.\<close>

definition redraws :: "string \<Rightarrow> step \<Rightarrow> bool" where
  "redraws tok s = (case s of Request re t query r \<Rightarrow> route_of (r_method r) (r_path r) = RLogin \<and> HashToken (b64_encode (rand (re 4))) = HashToken tok | _ \<Rightarrow> False)"

text \<open>The access control holds no session for a token hash.\<close>

definition lost_session :: "string \<Rightarrow> access \<Rightarrow> bool" where
  "lost_session h a = (case a of ServeSessions srv \<Rightarrow> store_ok (srv_store srv) \<and> no_session h (srv_store srv) | _ \<Rightarrow> False)"

lemma lost_session_tick:
  assumes "lost_session (HashToken tok) a" "\<not> redraws tok s"
  shows "lost_session (HashToken tok) (access_tick w s a)"
proof (cases a)
  case (ServeSessions srv)
  then have l: "store_ok (srv_store srv)" "no_session (HashToken tok) (srv_store srv)"
    using assms(1) by (simp_all add: lost_session_def)
  show ?thesis
  proof (cases s)
    case (PurgeTick e)
    with l show ?thesis
      using PurgeExpiredSessions_ok[OF l(1), of e] no_session_subset[OF l(2) store_sessions_subset(4)]
      by (simp add: ServeSessions lost_session_def access_tick_def access_purge_def purge_tick_def)
  next
    case (Request re t query r)
    have "store_ok (srv_store (snd (serve (wo_bcrypt w) re (wo_files w) r srv)))"
      using serve_store[of "wo_bcrypt w" re "wo_files w" r srv] l(1) by (auto simp: store_exec_ok)
    moreover have "no_session (HashToken tok) (srv_store (snd (serve (wo_bcrypt w) re (wo_files w) r srv)))"
      using assms(2) by (intro serve_no_session l) (simp add: redraws_def Request)
    ultimately show ?thesis
      by (simp add: ServeSessions Request lost_session_def access_tick_def answer_def split_def Let_def)
  qed (use assms(1) in \<open>simp_all add: access_tick_def\<close>)
qed (use assms(1) in \<open>simp_all add: lost_session_def\<close>)

lemma lost_session_run:
  "lost_session (HashToken tok) (pr_access p) \<Longrightarrow> \<forall>s \<in> set ss. \<not> redraws tok s
   \<Longrightarrow> lost_session (HashToken tok) (pr_access (program_run w ss p))"
  by (induction ss arbitrary: p) (simp_all add: step_threads(3) lost_session_tick del: program_step.simps)

text \<open>C16: logging out: a request to log out with a valid session is answered 204 with the cookie cleared. If the
  statement that deletes the session does not fail, the token is dead from then on: whatever the goroutines and
  any requests do afterwards, in any order, a request that carries it is refused and changes nothing, as long as no
  later login happens to draw a token with the same hash; and every other session resolves as before. If
  the statement fails the answer is the same 204, but nothing has changed and the token stays valid.\<close>

theorem logout_ends_session:
  assumes "pr_access p = ServeSessions srv" "store_ok (srv_store srv)"
    and "sameOrigin r" "r_method r = ''POST''" "r_path r = ''/api/auth/logout''" "r_cookie r = Some tok"
    and "SessionUser (re 0) (srv_store srv) (HashToken tok) = Some u"
    and "p1 = program_step w (Request re t query r) p"
  shows "fst (program_answer w re t query r p) = (resp 204 BEmpty)\<lparr>cookie := ClearSession (isHTTPS r)\<rparr>
    \<and> (faults (re 1) DbDeleteSession \<longrightarrow> pr_access p1 = pr_access p)
    \<and> (\<not> faults (re 1) DbDeleteSession \<longrightarrow>
         (\<forall>ss re2 t2 query2 r2. (\<forall>s \<in> set ss. \<not> redraws tok s) \<longrightarrow>
            sameOrigin r2 \<longrightarrow> \<not> publicPaths (r_path r2) \<longrightarrow> r_cookie r2 = Some tok \<longrightarrow>
            program_answer w re2 t2 query2 r2 (program_run w ss p1) = (deny r2, pr_access (program_run w ss p1)))
       \<and> (\<exists>srv1. pr_access p1 = ServeSessions srv1 \<and>
            (\<forall>e h. h \<noteq> HashToken tok \<longrightarrow> SessionUser e (srv_store srv1) h = SessionUser e (srv_store srv) h)))"
proof -
  let ?s = "srv_store srv"
  let ?s1 = "?s\<lparr>sessions := filter (\<lambda>t. token_hash t \<noteq> HashToken tok) (sessions ?s)\<rparr>"
  have a: "program_answer w re t query r p = ((resp 204 BEmpty)\<lparr>cookie := ClearSession (isHTTPS r)\<rparr>,
      ServeSessions (if faults (re 1) DbDeleteSession then srv else srv\<lparr>srv_store := ?s1\<rparr>))"
    unfolding program_answer_def answer_def assms(1) access.case serve_logout[where re = re, OF assms(3-7)]
    by (simp add: Let_def)
  have p1: "pr_access p1 = ServeSessions (if faults (re 1) DbDeleteSession then srv else srv\<lparr>srv_store := ?s1\<rparr>)"
    by (simp add: assms(8) a)
  have refused: "program_answer w re2 t2 query2 r2 q = (deny r2, pr_access q)"
    if q: "lost_session (HashToken tok) (pr_access q)" and r2: "sameOrigin r2" "\<not> publicPaths (r_path r2)" "r_cookie r2 = Some tok"
    for re2 t2 query2 r2 q
  proof -
    from q obtain srv2 where "pr_access q = ServeSessions srv2" "SessionUser (re2 0) (srv_store srv2) (HashToken tok) = None"
      by (auto simp: lost_session_def no_session_SessionUser split: access.splits)
    then show ?thesis
      using serve_with_cookie[OF r2, of "wo_bcrypt w" re2 "dashboard w t2 query2 q" srv2]
      by (simp add: program_answer_def answer_def)
  qed
  have "lost_session (HashToken tok) (pr_access p1)" if "\<not> faults (re 1) DbDeleteSession"
  proof -
    have "store_ok ?s1" using DeleteSession_ok[OF assms(2), of "re 1" "HashToken tok"] that by (simp add: DeleteSession_def)
    with that show ?thesis by (simp add: p1 lost_session_def no_session_def)
  qed
  then show ?thesis
    using refused lost_session_run drop_session_others[OF assms(2)] by (auto simp: a p1 assms(1))
qed

section \<open>A small host\<close>

definition ex_boot :: boot where
  "ex_boot = \<lparr>bo_zones = [], bo_fs = (\<lambda>_. None), bo_dirs = (\<lambda>_. None), bo_exists = (\<lambda>_. False), bo_statfs = (\<lambda>_. None),
     bo_host = \<lparr>he_hostname = ''pi'', he_goarch = ''arm64'', he_cpus = 4, he_now = 0, he_dmidecode = None\<rparr>,
     bo_parts = (\<lambda>ps. ps), bo_docker = ex_daemon, bo_users = (\<lambda>_. Some empty_store), bo_env = ex_env,
     bo_up = (\<lambda>_. None), bo_ssh = (\<lambda>_. None), bo_conn = (\<lambda>_. None)\<rparr>"

definition ex_world :: world where
  "ex_world = \<lparr>wo_bcrypt = ex_bc, wo_json = (\<lambda>_. Some ''{}''), wo_files = (\<lambda>_. resp 404 BEmpty), wo_codec = ex_codec (ex_stats 0 0 0),
     wo_ports = sort_by port_less, wo_procs = (\<lambda>ps. ps), wo_up = (\<lambda>_. None), wo_ssh = (\<lambda>_. None), wo_conn = (\<lambda>_. None)\<rparr>"

definition ex_host :: host_info where
  "ex_host = \<lparr>hi_hostname = ''pi'', hi_os_name = [], hi_os_version = [], hi_kernel = [], hi_arch = [], hi_virtualization = [], hi_cores = 4,
     hi_boot_time = 0, hi_cpu_vendor = [], hi_cpu_model = [], hi_cpu_mhz = Fin 0, hi_cpu_mhz_max = False, hi_ram_total_kb = 0,
     hi_ram_mhz = Fin 0, hi_disks = [], hi_usb = []\<rparr>"

definition ex_program :: program where
  "ex_program = \<lparr>pr_host = ex_host, pr_mon = ex_monitor, pr_docker = None, pr_ssh = None, pr_conn = None, pr_access = ServeSessions ex_srv\<rparr>"

definition ex_host_req :: request where
  "ex_host_req = ex_req\<lparr>r_path := ''/api/host''\<rparr>"

lemma ex_no_cycle: "no_cycle (bo_dirs ex_boot)"
  by (simp add: no_cycle_def ex_boot_def)

lemma ex_built:
  assumes "build_access ex_bc ex_env (Some empty_store) cfg = Inr a"
  shows "\<exists>p. Build ex_bc ex_boot cfg = Some (Inr p)"
proof -
  obtain h where "start_host ex_boot cfg = Some h" unfolding start_host_def using no_cycle_host[OF ex_no_cycle] by blast
  with assms show ?thesis by (simp add: Build_def ex_boot_def)
qed

lemma ex_empty_database: "database_ok (bo_users ex_boot path)"
  by (simp add: database_ok_def ex_boot_def store_ok_def empty_store_def)

theorem data_served_witness:
  "status (fst (program_answer ex_world (\<lambda>_. ex_env) 5 (\<lambda>_. []) ex_host_req ex_program)) = 401"
proof -
  have p: "r_path ex_host_req \<in> set data_paths" by (simp add: ex_host_req_def data_paths_def)
  have "\<not> admitted ex_env ex_host_req (pr_access ex_program)"
    by (simp add: admitted_def ex_program_def ex_host_req_def ex_req_def)
  with data_served[OF p, of ex_program 5 "\<lambda>_. []" ex_world "\<lambda>_. ex_env"] show ?thesis
    by (simp add: refusal_def ex_program_def ex_host_req_def ex_req_def sameOrigin_def)
qed

theorem nothing_leaks_witness:
  "public_view ex_world [Request (\<lambda>_. ex_env) 5 (\<lambda>_. []) ex_host_req] ex_program
   = public_view ex_world [Turn ex_tick, DockerTick (ex_refresh 0), Request (\<lambda>_. ex_env) 5 (\<lambda>_. []) ex_host_req]
       (ex_program\<lparr>pr_docker := Some ex_collector, pr_host := ex_host\<lparr>hi_hostname := ''secret''\<rparr>\<rparr>)"
  by (rule nothing_leaks[THEN conjunct1]) (simp_all add: ex_program_def of_access_def)

theorem program_invariants_witness:
  "\<exists>p0. Build ex_bc ex_boot ex_cfg = Some (Inr p0) \<and> length (GetAll (mo_mem (pr_mon (program_run ex_world [Turn ex_tick] p0)))) \<le> 300"
proof -
  obtain p0 where p0: "Build ex_bc ex_boot ex_cfg = Some (Inr p0)" using ex_built[OF ex_first] by blast
  from program_invariants[OF p0 ex_empty_database refl, of ex_world "[Turn ex_tick]"] p0 show ?thesis by blast
qed

theorem Build_outcome_witness: "\<exists>p. Build ex_bc ex_boot (default_config\<lparr>AuthMode := ''none''\<rparr>) = Some (Inr p) \<and> pr_docker p \<noteq> None"
proof -
  let ?c = "default_config\<lparr>AuthMode := ''none''\<rparr>"
  from Build_outcome[OF ex_no_cycle, of ex_bc ?c] obtain p where p: "Build ex_bc ex_boot ?c = Some (Inr p)"
    "(pr_docker p \<noteq> None) = (DockerEnabled ?c \<and> docker_get (bo_docker ex_boot) ''/_ping'' \<noteq> None)" by auto
  moreover have "DockerEnabled ?c" "docker_get (bo_docker ex_boot) ''/_ping'' \<noteq> None"
    by (simp_all add: default_config_def ex_boot_def docker_get_def ex_daemon_def)
  ultimately show ?thesis by blast
qed

theorem alarms_page_witness:
  "\<exists>p0 as. Build ex_bc ex_boot (default_config\<lparr>AuthMode := ''none''\<rparr>) = Some (Inr p0)
     \<and> fst (program_answer ex_world (\<lambda>_. ex_env) 5 (\<lambda>_. []) (ex_req\<lparr>r_path := ''/api/alarms''\<rparr>) (program_run ex_world [Turn ex_tick] p0))
       = writeJSON (wo_json ex_world) (AlarmsReply as (length as))
     \<and> (''disk./.used'', ''crit'', Fin 96) \<in> (\<lambda>a. (al_id a, al_severity a, al_value a)) ` set as"
proof -
  let ?c = "default_config\<lparr>AuthMode := ''none''\<rparr>"
  have "build_access ex_bc ex_env (Some empty_store) ?c = Inr ServeOpen" by (simp add: build_access_def)
  from ex_built[OF this] obtain p0 where p0: "Build ex_bc ex_boot ?c = Some (Inr p0)" by blast
  have "places_ok default_config [] (\<lambda>_. None) = places_ok ?c (bo_zones ex_boot) (bo_fs ex_boot)"
    by (simp add: places_ok_def ex_boot_def)
  with ex_places have pl: "places_ok ?c (bo_zones ex_boot) (bo_fs ex_boot)" by simp
  have "pr_mon p0 = ex_monitor"
    by (simp add: Build_started(2)[OF p0] start_monitor_def ex_monitor_def build_monitor_def ex_boot_def)
  then have sn: "snapshots ex_world [Turn ex_tick] p0 = [ex_snapshot]" by (simp add: ex_snapshot_def ex_world_def)
  have ok: "list_all step_ok [Turn ex_tick]" by (simp add: step_ok_def orders_ok_def ex_tick_def ex_reading_def)
  have ne: "snapshots ex_world [Turn ex_tick] p0 \<noteq> []" unfolding sn by simp
  have ad: "admitted ex_env r (pr_access (program_run ex_world [Turn ex_tick] p0))" for r
    using Build_started(1)[OF p0] by (simp add: build_access_def admitted_def)
  have pa: "r_path (ex_req\<lparr>r_path := ''/api/alarms''\<rparr>) = ''/api/alarms''" by simp
  from alarms_page[where w = ex_world and re = "\<lambda>_. ex_env" and t = 5 and query = "\<lambda>_. []", OF p0 pl ok ne refl pa ad, unfolded sn]
  obtain as where
    "fst (program_answer ex_world (\<lambda>_. ex_env) 5 (\<lambda>_. []) (ex_req\<lparr>r_path := ''/api/alarms''\<rparr>) (program_run ex_world [Turn ex_tick] p0))
       = writeJSON (wo_json ex_world) (AlarmsReply as (length as))"
    "(\<lambda>a. (al_id a, al_severity a, al_value a)) ` set as = alarm_spec DefaultThresholds ex_snapshot"
    unfolding last.simps by auto
  moreover have "(''disk./.used'', ''crit'', Fin 96) \<in> alarm_spec DefaultThresholds ex_snapshot"
    by (simp add: alarm_spec_def ex_disks level_def DefaultThresholds_def)
  ultimately show ?thesis using p0 by blast
qed

theorem login_opens_data_witness:
  "\<exists>v. fst (program_answer ex_world (\<lambda>_. ex_env) 9 (\<lambda>_. []) (ex_host_req\<lparr>r_cookie := Some ex_token\<rparr>)
      (program_run ex_world [Turn ex_tick, PurgeTick ex_env, Request (\<lambda>_. ex_env) 5 (\<lambda>_. []) ex_host_req]
        (program_step ex_world (Request (\<lambda>_. ex_env) 5 (\<lambda>_. []) ex_login_req) ex_program)))
     = writeJSON (wo_json ex_world) v"
proof -
  let ?p1 = "program_step ex_world (Request (\<lambda>_. ex_env) 5 (\<lambda>_. []) ex_login_req) ex_program"
  have l: "program_answer ex_world (\<lambda>_. ex_env) 5 (\<lambda>_. []) ex_login_req ex_program =
     ((resp 200 (BMe ''session'' (Some (scanUser ex_viewer))))\<lparr>cookie := SetSession ex_token 605800000000000 False\<rparr>,
      ServeSessions (ex_srv\<lparr>srv_store := UsersProps.ex_store\<lparr>sessions := [ex_session,
         \<lparr>token_hash = HashToken ex_token, user_id = 2, expires_at = 605800\<rparr>]\<rparr>\<rparr>))"
    by (simp add: program_answer_def answer_def ex_program_def ex_world_def ex_serve_login)
  have o: "sameOrigin ex_login_req" "r_method ex_login_req = ''POST''" "r_path ex_login_req = ''/api/auth/login''"
    "sameOrigin (ex_host_req\<lparr>r_cookie := Some ex_token\<rparr>)" "r_path (ex_host_req\<lparr>r_cookie := Some ex_token\<rparr>) \<in> set data_paths"
    "r_cookie (ex_host_req\<lparr>r_cookie := Some ex_token\<rparr>) = Some ex_token"
    by (simp_all add: ex_login_req_def ex_host_req_def ex_req_def sameOrigin_def data_paths_def)
  have c: "cookie (fst (program_answer ex_world (\<lambda>_. ex_env) 5 (\<lambda>_. []) ex_login_req ex_program)) = SetSession ex_token 605800000000000 False"
    by (simp add: l)
  have a: "pr_access ex_program = ServeSessions ex_srv" by (simp add: ex_program_def)
  have t: "t_unix (now ex_env) < t_unix 605800000000000" by (simp add: ex_env_def t_unix_def)
  have q: "quiet ex_world 605800000000000 [Turn ex_tick, PurgeTick ex_env, Request (\<lambda>_. ex_env) 5 (\<lambda>_. []) ex_host_req] ?p1"
    using t by (simp add: l access_purge_def admitted_def ex_host_req_def ex_req_def)
  from login_opens_data[OF a _ o(1-3) c refl q refl o(4-6) ex_env_no_faults(2), of 9 "\<lambda>_. []"] UsersProps.ex_store_ok t
  show ?thesis by auto
qed

theorem logout_ends_session_witness:
  "let p = ex_program\<lparr>pr_access := ServeSessions ex_srv_in\<rparr>;
       q = program_run ex_world [PurgeTick ex_env, Turn ex_tick, Request (\<lambda>_. ex_env) 5 (\<lambda>_. []) ex_host_req]
             (program_step ex_world (Request (\<lambda>_. ex_env) 5 (\<lambda>_. []) ex_logout_req) p) in
   status (fst (program_answer ex_world (\<lambda>_. ex_env) 9 (\<lambda>_. []) (ex_host_req\<lparr>r_cookie := Some ex_token\<rparr>) q)) = 401"
proof -
  let ?p = "ex_program\<lparr>pr_access := ServeSessions ex_srv_in\<rparr>"
  let ?ss = "[PurgeTick ex_env, Turn ex_tick, Request (\<lambda>_. ex_env) 5 (\<lambda>_. []) ex_host_req]"
  let ?r2 = "ex_host_req\<lparr>r_cookie := Some ex_token\<rparr>"
  have o: "pr_access ?p = ServeSessions ex_srv_in" "sameOrigin ex_logout_req" "r_method ex_logout_req = ''POST''"
    "r_path ex_logout_req = ''/api/auth/logout''" "r_cookie ex_logout_req = Some ex_token"
    and m: "sameOrigin ?r2" "\<not> publicPaths (r_path ?r2)" "r_cookie ?r2 = Some ex_token" "status (deny ?r2) = 401"
    by (simp_all add: ex_logout_req_def ex_host_req_def ex_req_def sameOrigin_def publicPaths_def deny_def has_prefix_def)
  have "route_of (r_method ex_host_req) (r_path ex_host_req) \<noteq> RLogin" by code_simp
  then have d: "\<forall>s \<in> set ?ss. \<not> redraws ex_token s" by (simp add: redraws_def)
  from logout_ends_session[where re = "\<lambda>_. ex_env" and w = ex_world and t = 5 and query = "\<lambda>_. []",
      OF o(1) ex_srv_in_ok o(2-5) ex_srv_in_user refl] d m
  show ?thesis by (simp add: Let_def del: program_run_simps program_step.simps)
qed

theorem stats_page_witness:
  "\<exists>p0 ss'. Build ex_bc ex_boot (default_config\<lparr>AuthMode := ''none''\<rparr>) = Some (Inr p0)
     \<and> length (GetAll (mo_mem (pr_mon (program_run ex_world ss' (program_run ex_world [Turn ex_tick] p0))))) = 1"
proof -
  let ?c = "default_config\<lparr>AuthMode := ''none''\<rparr>"
  have "build_access ex_bc ex_env (Some empty_store) ?c = Inr ServeOpen" by (simp add: build_access_def)
  from ex_built[OF this] obtain p0 where p0: "Build ex_bc ex_boot ?c = Some (Inr p0)" by blast
  have ok: "list_all step_ok [Turn ex_tick]" by (simp add: step_ok_def orders_ok_def ex_tick_def ex_reading_def)
  have ad: "admitted ex_env r (pr_access (program_run ex_world [Turn ex_tick] p0))" for r
    using Build_started(1)[OF p0] by (simp add: build_access_def admitted_def)
  have pa: "r_path (ex_req\<lparr>r_path := ''/api/stats''\<rparr>) = ''/api/stats''" by simp
  have n: "length (snapshots ex_world [Turn ex_tick] p0) = 1" by simp
  from stats_page[where w = ex_world and re = "\<lambda>_. ex_env", OF p0 ok refl pa ad] n obtain ss' where
    "mset (GetAll (mo_mem (pr_mon (program_run ex_world ss' (program_run ex_world [Turn ex_tick] p0))))) = mset (snapshots ex_world [Turn ex_tick] p0)"
    by fastforce
  then have "length (GetAll (mo_mem (pr_mon (program_run ex_world ss' (program_run ex_world [Turn ex_tick] p0))))) = 1"
    using n by (metis size_mset)
  with p0 show ?thesis by blast
qed


end
