(* ===== verification/LoginSteps.thy ===== *)
theory LoginSteps
  imports ServerProps "HOL-Library.Multiset"
begin

text \<open>
  The login handler of internal/auth/session.go as the runtime interleaves it. A request to log in takes the
  limiter's mutex in \<open>blocked\<close>, releases it, compares the password (bcrypt, slow), and takes the mutex again in
  \<open>fail\<close> or \<open>reset\<close>. Here each critical section and each store call is a step of its own, and any number of
  requests are in between: \<open>Session.login\<close> is what one request does when nothing else runs
  (\<open>login_sections\<close>).
\<close>

section \<open>Steps\<close>

text \<open>Where a request stands between two steps: the password is being compared, was refused, was accepted (the id is
  the user's), or the failures are cleared and the session is to be created.\<close>

datatype stage =
    Checking string string string
  | Refused string
  | Accepted string int
  | Opening int

record gate =
  g_srv :: server
  g_threads :: "stage multiset"

text \<open>The last act is any other handler or goroutine that changes the accounts or the sessions meanwhile.\<close>

datatype login_act =
    Enter request login_body
  | Check string string string
  | Record string
  | Clear string int
  | Open int
  | Elsewhere store

definition move :: "stage \<Rightarrow> stage option \<Rightarrow> gate \<Rightarrow> gate" where
  "move a b g = g\<lparr>g_threads := g_threads g - {#a#} + (case b of None \<Rightarrow> {#} | Some x \<Rightarrow> {#x#})\<rparr>"

definition with_limiter :: "limiter \<Rightarrow> gate \<Rightarrow> gate" where
  "with_limiter l g = g\<lparr>g_srv := (g_srv g)\<lparr>srv_limiter := l\<rparr>\<rparr>"

definition with_store :: "store \<Rightarrow> gate \<Rightarrow> gate" where
  "with_store st g = g\<lparr>g_srv := (g_srv g)\<lparr>srv_store := st\<rparr>\<rparr>"

text \<open>One step, \<open>None\<close> when no request stands where the step starts.\<close>

fun login_step :: "bcrypt \<Rightarrow> env \<Rightarrow> login_act \<Rightarrow> gate \<Rightarrow> gate option" where
  "login_step bc e (Enter r b) g =
     (let key = login_key r (lb_username b);
          (wait, lim) = blocked (now e) key (srv_limiter (g_srv g));
          g1 = with_limiter lim g
      in Some (if wait > 0 then g1
               else g1\<lparr>g_threads := g_threads g1 + {#Checking key (lb_username b) (lb_password b)#}\<rparr>))"
| "login_step bc e (Check key un pw) g =
     (if Checking key un pw \<notin># g_threads g then None
      else Some (move (Checking key un pw)
             (Some (case Authenticate bc e (srv_store (g_srv g)) un pw of None \<Rightarrow> Refused key | Some u \<Rightarrow> Accepted key (u_id u))) g))"
| "login_step bc e (Record key) g =
     (if Refused key \<notin># g_threads g then None
      else Some (with_limiter (fail (now e) key (srv_limiter (g_srv g))) (move (Refused key) None g)))"
| "login_step bc e (Clear key uid) g =
     (if Accepted key uid \<notin># g_threads g then None
      else Some (with_limiter (reset key (srv_limiter (g_srv g))) (move (Accepted key uid) (Some (Opening uid)) g)))"
| "login_step bc e (Open uid) g =
     (if Opening uid \<notin># g_threads g then None
      else Some (with_store (snd (CreateSession e (srv_store (g_srv g)) uid sessionTTL)) (move (Opening uid) None g)))"
| "login_step bc e (Elsewhere st) g = Some (with_store st g)"

type_synonym login_event = "env \<times> login_act"

fun login_run :: "bcrypt \<Rightarrow> login_event list \<Rightarrow> gate \<Rightarrow> gate option" where
  "login_run bc [] g = Some g"
| "login_run bc ((e, a) # es) g = (case login_step bc e a g of None \<Rightarrow> None | Some g' \<Rightarrow> login_run bc es g')"

section \<open>What is counted\<close>

fun stage_key :: "stage \<Rightarrow> string option" where
  "stage_key (Checking k un pw) = Some k"
| "stage_key (Refused k) = Some k"
| "stage_key (Accepted k uid) = Some k"
| "stage_key (Opening uid) = None"

text \<open>The attempts on a key that \<open>blocked\<close> has let in and whose outcome is not yet recorded.\<close>

definition in_flight :: "string \<Rightarrow> gate \<Rightarrow> nat" where
  "in_flight key g = size (filter_mset (\<lambda>s. stage_key s = Some key) (g_threads g))"

text \<open>The wrong passwords compared for a key in a run, and the logins on it that succeeded.\<close>

fun wrong_tries :: "bcrypt \<Rightarrow> string \<Rightarrow> login_event list \<Rightarrow> gate \<Rightarrow> nat" where
  "wrong_tries bc key [] g = 0"
| "wrong_tries bc key ((e, a) # es) g =
     (case login_step bc e a g of
        None \<Rightarrow> 0
      | Some g' \<Rightarrow>
          (case a of Check k un pw \<Rightarrow> if k = key \<and> Authenticate bc e (srv_store (g_srv g)) un pw = None then 1 else 0 | _ \<Rightarrow> 0)
          + wrong_tries bc key es g')"

definition successes :: "string \<Rightarrow> login_event list \<Rightarrow> nat" where
  "successes key es = length (filter (\<lambda>(e, a). case a of Clear k uid \<Rightarrow> k = key | _ \<Rightarrow> False) es)"

text \<open>At most \<open>c\<close> attempts on the key are in flight at any moment of the run.\<close>

definition at_most :: "nat \<Rightarrow> string \<Rightarrow> bcrypt \<Rightarrow> login_event list \<Rightarrow> gate \<Rightarrow> bool" where
  "at_most c key bc es g \<longleftrightarrow>
     (\<forall>i \<le> length es. case login_run bc (take i es) g of None \<Rightarrow> True | Some g' \<Rightarrow> in_flight key g' \<le> c)"

lemma at_most_Nil: "at_most c key bc [] g \<longleftrightarrow> in_flight key g \<le> c"
  by (simp add: at_most_def)

lemma at_most_Cons:
  "at_most c key bc ((e, a) # es) g \<longleftrightarrow>
     in_flight key g \<le> c \<and> (case login_step bc e a g of None \<Rightarrow> True | Some g' \<Rightarrow> at_most c key bc es g')"
proof -
  have "(\<forall>i \<le> Suc n. P i) \<longleftrightarrow> P 0 \<and> (\<forall>i \<le> n. P (Suc i))" for n and P :: "nat \<Rightarrow> bool"
    by (metis Suc_le_mono le0 not0_implies_Suc)
  then show ?thesis by (auto simp: at_most_def split: option.split)
qed

section \<open>One request alone\<close>

text \<open>When nothing else runs, the steps of one request are the handler: it leaves the server as \<open>login\<close> does, and no
  request behind.\<close>

definition sections :: "bcrypt \<Rightarrow> renv \<Rightarrow> request \<Rightarrow> login_body \<Rightarrow> server \<Rightarrow> login_event list" where
  "sections bc re r b srv =
     (let key = login_key r (lb_username b) in
      (re 1, Enter r b) #
      (if fst (blocked (now (re 1)) key (srv_limiter srv)) > 0 then []
       else (re 2, Check key (lb_username b) (lb_password b)) #
         (case Authenticate bc (re 2) (srv_store srv) (lb_username b) (lb_password b) of
            None \<Rightarrow> [(re 3, Record key)]
          | Some u \<Rightarrow> [(re 3, Clear key (u_id u)), (re 4, Open (u_id u))])))"

theorem login_sections:
  assumes "decode_struct login_field \<lparr>lb_username = [], lb_password = []\<rparr> (r_body r) = Some b"
  shows "login_run bc (sections bc re r b srv) \<lparr>g_srv = srv, g_threads = T\<rparr> =
    Some \<lparr>g_srv = snd (login bc re c r srv), g_threads = T\<rparr>"
proof -
  let ?key = "login_key r (lb_username b)"
  obtain wait lm where bl: "blocked (now (re 1)) ?key (srv_limiter srv) = (wait, lm)" by force
  note l = login_decoded[where re = re and bc = bc and c = c, OF assms refl bl]
  show ?thesis
  proof (cases "wait > 0")
    case True
    then show ?thesis
      by (simp add: l sections_def bl with_limiter_def Let_def del: One_nat_def)
  next
    case False
    then show ?thesis
      by (auto simp: l sections_def bl with_limiter_def with_store_def move_def Let_def simp del: One_nat_def
          split: option.split prod.split sum.split)
  qed
qed

section \<open>How many wrong passwords can be tried\<close>

abbreviation lim :: "gate \<Rightarrow> limiter" where "lim g \<equiv> srv_limiter (g_srv g)"

abbreviation refused :: "string \<Rightarrow> gate \<Rightarrow> nat" where
  "refused key g \<equiv> count (g_threads g) (Refused key)"

lemma limiter_moved [simp]:
  "lim (move a b g) = lim g" "lim (with_limiter l g) = l" "lim (with_store st g) = lim g"
  "g_threads (with_limiter l g) = g_threads g" "g_threads (with_store st g) = g_threads g"
  "in_flight key (with_limiter l g) = in_flight key g" "in_flight key (with_store st g) = in_flight key g"
  by (simp_all add: move_def with_limiter_def with_store_def in_flight_def)

lemma in_flight_move:
  assumes "a \<in># g_threads g"
  shows "in_flight key (move a b g) + (if stage_key a = Some key then 1 else 0) =
    in_flight key g + (case b of None \<Rightarrow> 0 | Some x \<Rightarrow> if stage_key x = Some key then 1 else 0)"
proof -
  obtain T where "g_threads g = add_mset a T" using assms by (blast dest: multi_member_split)
  then show ?thesis by (simp add: in_flight_def move_def split: option.split)
qed

lemma refused_move:
  assumes "a \<in># g_threads g"
  shows "refused key (move a b g) + (if a = Refused key then 1 else 0) =
    refused key g + (if b = Some (Refused key) then 1 else 0)"
proof -
  obtain T where "g_threads g = add_mset a T" using assms by (blast dest: multi_member_split)
  then show ?thesis by (auto simp: move_def split: option.split)
qed

lemma refused_le: "refused key g \<le> in_flight key g"
proof -
  have "count (filter_mset (\<lambda>s. stage_key s = Some key) (g_threads g)) (Refused key) = refused key g" by simp
  then show ?thesis unfolding in_flight_def by (metis count_le_size)
qed

text \<open>Inside one window every attempt in flight leaves room for its failure below the threshold plus \<open>c\<close>.\<close>

definition gate_ok :: "nat \<Rightarrow> string \<Rightarrow> time \<Rightarrow> time \<Rightarrow> gate \<Rightarrow> bool" where
  "gate_ok c key t0 t g \<longleftrightarrow> in_window key t0 (lim g) \<and> lim_ok t (lim g) \<and> count_of key (lim g) + in_flight key g \<le> 4 + c"

lemma in_window_reset: "in_window key t0 l \<Longrightarrow> in_window key t0 (reset k l)"
  by (simp add: in_window_def reset_lookup)

lemma count_reset: "count_of key (reset k l) = (if k = key then 0 else count_of key l)"
  by (simp add: count_of_def reset_lookup)

lemma enter_step:
  assumes ok: "gate_ok c key t0 t g" and t: "t \<le> now e" "t0 \<le> now e" "now e < t0 + loginWindow"
    and g': "login_step bc e (Enter r b) g = Some g'" and fl: "in_flight key g' \<le> c"
  shows "gate_ok c key t0 (now e) g' \<and> count_of key (lim g') = count_of key (lim g) \<and> refused key g' = refused key g"
proof -
  let ?k = "login_key r (lb_username b)"
  obtain w l where bl: "blocked (now e) ?k (lim g) = (w, l)" by force
  have win: "in_window key t0 (lim g)" and cnt: "count_of key (lim g) + in_flight key g \<le> 4 + c"
    and lo: "lim_ok (now e) (lim g)"
    using ok lim_ok_mono[OF _ t(1)] by (auto simp: gate_ok_def)
  have l: "in_window key t0 l" "lim_ok (now e) l"
    using in_window_blocked[OF win, of "now e" ?k] lim_ok_blocked[OF lo, of "now e" ?k] bl by auto
  show ?thesis
  proof (cases "w > 0")
    case True
    then have "l = lim g" using blocked_pos_same[of "now e" ?k "lim g"] bl by simp
    with True g' bl win lo cnt show ?thesis by (auto simp: gate_ok_def)
  next
    case False
    then have "fst (blocked (now e) ?k (lim g)) = 0"
      using bl by (auto simp: blocked_def Let_def split: option.splits if_splits)
    from blocked_zero_step[OF win lo t(3) this]
    have same: "?k = key \<Longrightarrow> l = lim g \<and> count_of key (lim g) < maxLoginFails" using bl by auto
    have c: "count_of key l = count_of key (lim g)"
      using same count_blocked_other[of ?k key "now e" "lim g"] bl by (cases "?k = key") auto
    have g'': "g' = with_limiter l g\<lparr>g_threads := g_threads g + {#Checking ?k (lb_username b) (lb_password b)#}\<rparr>"
      using g' False bl by simp
    have fl': "in_flight key g' = in_flight key g + (if ?k = key then 1 else 0)"
      by (simp add: g'' in_flight_def)
    have "count_of key l + in_flight key g' \<le> 4 + c"
      using same fl cnt fl' c by (cases "?k = key") (auto simp: maxLoginFails_def)
    with l c show ?thesis by (simp add: gate_ok_def g'' with_limiter_def in_flight_def)
  qed
qed

lemma record_step:
  assumes ok: "gate_ok c key t0 t g" and t: "t \<le> now e" "t0 \<le> now e" "now e < t0 + loginWindow"
    and g': "login_step bc e (Record k) g = Some g'"
  shows "gate_ok c key t0 (now e) g' \<and> count_of key (lim g') + refused key g' = count_of key (lim g) + refused key g"
proof -
  have win: "in_window key t0 (lim g)" and cnt: "count_of key (lim g) + in_flight key g \<le> 4 + c"
    and lo: "lim_ok (now e) (lim g)"
    using ok lim_ok_mono[OF _ t(1)] by (auto simp: gate_ok_def)
  have mem: "Refused k \<in># g_threads g" and g'': "g' = with_limiter (fail (now e) k (lim g)) (move (Refused k) None g)"
    using g' by (auto split: if_splits)
  note m = in_flight_move[OF mem, where key = key and b = None] refused_move[OF mem, where key = key and b = None]
  have lo': "lim_ok (now e) (fail (now e) k (lim g))" using lo by (rule lim_ok_fail)
  show ?thesis
  proof (cases "k = key")
    case True
    have "count_of key (fail (now e) key (lim g)) = count_of key (lim g) + 1" by (rule fail_count_same[OF win t(3)])
    with True m cnt lo' in_window_fail[OF win t(2)] show ?thesis by (simp add: gate_ok_def g'')
  next
    case False
    note o = other_step[OF False win t(3)]
    with False m cnt lo' show ?thesis by (simp add: gate_ok_def g'')
  qed
qed

lemma clear_step:
  assumes ok: "gate_ok c key t0 t g" and t: "t \<le> now e"
    and g': "login_step bc e (Clear k uid) g = Some g'"
  shows "gate_ok c key t0 (now e) g' \<and> refused key g' = refused key g
    \<and> count_of key (lim g') = (if k = key then 0 else count_of key (lim g))"
proof -
  have mem: "Accepted k uid \<in># g_threads g"
    and g'': "g' = with_limiter (reset k (lim g)) (move (Accepted k uid) (Some (Opening uid)) g)"
    using g' by (auto split: if_splits)
  note m = in_flight_move[OF mem, where key = key and b = "Some (Opening uid)"] refused_move[OF mem, where key = key and b = "Some (Opening uid)"]
  have "lim_ok (now e) (reset k (lim g))" using ok lim_ok_mono[OF _ t] by (auto simp: gate_ok_def intro: lim_ok_reset)
  with ok m in_window_reset[of key t0 "lim g" k] show ?thesis
    by (auto simp: gate_ok_def g'' count_reset split: if_splits)
qed

lemma check_step:
  assumes ok: "gate_ok c key t0 t g" and t: "t \<le> now e"
    and g': "login_step bc e (Check k un pw) g = Some g'"
  shows "gate_ok c key t0 (now e) g' \<and> count_of key (lim g') = count_of key (lim g) \<and> refused key g' =
    refused key g + (if k = key \<and> Authenticate bc e (srv_store (g_srv g)) un pw = None then 1 else 0)"
proof -
  let ?n = "case Authenticate bc e (srv_store (g_srv g)) un pw of None \<Rightarrow> Refused k | Some u \<Rightarrow> Accepted k (u_id u)"
  have mem: "Checking k un pw \<in># g_threads g" and g'': "g' = move (Checking k un pw) (Some ?n) g"
    using g' by (auto split: if_splits)
  have n: "stage_key ?n = Some k" "?n = Refused key \<longleftrightarrow> k = key \<and> Authenticate bc e (srv_store (g_srv g)) un pw = None"
    by (auto split: option.splits)
  note m = in_flight_move[OF mem, where key = key and b = "Some ?n"] refused_move[OF mem, where key = key and b = "Some ?n"]
  have "lim_ok (now e) (lim g)" using ok lim_ok_mono[OF _ t] by (auto simp: gate_ok_def)
  with ok m n show ?thesis by (auto simp: gate_ok_def g'')
qed

lemma quiet_step:
  assumes ok: "gate_ok c key t0 t g" and t: "t \<le> now e"
    and g': "login_step bc e a g = Some g'" and a: "a = Open uid \<or> a = Elsewhere st"
  shows "gate_ok c key t0 (now e) g' \<and> count_of key (lim g') = count_of key (lim g) \<and> refused key g' = refused key g"
proof -
  have lo: "lim_ok (now e) (lim g)" using ok lim_ok_mono[OF _ t] by (auto simp: gate_ok_def)
  from a show ?thesis
  proof
    assume a: "a = Open uid"
    with g' have mem: "Opening uid \<in># g_threads g" by (auto split: if_splits)
    note m = in_flight_move[OF mem, where key = key and b = None] refused_move[OF mem, where key = key and b = None]
    from g' a mem lo ok m show ?thesis by (auto simp: gate_ok_def)
  next
    assume "a = Elsewhere st"
    with g' lo ok show ?thesis by (auto simp: gate_ok_def)
  qed
qed

lemma wrong_tries_bound:
  assumes "sorted (map (now \<circ> fst) es)" "\<forall>(e, a) \<in> set es. t \<le> now e \<and> t0 \<le> now e \<and> now e < t0 + loginWindow"
    and "gate_ok c key t0 t g" "at_most c key bc es g"
  shows "wrong_tries bc key es g + count_of key (lim g) + refused key g \<le> (successes key es + 1) * (4 + c)"
  using assms
proof (induction es arbitrary: g t)
  case Nil
  then show ?case using refused_le[of g key] by (simp add: gate_ok_def)
next
  case (Cons ea es)
  obtain e a where ea: "ea = (e, a)" by force
  from Cons.prems have t: "t \<le> now e" "t0 \<le> now e" "now e < t0 + loginWindow"
    and srt: "sorted (map (now \<circ> fst) es)"
    and es: "\<forall>(e', a) \<in> set es. now e \<le> now e' \<and> t0 \<le> now e' \<and> now e' < t0 + loginWindow"
    by (auto simp: ea comp_def)
  have base: "count_of key (lim g) + refused key g \<le> 4 + c"
    using Cons.prems(3) refused_le[of g key] by (simp add: gate_ok_def)
  show ?case
  proof (cases "login_step bc e a g")
    case None
    with base show ?thesis by (simp add: ea)
  next
    case (Some g')
    have fl: "at_most c key bc es g'" using Cons.prems(4) Some by (simp add: ea at_most_Cons)
    then have "in_flight key g' \<le> c" by (cases es) (auto simp: at_most_Nil at_most_Cons)
    note ok = Cons.prems(3)
    note ih = Cons.IH[OF srt es _ fl]
    show ?thesis
    proof (cases a)
      case (Enter r b)
      from enter_step[OF ok t Some[unfolded Enter] \<open>in_flight key g' \<le> c\<close>] ih Some show ?thesis
        by (simp add: ea Enter successes_def)
    next
      case (Check k un pw)
      from check_step[OF ok t(1) Some[unfolded Check]] ih Some show ?thesis
        by (simp add: ea Check successes_def)
    next
      case (Record k)
      from record_step[OF ok t Some[unfolded Record]] ih Some show ?thesis
        by (simp add: ea Record successes_def)
    next
      case (Clear k uid)
      from clear_step[OF ok t(1) Some[unfolded Clear]] ih Some base show ?thesis
        by (cases "k = key") (simp_all add: ea Clear successes_def)
    next
      case (Open uid)
      from quiet_step[OF ok t(1) Some disjI1[OF Open]] ih Some show ?thesis by (simp add: ea Open successes_def)
    next
      case (Elsewhere st)
      from quiet_step[OF ok t(1) Some disjI2[OF Elsewhere]] ih Some show ?thesis by (simp add: ea Elsewhere successes_def)
    qed
  qed
qed

section \<open>The bound is reached\<close>

lemma enter_free:
  assumes "fmlookup (lim g) (login_key r (lb_username b)) = None"
  shows "login_step bc e (Enter r b) g =
    Some (g\<lparr>g_threads := add_mset (Checking (login_key r (lb_username b)) (lb_username b) (lb_password b)) (g_threads g)\<rparr>)"
proof -
  have "blocked (now e) (login_key r (lb_username b)) (lim g) = (0, lim g)" using assms by (simp add: blocked_def)
  then show ?thesis by (simp add: with_limiter_def)
qed

lemma wrong_tries_enter:
  assumes "login_step bc e (Enter r b) g = Some g'"
  shows "wrong_tries bc key ((e, Enter r b) # es) g = wrong_tries bc key es g'"
  using assms by simp

lemma all_enter:
  assumes "fmlookup (lim g) (login_key r (lb_username b)) = None"
  defines "st \<equiv> Checking (login_key r (lb_username b)) (lb_username b) (lb_password b)"
  shows "wrong_tries bc key (replicate n (e, Enter r b) @ es) g =
    wrong_tries bc key es (g\<lparr>g_threads := g_threads g + replicate_mset n st\<rparr>)"
  using assms(1)
proof (induction n arbitrary: g)
  case (Suc n)
  let ?g = "g\<lparr>g_threads := add_mset st (g_threads g)\<rparr>"
  have "wrong_tries bc key (replicate (Suc n) (e, Enter r b) @ es) g = wrong_tries bc key (replicate n (e, Enter r b) @ es) ?g"
    using wrong_tries_enter[OF enter_free[OF Suc.prems]] by (simp add: st_def)
  also have "\<dots> = wrong_tries bc key es (?g\<lparr>g_threads := g_threads ?g + replicate_mset n st\<rparr>)"
    by (rule Suc.IH) (simp add: Suc.prems)
  finally show ?case by simp
qed simp

lemma all_check:
  assumes "Authenticate bc e (srv_store (g_srv g)) un pw = None" "n \<le> count (g_threads g) (Checking key un pw)"
  shows "wrong_tries bc key (replicate n (e, Check key un pw)) g = n"
  using assms
proof (induction n arbitrary: g)
  case (Suc n)
  then have mem: "Checking key un pw \<in># g_threads g" by (metis Suc_le_D count_inI nat.distinct(1))
  let ?g = "move (Checking key un pw) (Some (Refused key)) g"
  have "wrong_tries bc key (replicate n (e, Check key un pw)) ?g = n"
    using Suc.prems by (intro Suc.IH) (auto simp: move_def)
  with mem Suc.prems(1) show ?case by simp
qed simp

text \<open>Any number of requests sent at once get past an idle limiter before one failure is recorded, and each has a
  password compared: the threshold of five is per request in flight.\<close>

lemma concurrent_tries:
  assumes "fmlookup (lim g) (login_key r (lb_username b)) = None"
    and "Authenticate bc e (srv_store (g_srv g)) (lb_username b) (lb_password b) = None"
  shows "wrong_tries bc (login_key r (lb_username b)) (replicate n (e, Enter r b)
    @ replicate n (e, Check (login_key r (lb_username b)) (lb_username b) (lb_password b))) g = n"
  by (subst all_enter[OF assms(1)]) (rule all_check, simp_all add: assms(2))

section \<open>The property\<close>

text \<open>C10: brute force is bounded, with the password check outside the limiter's mutex: take a 15-minute window in which the
  clock does not go back and that starts with no failure recorded for a key. If at no moment of it more than \<open>c\<close> attempts
  on that key are between \<open>blocked\<close> and the recording of their outcome, at most \<open>4 + c\<close> wrong passwords
  are tried for the key, five when they come one at a time, for each login on it that succeeds and once more;
  however the steps of any number of requests, on this key and others, interleave.\<close>

theorem brute_force_bound:
  assumes "sorted (map (now \<circ> fst) es)" and "\<forall>(e, a) \<in> set es. t0 \<le> now e \<and> now e < t0 + loginWindow"
    and "lim_ok t0 (srv_limiter (g_srv g))" and "fmlookup (srv_limiter (g_srv g)) key = None"
    and "\<forall>i \<le> length es. case login_run bc (take i es) g of None \<Rightarrow> True | Some g' \<Rightarrow> in_flight key g' \<le> c"
  shows "wrong_tries bc key es g \<le> (successes key es + 1) * (4 + c)"
proof -
  have fl: "at_most c key bc es g" using assms(5) by (simp add: at_most_def)
  then have "in_flight key g \<le> c" by (cases es) (auto simp: at_most_Nil at_most_Cons)
  then have "gate_ok c key t0 t0 g" using assms(3,4) by (simp add: gate_ok_def in_window_def count_of_def)
  moreover have "\<forall>(e, a) \<in> set es. t0 \<le> now e \<and> t0 \<le> now e \<and> now e < t0 + loginWindow" using assms(2) by blast
  ultimately show ?thesis using wrong_tries_bound[OF assms(1) _ _ fl, of t0 t0] by fastforce
qed

text \<open>Four wrong passwords one after the other, then two at once: six are tried, the bound for two in flight.\<close>

definition ex_guess :: login_body where
  "ex_guess = \<lparr>lb_username = ''Carla'', lb_password = ''guess''\<rparr>"

definition ex_one :: "login_event list" where
  "ex_one = [(ex_env, Enter ex_login_req ex_guess), (ex_env, Check ''1.2.3.4|carla'' ''Carla'' ''guess''),
     (ex_env, Record ''1.2.3.4|carla'')]"

definition ex_attack :: "login_event list" where
  "ex_attack = concat (replicate 4 ex_one) @
     [(ex_env, Enter ex_login_req ex_guess), (ex_env, Enter ex_login_req ex_guess),
      (ex_env, Check ''1.2.3.4|carla'' ''Carla'' ''guess''), (ex_env, Check ''1.2.3.4|carla'' ''Carla'' ''guess''),
      (ex_env, Record ''1.2.3.4|carla''), (ex_env, Record ''1.2.3.4|carla''), (ex_env, Enter ex_login_req ex_guess)]"

definition ex_gate :: gate where
  "ex_gate = \<lparr>g_srv = ex_srv, g_threads = {#}\<rparr>"

text \<open>The gate after \<open>n\<close> failures with the requests \<open>T\<close> in between.\<close>

definition ex_at :: "nat \<Rightarrow> stage multiset \<Rightarrow> gate" where
  "ex_at n T = \<lparr>g_srv = ex_srv\<lparr>srv_limiter := (if n = 0 then fmempty
     else fmupd ''1.2.3.4|carla'' \<lparr>le_fails = n, le_first = now ex_env\<rparr> fmempty)\<rparr>, g_threads = T\<rparr>"

abbreviation ex_checking :: stage where
  "ex_checking \<equiv> Checking ''1.2.3.4|carla'' ''Carla'' ''guess''"

lemma ex_enter:
  "login_step ex_bc ex_env (Enter ex_login_req ex_guess) (ex_at n T) = Some (ex_at n (if n < 5 then add_mset ex_checking T else T))"
proof -
  have "d_sub loginWindow (t_sub (now ex_env) (now ex_env)) = loginWindow" by (simp add: left_eq max_dur_def)
  then show ?thesis
    by (simp add: ex_at_def ex_guess_def ex_login_key blocked_def maxLoginFails_def with_limiter_def loginWindow_eq Let_def)
qed

lemma ex_wrong: "Authenticate ex_bc ex_env (srv_store (g_srv (ex_at n T))) ''Carla'' ''guess'' = None"
  using ex_carla by (simp add: ex_at_def ex_srv_def Authenticate_def ex_store_def) (simp add: ex_admin_def ex_viewer_def ex_bc_def)

lemma ex_check:
  "login_step ex_bc ex_env (Check ''1.2.3.4|carla'' ''Carla'' ''guess'') (ex_at n T) =
    (if ex_checking \<in># T then Some (ex_at n (add_mset (Refused ''1.2.3.4|carla'') (T - {#ex_checking#}))) else None)"
  using ex_wrong[of n T] by (simp add: ex_at_def move_def)

lemma ex_record:
  "login_step ex_bc ex_env (Record ''1.2.3.4|carla'') (ex_at n T) =
    (if Refused ''1.2.3.4|carla'' \<in># T then Some (ex_at (Suc n) (T - {#Refused ''1.2.3.4|carla''#})) else None)"
proof -
  have "t_sub (now ex_env) (now ex_env) = 0" by (simp add: t_sub_def max_dur_def min_dur_def)
  moreover have "fcard (fmdom (srv_limiter (g_srv (ex_at n T)))) \<le> 1" by (simp add: ex_at_def fcard_finsert_if fcard_fempty)
  ultimately show ?thesis
    by (simp add: ex_at_def move_def with_limiter_def fail_def Let_def loginWindow_eq)
qed

lemmas ex_steps = ex_enter ex_check ex_record ex_wrong

lemma ex_gate_at: "ex_gate = ex_at 0 {#}"
  by (simp add: ex_gate_def ex_at_def ex_srv_def)

lemma ex_attack_tries: "wrong_tries ex_bc ''1.2.3.4|carla'' ex_attack ex_gate = 6"
  unfolding ex_attack_def ex_one_def ex_gate_at
  by (simp add: ex_steps numeral_nat del: login_step.simps)

lemma ex_attack_flight: "at_most 2 ''1.2.3.4|carla'' ex_bc ex_attack ex_gate"
  unfolding ex_attack_def ex_one_def ex_gate_at
  by (simp add: ex_steps numeral_nat at_most_Cons at_most_Nil in_flight_def del: login_step.simps) (simp add: ex_at_def)

theorem brute_force_bound_witness:
  "wrong_tries ex_bc ''1.2.3.4|carla'' ex_attack ex_gate = 6 \<and> 6 \<le> (successes ''1.2.3.4|carla'' ex_attack + 1) * (4 + 2)"
proof -
  have "sorted (map (now \<circ> fst) ex_attack)" by (simp add: ex_attack_def ex_one_def numeral_nat)
  moreover have "\<forall>(e, a) \<in> set ex_attack. now ex_env \<le> now e \<and> now e < now ex_env + loginWindow"
    by (auto simp: ex_attack_def ex_one_def loginWindow_eq)
  ultimately show ?thesis
    using brute_force_bound[OF _ _ _ _ ex_attack_flight[unfolded at_most_def], of "now ex_env"] ex_attack_tries
    by (simp add: ex_gate_def ex_srv_def)
qed

end
