(* ===== verification/Spec2Isabelle.thy ===== *)
theory Spec2Isabelle
  imports Program LoginSteps
begin

text \<open>
  go-data: a dashboard for one host. A background loop collects a snapshot of the system every second, stores
  it, logs reboots and evaluates alarms; pollers follow Docker, the ssh log and the TCP tables; an HTTP server
  behind an access control answers from what they leave. This development models that program in 33 theories
  and proves what makes its parts, and their composition, correct.

  \<^bold>\<open>The parts and how they interact.\<close> \<open>app.Build\<close> (internal/app/app.go) loads nothing itself: it gets the
  configuration (internal/config), builds the collectors (internal/collector), the alarm evaluator
  (internal/alarm), the uptime log (internal/uptime) and the watchers (internal/security), starts the loop, and
  serves the data endpoints and the account endpoints (internal/api) through one of three access modes
  (internal/auth) over the account store (internal/users). \<open>Monitor.tick\<close> is one turn of the loop, \<open>monitor_run\<close>
  the runs of the loop together with the goroutines of \<open>MultiStore.Save\<close>; \<open>Monitor.Register\<close> what the data
  endpoints answer; \<open>UsersApi.serve\<close> the server in session mode; \<open>Startup\<close> how a mode is chosen.

  \<^bold>\<open>The program.\<close> The theory Program puts all of it together: \<open>Build\<close> is \<open>app.Build\<close> up to the moment the server listens,
  \<open>program\<close> the state its goroutines share, \<open>program_step\<close> one step of one of them (a turn of the loop, a save, a poll of
  Docker, of the ssh log or of the connections, a purge of the sessions, a request), and \<open>program_run\<close> any interleaving of whole steps:
  a request, a turn of the loop or a poll is not split here, so what two of them could do to each other in the middle is outside
  these theorems (LoginSteps splits the one handler where it matters most). Each goroutine writes a part of the state of its own, and
  the lemmas that a run leaves each part as its own steps leave it (\<open>step_threads\<close>, \<open>run_docker\<close> and the like) are
  tools, not results. The results are that the invariants of the parts hold together (\<open>program_ok\<close>), what each request is answered, that nothing observed of the
  host reaches a request the access control does not admit, and which configurations start.

  \<^bold>\<open>The shared layer.\<close> Prelude: lists, the contract of components that keep an invariant (locale
  \<open>invariant_ops\<close>) and of \<open>sort.Slice\<close> (locale \<open>slice_sort\<close>). GoFloat: binary64 with rounding to nearest even
  over rationals, infinities and NaN, each operation rounded by itself (no fused multiply-add, as on amd64) and the two zeros one; and
  bounds on the rounding error of sums, products and quotients (\<open>near\<close>). GoTime: durations that saturate as Go's do. GoStrings,
  ProcText: the functions of strings, strconv and filepath the source uses, on bytes, with the round trips of
  numbers, fields and lines; \<open>ToLower\<close> folds ASCII letters only, where Go's folds all of Unicode (it is used on the
  user name in the limiter's key and on JSON field names). GoCrypto: SHA-256 and base64 in full. 64-bit integers are words wherever they can wrap.

  \<^bold>\<open>Accounts and access.\<close> Users and UsersProps model internal/users/store.go: the two tables as a record, one
  function per operation, each statement able to fail (\<open>env\<close>), a failed transaction leaving the old state;
  the lemmas give well-formedness and its preservation, each operation's outcome on every branch, the
  refinement of the map of accounts, and that an active administrator is never lost. Limiter models the login
  limiter, Session the handlers and the middleware of internal/auth/session.go, Http requests and
  responses after decoding, UsersApi internal/api/handler_users.go, ServerProps the composition and the
  end-to-end properties. LoginSteps takes the login handler apart into the critical sections the runtime interleaves (\<open>blocked\<close>, the slow
  password check, \<open>fail\<close> or \<open>reset\<close>, \<open>CreateSession\<close>), shows that one request alone is \<open>Session.login\<close> (\<open>login_sections\<close>), bounds the
  passwords that can be tried by the attempts in flight, and shows that this is needed (\<open>concurrent_tries\<close>). Startup internal/config/config.go and the access part of internal/app/app.go. bcrypt is a
  parameter of which only what holds up to 72 bytes is assumed (\<open>bcrypt_ok\<close>): it ignores what follows, so statements about which
  passwords are accepted speak of candidates of at most 72 bytes.

  \<^bold>\<open>The snapshot.\<close> Metrics holds the types of internal/domain/metrics.go. Sampling models cpu.go and memory.go
  and the pure part of system.go, Rates net.go and diskio.go, Processes process.go, SystemCollect disk.go,
  thermal.go, sockets.go and \<open>SystemCollector.Collect\<close>. Their lemmas: each file in the kernel's format is read
  back; percentages are the correctly rounded ones and between 0 and 100 while a hundred times the total stays below
  \<open>2^53\<close> (\<open>iowait_back_wraps\<close> and \<open>mem_pct_over\<close> show what happens beyond); rates are within one part in \<open>2^50\<close> of the exact quotient
  over any time between the samples; a snapshot compares the processor with the last reading that could be read, but interfaces and
  disks with the one just before, readable or not. Alarms models internal/alarm, History the lookup of one
  metric, the current snapshot and the sparkline (internal/api/metric_lookup.go, handler_stats.go), Influx
  the second store.

  \<^bold>\<open>Docker and the host.\<close> PortChips models docker_ports.go, Docker docker.go: a refresh with the daemon
  answering or failing request by request. Host models host.go: identity, processor, disks with their
  partitions, USB devices, and which disk a partition is shown under.

  \<^bold>\<open>The logs.\<close> EventLog models internal/security/eventlog.go and the memory store with its goroutines
  (internal/storage), Connections and SshLog the two watchers of internal/security, Uptime internal/uptime.
  Files grow, rotate and vanish between the calls of a poll; writes can fail at any byte.

  \<^bold>\<open>Interfaces.\<close> The locales are interpreted on the model only: \<open>invariant_ops\<close> on the account store, the
  server, the uptime log, the Docker collector and the program; \<open>capped_log\<close> (EventLog) on the event log and the memory
  store; \<open>slice_sort\<close> on ports and processes; \<open>rate_source\<close> (Rates) on interfaces and disks. Properties use
  their facts through these interpretations.

  \<^bold>\<open>Loops.\<close> Recursion is structural or has a measure, with two exceptions that are \<open>partial_function (option)\<close>:
  the sparkline loop, whose step comes from the request (\<open>History_eq\<close> and \<open>data_paths_answered\<close> prove
  that it always ends), the walk down stacked devices (\<open>walk_ends\<close> gives the condition under
  which it ends, \<open>no_cycle_host\<close> that start-up then returns, \<open>partitionParentDisk_cycle\<close> a device on which it does not). No fuel is used.

  \<^bold>\<open>Parameters.\<close> bcrypt, the JSON decoders and encoders, SQLite's driver errors, the Docker daemon, the file
  system, the output of dmidecode, the clocks, the environment, the order in which a Go map is iterated and the order \<open>sort.Slice\<close>
  leaves equal elements in are arguments; what is assumed of them is a named hypothesis with a witness.

  \<^bold>\<open>Not modelled.\<close> The timers that decide when a step comes (every order of steps is allowed instead), \<open>ListenAndServe\<close> and logging; the syntax of HTTP
  headers, cookies and JSON; the transport of the Docker socket and of the Influx client; the static
  pages. The mutexes are modelled by taking each operation they guard as one step; that
  the code holds them where it should is not proved. In \<open>serve\<close> the store calls of one request are not interleaved with those of another.
\<close>

end
